(* ===== verification/Prelude.thy ===== *)
theory Prelude
  imports Main "HOL-Library.Word"
begin

unbundle bit_operations_syntax

text \<open>
  Shared vocabulary of the development: the fixed-width integer types and the status
  codes of \<^verbatim>\<open>kernel/include/kernel/types.h\<close>, the alignment macro in the two
  widths the kernel uses it, and the arithmetic facts on words that every allocator
  proof needs.

  Unsigned C integers are words of their C width, so that \<open>+\<close>, \<open>-\<close> and \<open>*\<close>
  wrap exactly where the C code wraps.  Pointers are \<open>option\<close> values whose
  \<open>None\<close> is \<^verbatim>\<open>NULL\<close>.
\<close>

section \<open>Integer types, status codes and size macros\<close>

type_synonym u8 = "8 word"
type_synonym u16 = "16 word"
type_synonym u32 = "32 word"
type_synonym u64 = "64 word"

datatype aios_status =
    AIOS_OK | AIOS_ERR_NOMEM | AIOS_ERR_INVAL | AIOS_ERR_BUSY | AIOS_ERR_NODEV
  | AIOS_ERR_TIMEOUT | AIOS_ERR_PERM | AIOS_ERR_IO | AIOS_ERR_NOSYS | AIOS_ERR_OVERFLOW
  | AIOS_ERR_ACCEL | AIOS_ERR_TENSOR | AIOS_ERR_MODEL

abbreviation PAGE_SIZE :: u64 where "PAGE_SIZE \<equiv> 4096"
abbreviation HUGE_PAGE_SIZE :: u64 where "HUGE_PAGE_SIZE \<equiv> 2097152"
abbreviation TENSOR_ALIGN :: u64 where "TENSOR_ALIGN \<equiv> 64"
abbreviation UINT64_MAX :: u64 where "UINT64_MAX \<equiv> - 1"

definition KB :: "u64 \<Rightarrow> u64" where
  "KB x = x * 1024"

definition MB :: "u64 \<Rightarrow> u64" where
  "MB x = x * 1024 * 1024"

text \<open>
  \<^verbatim>\<open>ALIGN_UP(x, align)\<close> with an \<^verbatim>\<open>int\<close> or 64-bit \<^verbatim>\<open>align\<close>: the mask
  \<^verbatim>\<open>~(align - 1)\<close> is (sign-extended to) a 64-bit mask.
\<close>

definition ALIGN_UP :: "u64 \<Rightarrow> u64 \<Rightarrow> u64" where
  "ALIGN_UP x align = (x + (align - 1)) AND NOT (align - 1)"

text \<open>
  The same macro with a 64-bit \<^verbatim>\<open>x\<close> and an unsigned 32-bit \<^verbatim>\<open>align\<close>: C
  computes \<^verbatim>\<open>~(align - 1)\<close> in 32 bits and then zero-extends it, so the upper half
  of the sum is masked away.
\<close>

definition ALIGN_UP_u32 :: "u64 \<Rightarrow> u32 \<Rightarrow> u64" where
  "ALIGN_UP_u32 x align = (x + ucast (align - 1)) AND ucast (NOT (align - 1))"

section \<open>Runs of kernel code\<close>

text \<open>
  A call into the kernel returns a value, stops the machine in \<^verbatim>\<open>kernel_panic\<close>, or
  never returns (a spin on a lock that is never released, a walk around a cyclic list).
\<close>

type_synonym 'a run = "(string + 'a) option"

definition ret :: "'a \<Rightarrow> 'a run" where
  "ret v = Some (Inr v)"

definition panic :: "string \<Rightarrow> 'a run" where
  "panic msg = Some (Inl msg)"

definition run_bind :: "'a run \<Rightarrow> ('a \<Rightarrow> 'b run) \<Rightarrow> 'b run" where
  "run_bind r f =
     (case r of None \<Rightarrow> None | Some (Inl msg) \<Rightarrow> Some (Inl msg) | Some (Inr v) \<Rightarrow> f v)"

definition run_value :: "'a \<Rightarrow> 'a run \<Rightarrow> 'a" where
  "run_value d r = (case r of Some (Inr v) \<Rightarrow> v | _ \<Rightarrow> d)"

lemma run_bind_simps [simp]:
  "run_bind (ret v) f = f v" "run_bind (panic msg) f = panic msg" "run_bind None f = None"
  by (simp_all add: run_bind_def ret_def panic_def)

lemma run_value_ret [simp]: "run_value d (ret v) = v"
  by (simp add: run_value_def ret_def)

lemma run_inject [simp]:
  "ret v = ret w \<longleftrightarrow> v = w" "panic m \<noteq> ret v" "ret v \<noteq> panic m"
  "ret v \<noteq> None" "panic m \<noteq> None" "panic m = panic m' \<longleftrightarrow> m = m'"
  by (simp_all add: ret_def panic_def)

named_theorems word_bounds \<open>bounds on the results of word operations\<close>

section \<open>Words as bounded numbers\<close>

lemma unat_eqI: "unat a = unat b \<Longrightarrow> a = b"
  by (rule unsigned_word_eqI)

lemma unat_add_no_wrap:
  fixes a b :: "'a::len word"
  assumes "unat a + unat b < 2 ^ LENGTH('a)"
  shows "unat (a + b) = unat a + unat b"
  using assms by (simp add: unat_word_ariths)

lemma unat_mult_no_wrap:
  fixes a b :: "'a::len word"
  assumes "unat a * unat b < 2 ^ LENGTH('a)"
  shows "unat (a * b) = unat a * unat b"
  using assms by (simp add: unat_word_ariths)

lemma unat_u64_bound [word_bounds]: "unat (w :: u64) < 18446744073709551616"
  using unsigned_less [of w, where ?'a = nat] by simp

lemma unat_u32_bound [word_bounds]: "unat (w :: u32) < 4294967296"
  using unsigned_less [of w, where ?'a = nat] by simp

lemma unat_ucast_up [simp]:
  "unat (ucast (w :: u32) :: u64) = unat w"
  "unat (ucast (v :: u16) :: u64) = unat v"
  "unat (ucast (x :: u8) :: u64) = unat x"
  by (simp_all add: unsigned_ucast_eq take_bit_nat_eq_self_iff)
    (use unsigned_less [of w, where ?'a = nat] unsigned_less [of v, where ?'a = nat]
       unsigned_less [of x, where ?'a = nat] in simp_all)

lemma unat_take_bit_mod:
  fixes w :: "'a::len word"
  shows "unat (take_bit n w) = unat w mod 2 ^ n"
  by (simp add: unsigned_take_bit_eq take_bit_eq_mod [where ?'a = nat] del: take_bit_eq_mod)

lemma unat_pow2:
  assumes "k < LENGTH('a::len)"
  shows "unat (2 ^ k :: 'a word) = 2 ^ k"
proof -
  have "unat (of_nat (2 ^ k) :: 'a word) = 2 ^ k mod 2 ^ LENGTH('a)"
    by (simp only: unat_of_nat)
  also have "\<dots> = 2 ^ k"
    using assms by (intro mod_less power_strict_increasing) simp_all
  finally show ?thesis by simp
qed

lemma unat_mask_eq:
  assumes "k < LENGTH('a::len)"
  shows "unat (mask k :: 'a word) = 2 ^ k - 1"
proof -
  have "(2 ^ k :: 'a word) \<noteq> 0"
    using unat_pow2 [OF assms] by (metis power_not_zero unat_0 zero_neq_numeral)
  then have "unat (2 ^ k - 1 :: 'a word) = unat (2 ^ k :: 'a word) - 1"
    by (rule unat_minus_one)
  then show ?thesis
    by (simp add: mask_eq_exp_minus_1 unat_pow2 [OF assms])
qed

lemma unat_and_not_mask:
  fixes w :: "'a::len word"
  shows "unat (w AND NOT (mask n)) = unat w div 2 ^ n * 2 ^ n"
proof -
  have "(w AND NOT (mask n)) + (w AND mask n) = (w AND NOT (mask n)) OR (w AND mask n)"
    by (rule disjunctive_add_eq_or) (auto simp: bit_eq_iff bit_simps)
  also have "\<dots> = w"
    by (auto simp: bit_eq_iff bit_simps)
  finally have "w AND NOT (mask n) = w - take_bit n w"
    by (simp add: take_bit_eq_mask eq_diff_eq)
  moreover have "take_bit n w \<le> w"
    by (simp add: word_le_nat_alt unat_take_bit_mod)
  ultimately have "unat (w AND NOT (mask n)) = unat w - unat w mod 2 ^ n"
    by (simp add: unat_sub unat_take_bit_mod)
  then show ?thesis
    by (simp add: minus_mod_eq_div_mult)
qed

section \<open>Alignment\<close>

text \<open>
  The kernel's power-of-two test \<^verbatim>\<open>(a & (a - 1)) == 0\<close> on a nonzero value.
\<close>

lemma nat_and_pred_zero_pow2:
  fixes n :: nat
  assumes "n AND (n - 1) = 0" and "0 < n"
  shows "\<exists>k. n = 2 ^ k"
  using assms
proof (induction n rule: less_induct)
  case (less n)
  show ?case
  proof (cases "even n")
    case True
    then obtain m where m: "n = 2 * m" by blast
    with less.prems have "0 < m" by simp
    have half: "(2 * m - Suc 0) div 2 = m - Suc 0" by presburger
    have "n AND (n - 1) = 2 * (m AND (m - 1))"
      using \<open>0 < m\<close> unfolding m by (simp add: and_rec [of "2 * m"] half)
    with less.prems(1) have "m AND (m - 1) = 0" by simp
    with less.IH [of m] m \<open>0 < m\<close> obtain k where "m = 2 ^ k" by auto
    with m have "n = 2 ^ Suc k" by simp
    then show ?thesis ..
  next
    case False
    then obtain m where m: "n = 1 + 2 * m" by (metis oddE add.commute)
    have "n AND (n - 1) = 2 * m"
      unfolding m by (simp add: and_rec [of "Suc (2 * m)"])
    with less.prems(1) m have "n = 2 ^ 0" by simp
    then show ?thesis ..
  qed
qed

lemma word_pow2_test:
  fixes a :: "'a::len word"
  assumes "a AND (a - 1) = 0" and "a \<noteq> 0"
  shows "\<exists>k<LENGTH('a). a = 2 ^ k"
proof -
  have pred: "unat (a - 1) = unat a - 1"
    using assms(2) by (simp add: unat_minus_one)
  have "unat (a AND (a - 1)) = unat a AND unat (a - 1)"
    by (simp add: unsigned_and_eq)
  with assms(1) pred have "unat a AND (unat a - 1) = 0" by simp
  moreover have "0 < unat a" using assms(2) by (simp add: unat_gt_0)
  ultimately obtain k where k: "unat a = 2 ^ k"
    using nat_and_pred_zero_pow2 by blast
  have "k < LENGTH('a)"
    using unsigned_less [of a, where ?'a = nat] unfolding k by simp
  moreover have "a = of_nat (unat a)" by simp
  then have "a = 2 ^ k" unfolding k by simp
  ultimately show ?thesis by blast
qed

lemma unat_ALIGN_UP:
  assumes "k < 64" and "unat x + (2 ^ k - 1) < 2 ^ 64"
  shows "unat (ALIGN_UP x (2 ^ k)) = (unat x + (2 ^ k - 1)) div 2 ^ k * 2 ^ k"
proof -
  have m: "(2 ^ k :: u64) - 1 = mask k"
    by (simp add: mask_eq_exp_minus_1)
  have "unat (mask k :: u64) = 2 ^ k - 1"
    using assms(1) by (simp add: unat_mask_eq)
  with assms(2) have "unat (x + mask k) = unat x + (2 ^ k - 1)"
    by (simp add: unat_add_no_wrap)
  then show ?thesis
    by (simp add: ALIGN_UP_def m unat_and_not_mask)
qed

lemma ALIGN_UP_u32_truncates:
  assumes "k < 32"
  shows "ALIGN_UP_u32 x (2 ^ k) = take_bit 32 (ALIGN_UP x (2 ^ k))"
proof -
  have m: "(2 ^ k :: u32) - 1 = mask k" "(2 ^ k :: u64) - 1 = mask k"
    by (simp_all add: mask_eq_exp_minus_1)
  have m32: "ucast (mask k :: u32) = (mask k :: u64)"
    using assms by (auto simp: bit_eq_iff bit_simps)
  have "ucast (NOT (mask k :: u32)) = take_bit 32 (NOT (mask k) :: u64)"
    by (auto simp: bit_eq_iff bit_simps)
  then show ?thesis
    unfolding ALIGN_UP_u32_def ALIGN_UP_def m m32
    by (simp add: take_bit_and)
      (auto simp: bit_eq_iff bit_simps)
qed

lemma unat_ALIGN_UP_u32:
  assumes "k < 32" and "unat x + (2 ^ k - 1) < 2 ^ 64"
  shows "unat (ALIGN_UP_u32 x (2 ^ k)) = (unat x + (2 ^ k - 1)) div 2 ^ k * 2 ^ k mod 2 ^ 32"
  using assms unat_ALIGN_UP [of k x]
  by (simp add: ALIGN_UP_u32_truncates unat_take_bit_mod)

lemma div_mult_round_up:
  fixes n m :: nat
  assumes "0 < m"
  shows "n \<le> (n + (m - 1)) div m * m" and "(n + (m - 1)) div m * m < n + m"
    and "m dvd (n + (m - 1)) div m * m"
proof -
  have eq: "(n + (m - 1)) div m * m = n + (m - 1) - (n + (m - 1)) mod m"
    by (simp add: minus_mod_eq_div_mult)
  have "(n + (m - 1)) mod m < m" using assms by simp
  then show "n \<le> (n + (m - 1)) div m * m" unfolding eq by linarith
  show "(n + (m - 1)) div m * m < n + m" unfolding eq using assms by linarith
  show "m dvd (n + (m - 1)) div m * m" by simp
qed

section \<open>Guards against overflow, and lists\<close>

lemma takeWhile_split:
  "xs = takeWhile P xs @ dropWhile P xs" "\<forall>x \<in> set (takeWhile P xs). P x"
  by (auto dest: set_takeWhileD)

lemma takeWhile_between:
  assumes "\<forall>x \<in> set pre. P x" and "\<forall>x \<in> set post. \<not> P x"
  shows "takeWhile P (pre @ post) = pre" and "dropWhile P (pre @ post) = post"
proof -
  have "takeWhile P post = []" "dropWhile P post = post"
    using assms(2) by (cases post; simp)+
  then show "takeWhile P (pre @ post) = pre" "dropWhile P (pre @ post) = post"
    using assms(1) by (simp_all add: dropWhile_append2 takeWhile_append2)
qed

lemma unat_ucast_minus_one:
  fixes a :: u32
  assumes "0 < unat a"
  shows "unat ((ucast a :: u64) - 1) = unat a - 1"
proof -
  have "(1 :: u64) \<le> ucast a" using assms by (simp add: word_le_nat_alt)
  then show ?thesis by (simp add: unat_sub)
qed

lemma overflow_guard:
  fixes x w :: u64
  shows "\<not> UINT64_MAX - w < x \<longleftrightarrow> unat x + unat w < 2 ^ 64"
proof -
  have m: "unat (UINT64_MAX :: u64) = 2 ^ 64 - 1"
    by (simp add: unsigned_minus_1_eq_mask mask_eq_exp_minus_1)
  have "w \<le> UINT64_MAX" using word_bounds(1) [of w] by (simp add: word_le_nat_alt m)
  then have "unat (UINT64_MAX - w) = 2 ^ 64 - 1 - unat w" by (simp add: unat_sub m)
  then show ?thesis using word_bounds(1) [of w] by (simp add: word_less_nat_alt not_less) linarith
qed

lemma map_update_same: "i < length xs \<Longrightarrow> g y = g (xs ! i) \<Longrightarrow> map g (xs[i := y]) = map g xs"
  by (simp add: map_update) (metis list_update_id nth_map length_map)

lemma ALIGN_UP_aligned:
  assumes "k < 64" and "2 ^ k dvd unat x" and "unat x + (2 ^ k - 1) < 2 ^ 64"
  shows "ALIGN_UP x (2 ^ k) = x"
proof (rule unat_eqI)
  from assms(2) obtain q where q: "unat x = 2 ^ k * q" ..
  have "((2 ^ k - 1) + 2 ^ k * q) div 2 ^ k = q" by (subst div_mult_self2) simp_all
  then have "(2 ^ k * q + (2 ^ k - 1)) div 2 ^ k = q" by (simp only: add.commute)
  then show "unat (ALIGN_UP x (2 ^ k)) = unat x"
    using unat_ALIGN_UP [OF assms(1,3)] q by simp
qed

lemma sorted_wrt_pair:
  "sorted_wrt R xs \<Longrightarrow> x \<in> set xs \<Longrightarrow> y \<in> set xs \<Longrightarrow> x = y \<or> R x y \<or> R y x"
  by (induction xs) auto

lemma ALIGN_UP_u32_aligned:
  assumes "k < 32" and "2 ^ k dvd unat x" and "unat x < 2 ^ 32"
  shows "ALIGN_UP_u32 x (2 ^ k) = x"
proof (rule unat_eqI)
  have "(2::nat) ^ k \<le> 2 ^ 31" using assms(1) by (intro power_increasing) simp_all
  then have "unat x + (2 ^ k - 1) < 2 ^ 64" using assms(3) by simp
  moreover from this have "unat (ALIGN_UP x (2 ^ k)) = unat x"
    using ALIGN_UP_aligned [of k x] assms by simp
  ultimately show "unat (ALIGN_UP_u32 x (2 ^ k)) = unat x"
    using unat_ALIGN_UP [of k x] unat_ALIGN_UP_u32 [of k x] assms by simp
qed

lemma ALIGN_UP_u32_covers:
  assumes "k < 32" and "unat sz + 2 ^ k \<le> 2 ^ 32"
  shows "unat sz \<le> unat (ALIGN_UP_u32 sz (2 ^ k))"
proof -
  have "(unat sz + (2 ^ k - 1)) div 2 ^ k * 2 ^ k < unat sz + 2 ^ k" by (rule div_mult_round_up(2)) simp
  then show ?thesis
    using unat_ALIGN_UP_u32 [OF assms(1), of sz] assms div_mult_round_up(1) [of "2 ^ k" "unat sz"] by simp
qed

lemma unat_of_nat_small:
  assumes "n < 2 ^ LENGTH('a::len)"
  shows "unat (of_nat n :: 'a word) = n"
  using assms by (simp add: unsigned_of_nat take_bit_nat_eq_self)

lemma filter_update_count:
  assumes "i < length xs"
  shows "length (filter P (xs[i := y])) + (if P (xs ! i) then 1 else 0) = length (filter P xs) + (if P y then 1 else 0)"
  using assms
proof (induction xs arbitrary: i)
  case (Cons x xs)
  then show ?case by (cases i) auto
qed simp

lemma find_index_SomeD:
  assumes "find P [0..<n] = Some i"
  shows "i < n" and "P i"
  using assms by (auto simp: find_Some_iff)

lemma find_index_NoneD: "find P [0..<n] = None \<Longrightarrow> i < n \<Longrightarrow> \<not> P i"
  by (auto simp: find_None_iff)

lemma unat_UINT64_MAX: "unat (UINT64_MAX :: u64) = 2 ^ 64 - 1"
  by (simp add: unsigned_minus_1_eq_mask mask_eq_exp_minus_1)

lemma insert_split:
  "length (takeWhile P xs @ x # dropWhile P xs) = Suc (length xs)" "set (takeWhile P xs @ x # dropWhile P xs) = insert x (set xs)"
  by (induction xs) auto

end
