(* ===== verification/Linked_List.thy ===== *)
theory Linked_List
  imports Prelude
begin

text \<open>
  Doubly linked lists over a store of nodes.  The kernel heap, the tensor free lists
  and the scheduler run queues are all intrusive doubly linked lists whose nodes carry
  a \<^verbatim>\<open>next\<close> and a \<^verbatim>\<open>prev\<close> pointer.  A store is a function from references to
  nodes; a field write \<^verbatim>\<open>p->f = v\<close> is \<open>upd s p (\<lambda>n. n\<lparr>f := v\<rparr>)\<close>.

  The first part is about the two link functions alone: \<open>dlist nx pv h xs\<close> says that the
  pointers starting at \<open>h\<close> spell out exactly the nodes \<open>xs\<close>, in both directions.
  The second part is the interface \<open>linked_nodes\<close>: what a node type has to provide
  (independent next and previous fields) and what it gets (unlink and insert keep the
  list well linked).  Each component interprets it on its own node record.
\<close>

section \<open>Field writes through a pointer\<close>

definition upd :: "('r \<Rightarrow> 'n) \<Rightarrow> 'r \<Rightarrow> ('n \<Rightarrow> 'n) \<Rightarrow> ('r \<Rightarrow> 'n)" where
  "upd s r f = s(r := f (s r))"

text \<open>The guarded form \<^verbatim>\<open>if (p) p->f = v;\<close>.\<close>

definition upd_opt :: "('r \<Rightarrow> 'n) \<Rightarrow> 'r option \<Rightarrow> ('n \<Rightarrow> 'n) \<Rightarrow> ('r \<Rightarrow> 'n)" where
  "upd_opt s r f = (case r of None \<Rightarrow> s | Some a \<Rightarrow> upd s a f)"

text \<open>
  The cursor loop \<^verbatim>\<open>while (cur->next && go(cur->next)) cur = cur->next;\<close>.  A cyclic
  list can make it run forever, which is the value \<^const>\<open>None\<close>.
\<close>

partial_function (option) walk ::
  "('r \<Rightarrow> 'r option) \<Rightarrow> ('r \<Rightarrow> bool) \<Rightarrow> 'r \<Rightarrow> 'r option" where
  "walk nx go c =
     (case nx c of None \<Rightarrow> Some c | Some d \<Rightarrow> if go d then walk nx go d else Some c)"

text \<open>
  The scan \<^verbatim>\<open>for (r = head; r; r = r->next)\<close> with an accumulator and an early exit: the
  body returns the new accumulator and whether the loop stops.  On a proper list it is the
  fold \<open>sfold\<close>.
\<close>

partial_function (option) scan ::
  "('r \<Rightarrow> 'r option) \<Rightarrow> ('r \<Rightarrow> 'a \<Rightarrow> 'a \<times> bool) \<Rightarrow> 'a \<Rightarrow> 'r option \<Rightarrow> 'a option" where
  "scan nx f acc c =
     (case c of None \<Rightarrow> Some acc
      | Some r \<Rightarrow> (case f r acc of (acc', stop) \<Rightarrow> if stop then Some acc' else scan nx f acc' (nx r)))"

fun sfold :: "('r \<Rightarrow> 'a \<Rightarrow> 'a \<times> bool) \<Rightarrow> 'r list \<Rightarrow> 'a \<Rightarrow> 'a" where
  "sfold f [] acc = acc"
| "sfold f (x # xs) acc = (case f x acc of (acc', stop) \<Rightarrow> if stop then acc' else sfold f xs acc')"

declare walk.simps [code] scan.simps [code]

section \<open>Link functions\<close>

definition first_ref :: "'r list \<Rightarrow> 'r option \<Rightarrow> 'r option" where
  "first_ref xs e = (case xs of [] \<Rightarrow> e | x # _ \<Rightarrow> Some x)"

definition last_ref :: "'r option \<Rightarrow> 'r list \<Rightarrow> 'r option" where
  "last_ref p xs = (if xs = [] then p else Some (last xs))"

fun seg :: "('r \<Rightarrow> 'r option) \<Rightarrow> ('r \<Rightarrow> 'r option) \<Rightarrow> 'r option \<Rightarrow> 'r list \<Rightarrow> 'r option \<Rightarrow> bool" where
  "seg nx pv p [] e = True"
| "seg nx pv p (x # xs) e = (pv x = p \<and> nx x = first_ref xs e \<and> seg nx pv (Some x) xs e)"

definition dlist :: "('r \<Rightarrow> 'r option) \<Rightarrow> ('r \<Rightarrow> 'r option) \<Rightarrow> 'r option \<Rightarrow> 'r list \<Rightarrow> bool" where
  "dlist nx pv h xs \<longleftrightarrow> distinct xs \<and> h = first_ref xs None \<and> seg nx pv None xs None"

lemma first_ref_simps [simp]:
  "first_ref [] e = e" "first_ref (x # xs) e = Some x"
  "first_ref (xs @ ys) e = first_ref xs (first_ref ys e)"
  by (auto simp: first_ref_def split: list.splits)

lemma last_ref_simps [simp]:
  "last_ref p [] = p" "last_ref p (x # xs) = last_ref (Some x) xs"
  "last_ref p (xs @ [y]) = Some y" "last_ref p (xs @ ys) = last_ref (last_ref p xs) ys"
  by (auto simp: last_ref_def)

lemma first_ref_in: "first_ref xs None = Some y \<Longrightarrow> y \<in> set xs"
  by (cases xs) auto

lemma last_ref_in: "last_ref None xs = Some y \<Longrightarrow> y \<in> set xs"
  by (auto simp: last_ref_def split: if_splits)

lemma seg_append [simp]:
  "seg nx pv p (xs @ ys) e \<longleftrightarrow>
     seg nx pv p xs (first_ref ys e) \<and> seg nx pv (last_ref p xs) ys e"
  by (induction xs arbitrary: p) auto

lemma seg_frame:
  assumes "\<And>x. x \<in> set xs \<Longrightarrow> nx' x = nx x" and "\<And>x. x \<in> set xs \<Longrightarrow> pv' x = pv x"
  shows "seg nx' pv' p xs e = seg nx pv p xs e"
  using assms by (induction xs arbitrary: p) auto

lemma seg_redirect_end:
  assumes "seg nx pv p xs e" and "distinct xs" and "last_ref None xs = Some l"
  shows "seg (nx(l := e')) pv p xs e'"
  using assms
proof (induction xs arbitrary: p)
  case (Cons x xs)
  show ?case
  proof (cases "xs = []")
    case True
    with Cons.prems show ?thesis by simp
  next
    case False
    with Cons.prems have l: "last_ref None xs = Some l" by (simp add: last_ref_def)
    then have "l \<in> set xs" by (rule last_ref_in)
    with Cons.prems have "l \<noteq> x" by auto
    moreover have "first_ref xs e = first_ref xs e'" using False by (cases xs) auto
    ultimately show ?thesis using Cons l by auto
  qed
qed simp

lemma seg_redirect_start:
  assumes "seg nx pv p (x # xs) e" and "x \<notin> set xs"
  shows "seg nx (pv(x := p')) p' (x # xs) e"
proof -
  have "seg nx (pv(x := p')) (Some x) xs e = seg nx pv (Some x) xs e"
    using assms(2) by (intro seg_frame) auto
  with assms(1) show ?thesis by simp
qed

lemma dlist_insert:
  assumes d: "dlist nx pv h (xs @ ys)" and a: "a \<notin> set (xs @ ys)"
    and nx': "nx' = (case last_ref None xs of None \<Rightarrow> nx | Some l \<Rightarrow> nx(l := Some a))
                      (a := first_ref ys None)"
    and pv': "pv' = (case first_ref ys None of None \<Rightarrow> pv | Some f \<Rightarrow> pv(f := Some a))
                      (a := last_ref None xs)"
  shows "dlist nx' pv' (if xs = [] then Some a else h) (xs @ a # ys)"
proof -
  from d have dist: "distinct xs" "distinct ys" "set xs \<inter> set ys = {}"
    and sx: "seg nx pv None xs (first_ref ys None)"
    and sy: "seg nx pv (last_ref None xs) ys None" by (auto simp: dlist_def)
  have "seg nx' pv' None xs (Some a)"
  proof (cases "last_ref None xs")
    case None
    then show ?thesis by (cases xs) (auto simp: last_ref_def)
  next
    case (Some l)
    then have "l \<in> set xs" by (rule last_ref_in)
    have "seg (nx(l := Some a)) pv None xs (Some a)"
      using seg_redirect_end [OF sx dist(1) Some] .
    moreover have "seg nx' pv' None xs (Some a) = seg (nx(l := Some a)) pv None xs (Some a)"
      using a dist(3) Some
      by (intro seg_frame) (auto simp: nx' pv' dest!: first_ref_in split: option.split)
    ultimately show ?thesis by simp
  qed
  moreover have "seg nx' pv' (Some a) ys None"
  proof (cases ys)
    case (Cons y ys')
    have "seg nx (pv(y := Some a)) (Some a) ys None"
      using seg_redirect_start sy dist(2) Cons by (metis distinct.simps(2))
    moreover have "seg nx' pv' (Some a) ys None = seg nx (pv(y := Some a)) (Some a) ys None"
      using a dist(3) Cons
      by (intro seg_frame) (auto simp: nx' pv' dest!: last_ref_in split: option.split)
    ultimately show ?thesis by simp
  qed simp
  moreover have "nx' a = first_ref ys None" "pv' a = last_ref None xs"
    by (simp_all add: nx' pv')
  ultimately show ?thesis
    using d a by (cases xs) (auto simp: dlist_def)
qed

lemma dlist_remove:
  assumes d: "dlist nx pv h (xs @ a # ys)"
    and nx': "nx' = (case pv a of None \<Rightarrow> nx | Some l \<Rightarrow> nx(l := nx a))"
    and pv': "pv' = (case nx a of None \<Rightarrow> pv | Some f \<Rightarrow> pv(f := pv a))"
  shows "dlist nx' pv' (if pv a = None then nx a else h) (xs @ ys)"
    and "pv a = last_ref None xs" and "nx a = first_ref ys None"
proof -
  from d have dist: "distinct xs" "distinct ys" "set xs \<inter> set ys = {}"
    and an: "a \<notin> set xs" "a \<notin> set ys"
    and sx: "seg nx pv None xs (Some a)" and sy: "seg nx pv (Some a) ys None"
    and na: "nx a = first_ref ys None" and pa: "pv a = last_ref None xs"
    by (auto simp: dlist_def)
  show "pv a = last_ref None xs" "nx a = first_ref ys None" by fact+
  have "seg nx' pv' None xs (first_ref ys None)"
  proof (cases "last_ref None xs")
    case None
    then show ?thesis by (cases xs) (auto simp: last_ref_def)
  next
    case (Some l)
    have "seg (nx(l := first_ref ys None)) pv None xs (first_ref ys None)"
      using seg_redirect_end [OF sx dist(1) Some] .
    moreover have "seg nx' pv' None xs (first_ref ys None) =
        seg (nx(l := first_ref ys None)) pv None xs (first_ref ys None)"
      using dist(3) Some
      by (intro seg_frame) (auto simp: nx' pv' na pa dest!: first_ref_in split: option.split)
    ultimately show ?thesis by simp
  qed
  moreover have "seg nx' pv' (last_ref None xs) ys None"
  proof (cases ys)
    case (Cons y ys')
    have "seg nx (pv(y := last_ref None xs)) (last_ref None xs) ys None"
      using seg_redirect_start sy dist(2) Cons by (metis distinct.simps(2))
    moreover have "seg nx' pv' (last_ref None xs) ys None =
        seg nx (pv(y := last_ref None xs)) (last_ref None xs) ys None"
      using dist(3) Cons
      by (intro seg_frame) (auto simp: nx' pv' na pa dest!: last_ref_in split: option.split)
    ultimately show ?thesis by simp
  qed simp
  ultimately show "dlist nx' pv' (if pv a = None then nx a else h) (xs @ ys)"
    using d pa na by (cases xs) (auto simp: dlist_def last_ref_def)
qed

lemma walk_seg:
  assumes "seg nx pv p (c # xs) None"
  shows "walk nx go c = Some (last (c # takeWhile go xs))"
  using assms
proof (induction xs arbitrary: c p)
  case Nil
  then show ?case by (simp add: walk.simps)
next
  case (Cons x xs)
  then have "nx c = Some x" and IH: "walk nx go x = Some (last (x # takeWhile go xs))"
    by auto
  then show ?case by (simp add: walk.simps [of nx go c])
qed

lemma scan_seg:
  assumes "seg nx pv p xs None"
  shows "scan nx f acc (first_ref xs None) = Some (sfold f xs acc)"
  using assms
proof (induction xs arbitrary: acc p)
  case Nil
  then show ?case by (simp add: scan.simps)
next
  case (Cons x xs)
  then show ?case by (auto simp: scan.simps [of nx f acc "Some x"] split: prod.split)
qed

lemma sfold_no_stop:
  assumes "\<And>x a. x \<in> set xs \<Longrightarrow> f x a = (g x a, False)"
  shows "sfold f xs a = fold g xs a"
  using assms by (induction xs arbitrary: a) auto

lemma dlist_head: "dlist nx pv h xs \<Longrightarrow> h = first_ref xs None"
  by (simp add: dlist_def)

lemma dlist_Nil [simp]: "dlist nx pv h [] \<longleftrightarrow> h = None"
  by (simp add: dlist_def)

lemma dlist_frame:
  assumes "dlist nx pv h xs"
    and "\<And>x. x \<in> set xs \<Longrightarrow> nx' x = nx x" and "\<And>x. x \<in> set xs \<Longrightarrow> pv' x = pv x"
  shows "dlist nx' pv' h xs"
  using assms seg_frame [of xs nx' nx pv' pv] by (simp add: dlist_def)

lemma seg_unique:
  assumes "seg nx pv p xs None" and "seg nx pv p ys None"
    and "first_ref xs None = first_ref ys None"
  shows "xs = ys"
  using assms
proof (induction xs arbitrary: ys p)
  case Nil
  then show ?case by (cases ys) auto
next
  case (Cons x xs)
  then show ?case by (cases ys) auto
qed

lemma dlist_unique: "dlist nx pv h xs \<Longrightarrow> dlist nx pv h ys \<Longrightarrow> xs = ys"
  by (metis dlist_def seg_unique)

section \<open>The interface of a linked node type\<close>

locale linked_nodes =
  fixes nx :: "'n \<Rightarrow> 'r option"
    and pv :: "'n \<Rightarrow> 'r option"
    and nx_update :: "('r option \<Rightarrow> 'r option) \<Rightarrow> 'n \<Rightarrow> 'n"
    and pv_update :: "('r option \<Rightarrow> 'r option) \<Rightarrow> 'n \<Rightarrow> 'n"
  assumes nx_nx [simp]: "nx (nx_update f n) = f (nx n)"
    and pv_nx [simp]: "pv (nx_update f n) = pv n"
    and nx_pv [simp]: "nx (pv_update f n) = nx n"
    and pv_pv [simp]: "pv (pv_update f n) = f (pv n)"
begin

definition nexts :: "('r \<Rightarrow> 'n) \<Rightarrow> 'r \<Rightarrow> 'r option" where
  "nexts s = (\<lambda>r. nx (s r))"

definition prevs :: "('r \<Rightarrow> 'n) \<Rightarrow> 'r \<Rightarrow> 'r option" where
  "prevs s = (\<lambda>r. pv (s r))"

definition chain :: "('r \<Rightarrow> 'n) \<Rightarrow> 'r option \<Rightarrow> 'r list \<Rightarrow> bool" where
  "chain s h xs \<longleftrightarrow> dlist (nexts s) (prevs s) h xs"

lemma nexts_app: "nexts s r = nx (s r)"
  by (simp add: nexts_def)

lemma prevs_app: "prevs s r = pv (s r)"
  by (simp add: prevs_def)

lemma nexts_upd [simp]:
  "nexts (upd s r (nx_update f)) = (nexts s)(r := f (nx (s r)))"
  "nexts (upd s r (pv_update f)) = nexts s"
  by (auto simp: nexts_def upd_def)

lemma prevs_upd [simp]:
  "prevs (upd s r (pv_update f)) = (prevs s)(r := f (pv (s r)))"
  "prevs (upd s r (nx_update f)) = prevs s"
  by (auto simp: prevs_def upd_def)

lemma chain_frame:
  assumes "chain s h xs"
    and "\<And>x. x \<in> set xs \<Longrightarrow> nx (s' x) = nx (s x) \<and> pv (s' x) = pv (s x)"
  shows "chain s' h xs"
  using dlist_frame [of "nexts s" "prevs s" h xs "nexts s'" "prevs s'"] assms
  by (simp add: chain_def nexts_app prevs_app)

lemma chain_distinct: "chain s h xs \<Longrightarrow> distinct xs"
  by (simp add: chain_def dlist_def)

lemma chain_Nil [simp]: "chain s h [] \<longleftrightarrow> h = None"
  by (simp add: chain_def)

lemma chain_head: "chain s h xs \<Longrightarrow> h = first_ref xs None"
  by (simp add: chain_def dlist_head)

lemma chain_unique: "chain s h xs \<Longrightarrow> chain s h ys \<Longrightarrow> xs = ys"
  unfolding chain_def by (rule dlist_unique)

lemma chain_neighbours:
  assumes "chain s h (xs @ a # ys)"
  shows "nx (s a) = first_ref ys None" and "pv (s a) = last_ref None xs"
  using assms by (auto simp: chain_def dlist_def nexts_app prevs_app)

text \<open>Unlinking a node: the neighbours are joined and the head moves when the node was first.\<close>

lemma chain_unlink:
  assumes c: "chain s h (xs @ a # ys)"
    and nx': "\<And>r. r \<noteq> a \<Longrightarrow> nx (s' r) = (if pv (s a) = Some r then nx (s a) else nx (s r))"
    and pv': "\<And>r. r \<noteq> a \<Longrightarrow> pv (s' r) = (if nx (s a) = Some r then pv (s a) else pv (s r))"
  shows "chain s' (if pv (s a) = None then nx (s a) else h) (xs @ ys)"
proof -
  define n' where "n' = (case prevs s a of None \<Rightarrow> nexts s | Some l \<Rightarrow> (nexts s)(l := nexts s a))"
  define p' where "p' = (case nexts s a of None \<Rightarrow> prevs s | Some f \<Rightarrow> (prevs s)(f := prevs s a))"
  from c have "dlist (nexts s) (prevs s) h (xs @ a # ys)" by (simp add: chain_def)
  from dlist_remove(1) [OF this n'_def p'_def]
  have d: "dlist n' p' (if pv (s a) = None then nx (s a) else h) (xs @ ys)"
    by (simp only: nexts_app prevs_app)
  show ?thesis unfolding chain_def
  proof (rule dlist_frame [OF d])
    fix x assume "x \<in> set (xs @ ys)"
    then have "x \<noteq> a" using chain_distinct [OF c] by auto
    then show "nexts s' x = n' x" "prevs s' x = p' x"
      using nx' [of x] pv' [of x]
      by (auto simp: nexts_app prevs_app n'_def p'_def split: option.split)
  qed
qed

text \<open>Linking a fresh node between two neighbours.\<close>

lemma chain_link:
  assumes c: "chain s h (xs @ ys)" and a: "a \<notin> set (xs @ ys)"
    and nx': "\<And>r. r \<in> set (xs @ ys) \<Longrightarrow>
      nx (s' r) = (if last_ref None xs = Some r then Some a else nx (s r))"
    and pv': "\<And>r. r \<in> set (xs @ ys) \<Longrightarrow>
      pv (s' r) = (if first_ref ys None = Some r then Some a else pv (s r))"
    and na: "nx (s' a) = first_ref ys None" and pa: "pv (s' a) = last_ref None xs"
  shows "chain s' (if xs = [] then Some a else h) (xs @ a # ys)"
proof -
  define n' where "n' = (case last_ref None xs of None \<Rightarrow> nexts s
    | Some l \<Rightarrow> (nexts s)(l := Some a))(a := first_ref ys None)"
  define p' where "p' = (case first_ref ys None of None \<Rightarrow> prevs s
    | Some f \<Rightarrow> (prevs s)(f := Some a))(a := last_ref None xs)"
  from c have "dlist (nexts s) (prevs s) h (xs @ ys)" by (simp add: chain_def)
  from dlist_insert [OF this a n'_def p'_def]
  have d: "dlist n' p' (if xs = [] then Some a else h) (xs @ a # ys)" .
  show ?thesis unfolding chain_def
  proof (rule dlist_frame [OF d])
    fix x assume "x \<in> set (xs @ a # ys)"
    then consider "x = a" | "x \<noteq> a" "x \<in> set (xs @ ys)" by auto
    then have "nexts s' x = n' x \<and> prevs s' x = p' x"
    proof cases
      case 1
      then show ?thesis
        by (simp add: nexts_app prevs_app n'_def p'_def na pa)
    next
      case 2
      then show ?thesis
        using nx' [of x] pv' [of x]
        by (auto simp: nexts_app prevs_app n'_def p'_def split: option.split)
    qed
    then show "nexts s' x = n' x" "prevs s' x = p' x" by simp_all
  qed
qed

lemma chain_link_front:
  assumes "chain s h ys" and "a \<notin> set ys"
    and "\<And>r. r \<in> set ys \<Longrightarrow> nx (s' r) = nx (s r)"
    and "\<And>r. r \<in> set ys \<Longrightarrow> pv (s' r) = (if first_ref ys None = Some r then Some a else pv (s r))"
    and "nx (s' a) = first_ref ys None" and "pv (s' a) = None"
  shows "chain s' (Some a) (a # ys)"
proof -
  have "chain s' (if ([] :: 'r list) = [] then Some a else h) ([] @ a # ys)"
    by (rule chain_link [where s = s]) (use assms in auto)
  then show ?thesis by simp
qed

text \<open>The field writes of the kernel's list code: insertion behind a node or in front, and removal.\<close>

lemma chain_insert_after:
  assumes ch: "chain m h (pre @ c # post)" and b: "b \<notin> set (pre @ c # post)"
    and m': "m' = upd (upd_opt (upd (upd m b (nx_update (\<lambda>_. nx (m c)))) b (pv_update (\<lambda>_. Some c)))
      (nx (m c)) (pv_update (\<lambda>_. Some b))) c (nx_update (\<lambda>_. Some b))"
  shows "chain m' h (pre @ c # b # post)"
proof -
  have nc: "nx (m c) = first_ref post None" using chain_neighbours(1) [OF ch] .
  have d: "distinct (pre @ c # post)" using chain_distinct [OF ch] .
  have "chain m' (if pre @ [c] = [] then Some b else h) ((pre @ [c]) @ b # post)"
    by (rule chain_link [where s = m])
      (use ch b d in \<open>auto simp: m' nc upd_def upd_opt_def split: option.split dest!: first_ref_in\<close>)
  then show ?thesis by simp
qed

lemma chain_insert_front:
  assumes ch: "chain m h ys" and b: "b \<notin> set ys"
    and m': "m' = upd_opt (upd (upd m b (nx_update (\<lambda>_. h))) b (pv_update (\<lambda>_. None))) h (pv_update (\<lambda>_. Some b))"
  shows "chain m' (Some b) (b # ys)"
proof -
  have h: "h = first_ref ys None" using chain_head [OF ch] .
  show ?thesis
    by (rule chain_link_front [OF ch b])
      (use b in \<open>auto simp: m' h upd_def upd_opt_def split: option.split dest!: first_ref_in\<close>)
qed

lemma chain_delete:
  assumes ch: "chain m h (xs @ a # ys)"
    and m1: "m1 = upd_opt m (pv (m a)) (nx_update (\<lambda>_. nx (m a)))"
    and m2: "m2 = upd_opt m1 (nx (m1 a)) (pv_update (\<lambda>_. pv (m1 a)))"
    and m': "\<And>r. r \<noteq> a \<Longrightarrow> m' r = m2 r"
  shows "chain m' (if pv (m a) = None then nx (m a) else h) (xs @ ys)"
proof -
  have d: "distinct (xs @ a # ys)" using chain_distinct [OF ch] .
  have n: "nx (m a) = first_ref ys None" "pv (m a) = last_ref None xs" using chain_neighbours [OF ch] by simp_all
  then have "pv (m a) \<noteq> Some a" using d by (auto dest: last_ref_in)
  then have 1: "m1 a = m a" by (auto simp: m1 upd_opt_def upd_def split: option.split)
  show ?thesis
    by (rule chain_unlink [OF ch]) (use 1 in \<open>auto simp: m' m2 m1 upd_def upd_opt_def split: option.split\<close>)
qed

text \<open>The cursor loop stops at the last node of the prefix on which it may advance.\<close>

lemma chain_walk:
  assumes "chain s h (c # xs)"
  shows "walk (\<lambda>r. nx (s r)) go c = Some (last (c # takeWhile go xs))"
proof -
  from assms have "seg (nexts s) (prevs s) None (c # xs) None"
    by (simp add: chain_def dlist_def)
  then have "walk (nexts s) go c = Some (last (c # takeWhile go xs))"
    by (rule walk_seg)
  then show ?thesis by (simp add: nexts_def)
qed

text \<open>A scan of a list is the fold over its nodes.\<close>

lemma chain_scan:
  assumes "chain s h xs"
  shows "scan (\<lambda>r. nx (s r)) f acc h = Some (sfold f xs acc)"
proof -
  from assms have "seg (nexts s) (prevs s) None xs None" "h = first_ref xs None"
    by (simp_all add: chain_def dlist_def)
  then have "scan (nexts s) f acc h = Some (sfold f xs acc)" using scan_seg by metis
  then show ?thesis by (simp add: nexts_def)
qed

end

end
