(* ===== verification/Heap.thy ===== *)
theory Heap
  imports Linked_List
begin

text \<open>
  The kernel heap of \<^verbatim>\<open>kernel/mm/heap.c\<close>: a first-fit allocator over a static 2 MiB
  pool.  The pool is tiled by blocks, each a 32-byte header followed by its payload,
  linked in address order.  The state holds the headers by address, the list head, the
  statistics, the spinlock word, the interrupt flag the lock saves and restores, and the
  count of lock acquisitions.

  The abstract view is an \<^emph>\<open>arena\<close>: the list of payload sizes with their free flags.
  \<open>kmalloc\<close> and \<open>kfree\<close> on the pointer structure are shown to implement
  \<open>arena_alloc\<close> and \<open>arena_free\<close> on it.
\<close>

section \<open>State\<close>

record heap_block =
  hb_size :: u64
  hb_magic :: u32
  hb_free :: bool
  hb_next :: "u64 option"
  hb_prev :: "u64 option"

record heap_stats =
  hst_total :: u64
  hst_used :: u64
  hst_free :: u64
  hst_allocs :: u32
  hst_frees :: u32
  hst_blocks :: u32

record heap_state =
  hp_mem :: "u64 \<Rightarrow> heap_block"
  hp_head :: "u64 option"
  hp_ready :: bool
  hp_stats :: heap_stats
  hp_lock :: bool
  hp_if :: bool
  hp_acquires :: u64

abbreviation HEAP_POOL_SIZE :: u64 where "HEAP_POOL_SIZE \<equiv> 2097152"
abbreviation HEAP_HDR :: u64 where "HEAP_HDR \<equiv> 32"
abbreviation HEAP_ALIGN :: u64 where "HEAP_ALIGN \<equiv> 16"
abbreviation HEAP_MAGIC_FREE :: u32 where "HEAP_MAGIC_FREE \<equiv> 0xCAFEF00D"
abbreviation HEAP_MAGIC_USED :: u32 where "HEAP_MAGIC_USED \<equiv> 0xDEADBEEF"

section \<open>Locking\<close>

text \<open>
  The test-and-set lock: \<^verbatim>\<open>spinlock_lock\<close> spins until the lock is free; on this single CPU a lock
  that is held is never released while it spins.  \<^verbatim>\<open>spinlock_irqsave\<close> saves the interrupt flag and
  masks interrupts first.
\<close>

definition spinlock_lock :: "heap_state \<Rightarrow> heap_state run" where
  "spinlock_lock h = (if hp_lock h then None else ret (h\<lparr>hp_lock := True\<rparr>))"

definition spinlock_unlock :: "heap_state \<Rightarrow> heap_state" where
  "spinlock_unlock h = h\<lparr>hp_lock := False\<rparr>"

definition spinlock_irqsave :: "heap_state \<Rightarrow> (bool \<times> heap_state) run" where
  "spinlock_irqsave h =
     (let flags = hp_if h; h1 = h\<lparr>hp_if := False\<rparr>
      in run_bind (spinlock_lock h1) (\<lambda>h2. ret (flags, h2)))"

definition spinlock_irqrestore :: "bool \<Rightarrow> heap_state \<Rightarrow> heap_state" where
  "spinlock_irqrestore flags h =
     (let h' = spinlock_unlock h in if flags then h'\<lparr>hp_if := True\<rparr> else h')"

section \<open>Operations\<close>

definition round_up :: "u64 \<Rightarrow> u64" where
  "round_up n = (n + HEAP_ALIGN - 1) AND NOT (HEAP_ALIGN - 1)"

definition set_blocks :: "(u32 \<Rightarrow> u32) \<Rightarrow> heap_state \<Rightarrow> heap_state" where
  "set_blocks f h = h\<lparr>hp_stats := (hp_stats h)\<lparr>hst_blocks := f (hst_blocks (hp_stats h))\<rparr>\<rparr>"

text \<open>The two halves of \<^verbatim>\<open>coalesce\<close>: merge with the next, then with the previous block.\<close>

definition coalesce_next :: "u64 \<Rightarrow> heap_state \<Rightarrow> heap_state" where
  "coalesce_next b h =
     (let m = hp_mem h in
      case hb_next (m b) of
        None \<Rightarrow> h
      | Some nx \<Rightarrow>
          if hb_free (m nx) then
            let m1 = upd m b (hb_size_update (\<lambda>s. s + (HEAP_HDR + hb_size (m nx))));
                m2 = upd m1 b (hb_next_update (\<lambda>_. hb_next (m nx)));
                m3 = upd_opt m2 (hb_next (m nx)) (hb_prev_update (\<lambda>_. Some b));
                m4 = upd m3 nx (hb_magic_update (\<lambda>_. 0))
            in set_blocks (\<lambda>k. k - 1) (h\<lparr>hp_mem := m4\<rparr>)
          else h)"

definition coalesce_prev :: "u64 \<Rightarrow> heap_state \<Rightarrow> heap_state" where
  "coalesce_prev b h =
     (let m = hp_mem h in
      case hb_prev (m b) of
        None \<Rightarrow> h
      | Some pv \<Rightarrow>
          if hb_free (m pv) then
            let m1 = upd m pv (hb_size_update (\<lambda>s. s + (HEAP_HDR + hb_size (m b))));
                m2 = upd m1 pv (hb_next_update (\<lambda>_. hb_next (m b)));
                m3 = upd_opt m2 (hb_next (m b)) (hb_prev_update (\<lambda>_. Some pv));
                m4 = upd m3 b (hb_magic_update (\<lambda>_. 0))
            in set_blocks (\<lambda>k. k - 1) (h\<lparr>hp_mem := m4\<rparr>)
          else h)"

definition coalesce :: "u64 \<Rightarrow> heap_state \<Rightarrow> heap_state" where
  "coalesce b h = coalesce_prev b (coalesce_next b h)"

text \<open>\<^verbatim>\<open>heap_init\<close>; \<open>pool\<close> is the address of the static array \<^verbatim>\<open>heap_pool\<close>.\<close>

definition heap_init :: "u64 \<Rightarrow> heap_state \<Rightarrow> aios_status \<times> heap_state" where
  "heap_init pool h =
     (AIOS_OK,
      h\<lparr>hp_head := Some pool,
        hp_mem := (hp_mem h)(pool := \<lparr>hb_size = HEAP_POOL_SIZE - HEAP_HDR,
                      hb_magic = HEAP_MAGIC_FREE, hb_free = True,
                      hb_next = None, hb_prev = None\<rparr>),
        hp_stats := \<lparr>hst_total = HEAP_POOL_SIZE - HEAP_HDR, hst_used = 0,
                      hst_free = HEAP_POOL_SIZE - HEAP_HDR,
                      hst_allocs = 0, hst_frees = 0, hst_blocks = 1\<rparr>,
        hp_ready := True\<rparr>)"

text \<open>The first-fit search loop of \<^verbatim>\<open>kmalloc\<close>, with its corruption check.\<close>

partial_function (option) first_fit ::
  "(u64 \<Rightarrow> heap_block) \<Rightarrow> u64 \<Rightarrow> u64 option \<Rightarrow> (string + u64 option) option" where
  "first_fit m aligned cur =
     (case cur of
        None \<Rightarrow> ret None
      | Some c \<Rightarrow>
          if hb_magic (m c) \<noteq> HEAP_MAGIC_FREE \<and> hb_magic (m c) \<noteq> HEAP_MAGIC_USED
          then panic ''kmalloc: heap corruption detected''
          else if hb_free (m c) \<and> aligned \<le> hb_size (m c) then ret (Some c)
          else first_fit m aligned (hb_next (m c)))"

definition split_block :: "u64 \<Rightarrow> u64 \<Rightarrow> heap_state \<Rightarrow> heap_state" where
  "split_block c aligned h =
     (let m = hp_mem h; remainder = hb_size (m c) - aligned in
      if HEAP_HDR + HEAP_ALIGN < remainder then
        let sp = c + HEAP_HDR + aligned;
            m1 = m(sp := \<lparr>hb_size = remainder - HEAP_HDR, hb_magic = HEAP_MAGIC_FREE,
                          hb_free = True, hb_next = hb_next (m c), hb_prev = Some c\<rparr>);
            m2 = upd_opt m1 (hb_next (m1 c)) (hb_prev_update (\<lambda>_. Some sp));
            m3 = upd m2 c (hb_next_update (\<lambda>_. Some sp));
            m4 = upd m3 c (hb_size_update (\<lambda>_. aligned))
        in set_blocks (\<lambda>k. k + 1) (h\<lparr>hp_mem := m4\<rparr>)
      else h)"

definition take_block :: "u64 \<Rightarrow> heap_state \<Rightarrow> heap_state" where
  "take_block c h =
     (let m = upd (upd (hp_mem h) c (hb_magic_update (\<lambda>_. HEAP_MAGIC_USED)))
                c (hb_free_update (\<lambda>_. False));
          st = hp_stats h
      in h\<lparr>hp_mem := m,
           hp_stats := st\<lparr>hst_used := hst_used st + hb_size (m c),
                          hst_free := hst_free st - hb_size (m c),
                          hst_allocs := hst_allocs st + 1\<rparr>\<rparr>)"

definition kmalloc :: "u64 \<Rightarrow> heap_state \<Rightarrow> (u64 option \<times> heap_state) run" where
  "kmalloc sz h =
     (if \<not> hp_ready h \<or> sz = 0 then ret (None, h)
      else
        let aligned = round_up sz in
        run_bind (spinlock_irqsave h) (\<lambda>(flags, h1).
          let h2 = h1\<lparr>hp_acquires := hp_acquires h1 + 1\<rparr> in
          run_bind (first_fit (hp_mem h2) aligned (hp_head h2)) (\<lambda>cur.
            case cur of
              None \<Rightarrow> ret (None, spinlock_irqrestore flags h2)
            | Some c \<Rightarrow>
                ret (Some (c + HEAP_HDR),
                     spinlock_irqrestore flags (take_block c (split_block c aligned h2))))))"

definition release_block :: "u64 \<Rightarrow> heap_state \<Rightarrow> heap_state" where
  "release_block b h =
     (let st = hp_stats h; m = hp_mem h;
          m1 = upd (upd m b (hb_magic_update (\<lambda>_. HEAP_MAGIC_FREE)))
                 b (hb_free_update (\<lambda>_. True))
      in h\<lparr>hp_stats := st\<lparr>hst_used := hst_used st - hb_size (m b),
                           hst_free := hst_free st + hb_size (m b),
                           hst_frees := hst_frees st + 1\<rparr>,
           hp_mem := m1\<rparr>)"

definition kfree :: "u64 option \<Rightarrow> heap_state \<Rightarrow> heap_state run" where
  "kfree ptr h =
     (case ptr of
        None \<Rightarrow> ret h
      | Some p \<Rightarrow>
          if \<not> hp_ready h then ret h
          else
            let b = p - HEAP_HDR in
            run_bind (spinlock_irqsave h) (\<lambda>(flags, h1).
              let h2 = h1\<lparr>hp_acquires := hp_acquires h1 + 1\<rparr> in
              if hb_magic (hp_mem h2 b) \<noteq> HEAP_MAGIC_USED
              then panic ''kfree: double-free or heap corruption''
              else if hb_free (hp_mem h2 b)
              then panic ''kfree: block already marked free''
              else ret (spinlock_irqrestore flags (coalesce b (release_block b h2)))))"

text \<open>\<^verbatim>\<open>heap_get_stats\<close>; \<open>out\<close> says whether the caller passed a destination.\<close>

definition heap_get_stats :: "bool \<Rightarrow> heap_state \<Rightarrow> (heap_stats option \<times> heap_state) run" where
  "heap_get_stats out h =
     (if \<not> out then ret (None, h)
      else run_bind (spinlock_irqsave h) (\<lambda>(flags, h1).
             ret (Some (hp_stats h1), spinlock_irqrestore flags h1)))"

definition heap_lock_acquire_count :: "heap_state \<Rightarrow> u64" where
  "heap_lock_acquire_count h = hp_acquires h"

definition heap_lock_selftest :: "heap_state \<Rightarrow> (aios_status \<times> heap_state) run" where
  "heap_lock_selftest h =
     (if hp_lock h then ret (AIOS_ERR_BUSY, h)
      else
        let before = hp_acquires h in
        run_bind (kmalloc 64 h) (\<lambda>(a, h1).
        run_bind (kmalloc 128 h1) (\<lambda>(b, h2).
          if a = None \<or> b = None then
            run_bind (kfree a h2) (\<lambda>h3. run_bind (kfree b h3) (\<lambda>h4. ret (AIOS_ERR_NOMEM, h4)))
          else
            run_bind (kfree a h2) (\<lambda>h3. run_bind (kfree b h3) (\<lambda>h4.
              if hp_acquires h4 \<noteq> before + 4 \<or> hp_lock h4 then ret (AIOS_ERR_IO, h4)
              else ret (AIOS_OK, h4))))))"

section \<open>The arena: what the allocator promises\<close>

type_synonym arena = "(nat \<times> bool) list"

fun arena_alloc :: "nat \<Rightarrow> arena \<Rightarrow> (nat \<times> arena) option" where
  "arena_alloc n [] = None"
| "arena_alloc n ((s, f) # bs) =
     (if f \<and> n \<le> s then
        Some (0, if 48 < s - n then (n, False) # (s - n - 32, True) # bs else (s, False) # bs)
      else map_option (\<lambda>(i, cs). (Suc i, (s, f) # cs)) (arena_alloc n bs))"

fun merge_next :: "nat \<Rightarrow> arena \<Rightarrow> nat \<times> arena" where
  "merge_next s ((t, True) # bs) = (s + (32 + t), bs)"
| "merge_next s bs = (s, bs)"

definition arena_free :: "arena \<Rightarrow> nat \<Rightarrow> arena \<Rightarrow> arena" where
  "arena_free pre s post =
     (let (s', post') = merge_next s post in
      if pre \<noteq> [] \<and> snd (last pre)
      then butlast pre @ (fst (last pre) + (32 + s'), True) # post'
      else pre @ (s', True) # post')"

interpretation hb: linked_nodes hb_next hb_prev hb_next_update hb_prev_update
  by unfold_locales simp_all

fun tiles :: "(u64 \<Rightarrow> heap_block) \<Rightarrow> nat \<Rightarrow> u64 list \<Rightarrow> nat \<Rightarrow> bool" where
  "tiles m a [] e = (a = e)"
| "tiles m a (x # xs) e = (unat x = a \<and> tiles m (a + 32 + unat (hb_size (m x))) xs e)"

definition block_ok :: "heap_block \<Rightarrow> bool" where
  "block_ok b \<longleftrightarrow> hb_magic b = (if hb_free b then HEAP_MAGIC_FREE else HEAP_MAGIC_USED)
     \<and> 16 dvd unat (hb_size b)"

definition arena_of :: "(u64 \<Rightarrow> heap_block) \<Rightarrow> u64 list \<Rightarrow> arena" where
  "arena_of m xs = map (\<lambda>x. (unat (hb_size (m x)), hb_free (m x))) xs"

definition used_bytes :: "arena \<Rightarrow> nat" where
  "used_bytes bs = sum_list (map fst (filter (\<lambda>b. \<not> snd b) bs))"

definition coalesced :: "arena \<Rightarrow> bool" where
  "coalesced bs = successively (\<lambda>b c. \<not> (snd b \<and> snd c)) bs"

text \<open>
  The heap invariant for a pool at \<open>pool\<close> whose block chain is \<open>xs\<close>: the chain is well
  linked and tiles the pool, every header is intact, no two neighbours are both free, and
  the statistics agree with the chain.
\<close>

definition pool_ok :: "u64 \<Rightarrow> bool" where
  "pool_ok pool \<longleftrightarrow> pool \<noteq> 0 \<and> 16 dvd unat pool \<and> unat pool + 2097152 < 2 ^ 64"

definition chain_ok :: "u64 \<Rightarrow> heap_state \<Rightarrow> u64 list \<Rightarrow> bool" where
  "chain_ok pool h xs \<longleftrightarrow>
     pool_ok pool
   \<and> hb.chain (hp_mem h) (hp_head h) xs
   \<and> tiles (hp_mem h) (unat pool) xs (unat pool + 2097152)
   \<and> (\<forall>x \<in> set xs. block_ok (hp_mem h x))
   \<and> unat (hst_blocks (hp_stats h)) = length xs"

definition stats_ok :: "heap_state \<Rightarrow> arena \<Rightarrow> bool" where
  "stats_ok h bs \<longleftrightarrow>
     hst_total (hp_stats h) = HEAP_POOL_SIZE - HEAP_HDR
   \<and> unat (hst_used (hp_stats h)) = used_bytes bs
   \<and> hst_used (hp_stats h) + hst_free (hp_stats h) = hst_total (hp_stats h)"

definition heap_rep :: "u64 \<Rightarrow> heap_state \<Rightarrow> u64 list \<Rightarrow> bool" where
  "heap_rep pool h xs \<longleftrightarrow>
     hp_ready h \<and> \<not> hp_lock h \<and> chain_ok pool h xs
   \<and> stats_ok h (arena_of (hp_mem h) xs)
   \<and> coalesced (arena_of (hp_mem h) xs)"

section \<open>Runs of the allocator and the pointers they own\<close>

text \<open>A payload pointer is live when its block is in use.\<close>

definition live_ptrs :: "(u64 \<Rightarrow> heap_block) \<Rightarrow> u64 list \<Rightarrow> u64 set" where
  "live_ptrs m xs = (\<lambda>x. x + HEAP_HDR) ` {x \<in> set xs. \<not> hb_free (m x)}"

definition payload :: "heap_state \<Rightarrow> u64 \<Rightarrow> nat" where
  "payload h p = unat (hb_size (hp_mem h (p - HEAP_HDR)))"

text \<open>
  A run: initialise the heap, then any sequence of \<open>kmalloc\<close> calls and of \<open>kfree\<close> calls on
  pointers that are live.  \<open>L\<close> collects the pointers handed out and not yet returned.
\<close>

inductive heap_run :: "u64 \<Rightarrow> heap_state \<Rightarrow> u64 set \<Rightarrow> bool" for pool where
  init: "\<not> hp_lock h \<Longrightarrow> heap_run pool (snd (heap_init pool h)) {}"
| alloc: "heap_run pool h L \<Longrightarrow> kmalloc sz h = ret (Some p, h') \<Longrightarrow> heap_run pool h' (insert p L)"
| alloc_null: "heap_run pool h L \<Longrightarrow> kmalloc sz h = ret (None, h') \<Longrightarrow> heap_run pool h' L"
| free: "heap_run pool h L \<Longrightarrow> p \<in> L \<Longrightarrow> kfree (Some p) h = ret h' \<Longrightarrow> heap_run pool h' (L - {p})"
| free_null: "heap_run pool h L \<Longrightarrow> kfree None h = ret h' \<Longrightarrow> heap_run pool h' L"

text \<open>The state of the allocator's static variables at boot.\<close>

definition heap_boot :: heap_state where
  "heap_boot = \<lparr>hp_mem = (\<lambda>_. \<lparr>hb_size = 0, hb_magic = 0, hb_free = False,
                                hb_next = None, hb_prev = None\<rparr>),
     hp_head = None, hp_ready = False,
     hp_stats = \<lparr>hst_total = 0, hst_used = 0, hst_free = 0,
                 hst_allocs = 0, hst_frees = 0, hst_blocks = 0\<rparr>,
     hp_lock = False, hp_if = False, hp_acquires = 0\<rparr>"

section \<open>Notions the proofs use\<close>

text \<open>Sizes of chains and arenas, headers included, and the addresses of used blocks.\<close>

definition span :: "(u64 \<Rightarrow> heap_block) \<Rightarrow> u64 list \<Rightarrow> nat" where
  "span m xs = sum_list (map (\<lambda>x. 32 + unat (hb_size (m x))) xs)"

definition arena_span :: "arena \<Rightarrow> nat" where
  "arena_span bs = sum_list (map (\<lambda>b. 32 + fst b) bs)"

fun used_at :: "nat \<Rightarrow> arena \<Rightarrow> nat set" where
  "used_at a [] = {}"
| "used_at a ((s, f) # bs) = (if f then {} else {a}) \<union> used_at (a + 32 + s) bs"

definition free_bytes :: "arena \<Rightarrow> nat" where
  "free_bytes bs = sum_list (map fst (filter snd bs))"

definition heap_core :: "u64 \<Rightarrow> heap_state \<Rightarrow> u64 list \<Rightarrow> bool" where
  "heap_core pool h xs \<longleftrightarrow> chain_ok pool h xs
   \<and> stats_ok h (arena_of (hp_mem h) xs) \<and> coalesced (arena_of (hp_mem h) xs)"

text \<open>The chain and the arena after a block has been split.\<close>

definition split_chain :: "(u64 \<Rightarrow> heap_block) \<Rightarrow> u64 list \<Rightarrow> u64 \<Rightarrow> u64 \<Rightarrow> u64 list \<Rightarrow> u64 list" where
  "split_chain m pre c n post =
     (if 48 < unat (hb_size (m c)) - unat n then pre @ c # (c + HEAP_HDR + n) # post
      else pre @ c # post)"

definition split_arena :: "nat \<Rightarrow> nat \<Rightarrow> bool \<Rightarrow> arena \<Rightarrow> arena" where
  "split_arena s n f bs = (if 48 < s - n then (n, f) # (s - n - 32, True) # bs else (s, f) # bs)"

text \<open>Both halves of \<open>coalesce\<close> let a block absorb its successor.\<close>

definition absorb :: "u64 \<Rightarrow> u64 \<Rightarrow> heap_state \<Rightarrow> heap_state" where
  "absorb x y h =
     (let m = hp_mem h;
          m1 = upd m x (hb_size_update (\<lambda>s. s + (HEAP_HDR + hb_size (m y))));
          m2 = upd m1 x (hb_next_update (\<lambda>_. hb_next (m y)));
          m3 = upd_opt m2 (hb_next (m y)) (hb_prev_update (\<lambda>_. Some x));
          m4 = upd m3 y (hb_magic_update (\<lambda>_. 0))
      in set_blocks (\<lambda>k. k - 1) (h\<lparr>hp_mem := m4\<rparr>))"

text \<open>A freshly initialised heap, and the heap after one allocation from it.\<close>

definition heap_w0 :: heap_state where
  "heap_w0 = snd (heap_init 0x200000 heap_boot)"

definition heap_w1 :: heap_state where
  "heap_w1 = snd (run_value (None, heap_w0) (kmalloc 64 heap_w0))"

end
