(* ===== verification/Heap_Correct.thy ===== *)
theory Heap_Correct
  imports Heap
begin

text \<open>
  Correctness of the kernel heap.  The lemmas follow the code: the search loop, the split,
  the merge with either neighbour, then \<open>kmalloc\<close> and \<open>kfree\<close> as refinements of
  \<open>arena_alloc\<close> and \<open>arena_free\<close>.  The properties at the end are stated over the
  states that runs of the allocator reach.
\<close>

section \<open>The lock\<close>

lemma spinlock_irqsave_eq:
  "spinlock_irqsave h = (if hp_lock h then None else ret (hp_if h, h\<lparr>hp_if := False, hp_lock := True\<rparr>))"
  by (simp add: spinlock_irqsave_def spinlock_lock_def Let_def)

section \<open>Tilings\<close>

lemma span_simps [simp]:
  "span m [] = 0" "span m (x # xs) = 32 + unat (hb_size (m x)) + span m xs"
  "span m (xs @ ys) = span m xs + span m ys"
  by (simp_all add: span_def)

lemma span_cong:
  "(\<And>x. x \<in> set xs \<Longrightarrow> hb_size (m' x) = hb_size (m x)) \<Longrightarrow> span m' xs = span m xs"
  by (induction xs) auto

lemma tiles_cong:
  "(\<And>x. x \<in> set xs \<Longrightarrow> hb_size (m' x) = hb_size (m x)) \<Longrightarrow> tiles m' a xs e = tiles m a xs e"
  by (induction xs arbitrary: a) auto

lemma tiles_append [simp]:
  "tiles m a (xs @ ys) e \<longleftrightarrow> tiles m a xs (a + span m xs) \<and> tiles m (a + span m xs) ys e"
  by (induction xs arbitrary: a) (auto simp: add.assoc)

lemma tiles_end: "tiles m a xs e \<Longrightarrow> e = a + span m xs"
proof (induction xs arbitrary: a)
  case (Cons x xs)
  then have "e = a + 32 + unat (hb_size (m x)) + span m xs" by simp
  then show ?case by simp
qed simp

lemma tiles_bounds:
  "tiles m a xs e \<Longrightarrow> x \<in> set xs \<Longrightarrow> a \<le> unat x \<and> unat x + 32 + unat (hb_size (m x)) \<le> e"
proof (induction xs arbitrary: a)
  case (Cons z zs)
  have "e = a + span m (z # zs)" using tiles_end [OF Cons.prems(1)] .
  moreover have "x \<noteq> z \<Longrightarrow> a + 32 + unat (hb_size (m z)) \<le> unat x
      \<and> unat x + 32 + unat (hb_size (m x)) \<le> e"
    using Cons.IH [of "a + 32 + unat (hb_size (m z))"] Cons.prems by auto
  ultimately show ?case using Cons.prems by (cases "x = z") auto
qed simp

lemma tiles_disjoint:
  assumes "tiles m a xs e" and "x \<in> set xs" and "y \<in> set xs" and "x \<noteq> y"
  shows "unat x + 32 + unat (hb_size (m x)) \<le> unat y
       \<or> unat y + 32 + unat (hb_size (m y)) \<le> unat x"
  using assms
proof (induction xs arbitrary: a)
  case (Cons z zs)
  then have rest: "tiles m (unat z + 32 + unat (hb_size (m z))) zs e" by simp
  show ?case
  proof (cases "x \<in> set zs \<and> y \<in> set zs")
    case True
    with Cons rest show ?thesis by blast
  next
    case False
    with Cons.prems consider "x = z" "y \<in> set zs" | "y = z" "x \<in> set zs" by auto
    then show ?thesis using tiles_bounds [OF rest] by cases auto
  qed
qed simp

lemma tiles_aligned:
  assumes "tiles m a xs e" and "\<forall>x \<in> set xs. block_ok (m x)" and "16 dvd a" and "x \<in> set xs"
  shows "16 dvd unat x"
  using assms
proof (induction xs arbitrary: a)
  case (Cons z zs)
  have "16 dvd a + 32 + unat (hb_size (m z))"
    using Cons.prems by (auto simp: block_ok_def)
  with Cons show ?case by auto
qed simp

section \<open>Search\<close>

lemma magic_distinct: "HEAP_MAGIC_FREE \<noteq> HEAP_MAGIC_USED" "HEAP_MAGIC_USED \<noteq> HEAP_MAGIC_FREE"
  "(0 :: u32) \<noteq> HEAP_MAGIC_USED"
  by simp_all

lemma first_fit_seg:
  assumes "seg (hb.nexts m) (hb.prevs m) p xs None" and "\<forall>x \<in> set xs. block_ok (m x)"
  shows "first_fit m n (first_ref xs None)
       = ret (find (\<lambda>x. hb_free (m x) \<and> n \<le> hb_size (m x)) xs)"
  using assms
proof (induction xs arbitrary: p)
  case Nil
  then show ?case by (simp add: first_fit.simps)
next
  case (Cons x xs)
  then show ?case
    by (auto simp: first_fit.simps [of m n "Some x"] block_ok_def hb.nexts_app)
qed

lemma first_fit_chain:
  assumes "hb.chain m h xs" and "\<forall>x \<in> set xs. block_ok (m x)"
  shows "first_fit m n h = ret (find (\<lambda>x. hb_free (m x) \<and> n \<le> hb_size (m x)) xs)"
  using first_fit_seg [of m None xs n] assms by (simp add: hb.chain_def dlist_def)

lemma find_arena_None:
  "find (\<lambda>x. hb_free (m x) \<and> n \<le> hb_size (m x)) xs = None \<longleftrightarrow>
   arena_alloc (unat n) (arena_of m xs) = None"
  by (induction xs) (auto simp: arena_of_def word_le_nat_alt)

lemma find_split:
  assumes "find P xs = Some c"
  shows "\<exists>pre post. xs = pre @ c # post \<and> P c \<and> (\<forall>x \<in> set pre. \<not> P x)"
  using assms
proof (induction xs)
  case (Cons x xs)
  show ?case
  proof (cases "P x")
    case True
    with Cons.prems show ?thesis by (intro exI [of _ "[]"] exI [of _ xs]) simp
  next
    case False
    with Cons obtain pre post where "xs = pre @ c # post" "P c" "\<forall>x \<in> set pre. \<not> P x" by auto
    with False show ?thesis by (intro exI [of _ "x # pre"] exI [of _ post]) simp
  qed
qed simp

lemma arena_alloc_skip:
  assumes "\<forall>b \<in> set bs. \<not> (snd b \<and> n \<le> fst b)"
  shows "arena_alloc n (bs @ cs) = map_option (\<lambda>(i, ds). (length bs + i, bs @ ds)) (arena_alloc n cs)"
  using assms
  by (induction bs) (auto simp: option.map_comp o_def split_def option.map_ident)

section \<open>Allocation\<close>

lemma heap_rep_core: "heap_rep pool h xs \<longleftrightarrow> hp_ready h \<and> \<not> hp_lock h \<and> heap_core pool h xs"
  by (auto simp: heap_rep_def heap_core_def)

lemma heap_core_lock [simp]:
  "heap_core pool (h\<lparr>hp_lock := l\<rparr>) xs = heap_core pool h xs"
  "heap_core pool (h\<lparr>hp_if := i\<rparr>) xs = heap_core pool h xs"
  "heap_core pool (h\<lparr>hp_acquires := k\<rparr>) xs = heap_core pool h xs"
  by (simp_all add: heap_core_def chain_ok_def stats_ok_def)

lemma arena_of_simps [simp]:
  "arena_of m [] = []"
  "arena_of m (x # xs) = (unat (hb_size (m x)), hb_free (m x)) # arena_of m xs"
  "arena_of m (xs @ ys) = arena_of m xs @ arena_of m ys"
  by (simp_all add: arena_of_def)

lemma length_arena_of [simp]: "length (arena_of m xs) = length xs"
  by (simp add: arena_of_def)

lemma arena_of_cong:
  "(\<And>x. x \<in> set xs \<Longrightarrow> hb_size (m' x) = hb_size (m x) \<and> hb_free (m' x) = hb_free (m x))
   \<Longrightarrow> arena_of m' xs = arena_of m xs"
  by (simp add: arena_of_def)

lemma used_bytes_simps [simp]:
  "used_bytes [] = 0" "used_bytes (b # bs) = (if snd b then 0 else fst b) + used_bytes bs"
  "used_bytes (bs @ cs) = used_bytes bs + used_bytes cs"
  by (simp_all add: used_bytes_def)

lemma used_bytes_span: "used_bytes (arena_of m xs) \<le> span m xs"
  by (induction xs) auto

lemma length_span: "32 * length xs \<le> span m xs"
  by (induction xs) auto

lemma chain_ok_facts:
  assumes "chain_ok pool h xs"
  shows "span (hp_mem h) xs = 2097152" and "length xs \<le> 65536"
    and "x \<in> set xs \<Longrightarrow> unat x + 32 + unat (hb_size (hp_mem h x)) \<le> unat pool + 2097152"
    and "x \<in> set xs \<Longrightarrow> unat pool \<le> unat x"
    and "x \<in> set xs \<Longrightarrow> 16 dvd unat x"
    and "unat pool + 2097152 < 2 ^ 64" and "distinct xs"
proof -
  from assms have t: "tiles (hp_mem h) (unat pool) xs (unat pool + 2097152)"
    and ok: "\<forall>x \<in> set xs. block_ok (hp_mem h x)" and p: "pool_ok pool"
    and c: "hb.chain (hp_mem h) (hp_head h) xs"
    by (simp_all add: chain_ok_def)
  show s: "span (hp_mem h) xs = 2097152" using tiles_end [OF t] by simp
  show "length xs \<le> 65536" using length_span [of xs "hp_mem h"] s by simp
  show "x \<in> set xs \<Longrightarrow> unat x + 32 + unat (hb_size (hp_mem h x)) \<le> unat pool + 2097152"
    and "x \<in> set xs \<Longrightarrow> unat pool \<le> unat x"
    using tiles_bounds [OF t] by blast+
  show "x \<in> set xs \<Longrightarrow> 16 dvd unat x"
    using tiles_aligned [OF t ok] p by (simp add: pool_ok_def)
  show "unat pool + 2097152 < 2 ^ 64" using p by (simp add: pool_ok_def)
  show "distinct xs" using c by (rule hb.chain_distinct)
qed

lemma stats_add_used:
  assumes "unat (u :: u64) + unat (s :: u64) \<le> 2097152" and "u + f = t"
  shows "unat (u + s) = unat u + unat s" and "(u + s) + (f - s) = t"
  using assms by (simp_all add: unat_add_no_wrap)

lemma take_block_core:
  assumes ch: "chain_ok pool h (pre @ c # post)"
    and st: "stats_ok h (arena_of (hp_mem h) (pre @ c # post))" and free: "hb_free (hp_mem h c)"
  shows "chain_ok pool (take_block c h) (pre @ c # post)"
    and "stats_ok (take_block c h) (arena_of (hp_mem (take_block c h)) (pre @ c # post))"
    and "arena_of (hp_mem (take_block c h)) (pre @ c # post) =
         arena_of (hp_mem h) pre @ (unat (hb_size (hp_mem h c)), False) # arena_of (hp_mem h) post"
proof -
  let ?m = "hp_mem h" and ?m' = "hp_mem (take_block c h)"
  have nc: "c \<notin> set pre" "c \<notin> set post" using chain_ok_facts(7) [OF ch] by auto
  have m': "?m' x = (if x = c then (?m c)\<lparr>hb_magic := HEAP_MAGIC_USED, hb_free := False\<rparr> else ?m x)" for x
    by (simp add: take_block_def upd_def Let_def)
  have size': "hb_size (?m' x) = hb_size (?m x)" for x by (simp add: m')
  have rest: "arena_of ?m' pre = arena_of ?m pre" "arena_of ?m' post = arena_of ?m post"
    using nc by (auto intro!: arena_of_cong simp: m' split: if_splits)
  then show ar: "arena_of ?m' (pre @ c # post) =
      arena_of ?m pre @ (unat (hb_size (?m c)), False) # arena_of ?m post"
    by (simp add: m')
  have "hb.chain ?m' (hp_head h) (pre @ c # post)"
    by (rule hb.chain_frame [where s = ?m]) (use ch in \<open>auto simp: chain_ok_def m'\<close>)
  moreover have "tiles ?m' (unat pool) (pre @ c # post) (unat pool + 2097152)"
    using ch tiles_cong [of "pre @ c # post" ?m' ?m] size' unfolding chain_ok_def by blast
  moreover have "block_ok (?m' x)" if "x \<in> set (pre @ c # post)" for x
    using ch that by (auto simp: m' block_ok_def chain_ok_def)
  ultimately show "chain_ok pool (take_block c h) (pre @ c # post)"
    using ch by (simp add: chain_ok_def take_block_def Let_def)
  have "used_bytes (arena_of ?m (pre @ c # post)) + unat (hb_size (?m c)) \<le> 2097152"
    using used_bytes_span [of ?m pre] used_bytes_span [of ?m post] chain_ok_facts(1) [OF ch] free
    by simp
  then have "unat (hst_used (hp_stats h)) + unat (hb_size (?m c)) \<le> 2097152"
    using st by (simp add: stats_ok_def)
  from stats_add_used [OF this] st free
  show "stats_ok (take_block c h) (arena_of ?m' (pre @ c # post))"
    unfolding ar by (simp add: stats_ok_def take_block_def Let_def upd_def)
qed

lemma unat_add3:
  fixes c n :: u64
  assumes "unat c + 32 + unat n < 2 ^ 64"
  shows "unat (c + HEAP_HDR + n) = unat c + 32 + unat n"
proof -
  have "unat (c + HEAP_HDR) = unat c + 32" using assms by (subst unat_add_no_wrap) auto
  then show ?thesis using assms by (subst unat_add_no_wrap) auto
qed

lemma split_fresh:
  assumes ch: "chain_ok pool h (pre @ c # post)" and n: "unat n < unat (hb_size (hp_mem h c))"
  shows "c + HEAP_HDR + n \<notin> set (pre @ c # post)"
    and "unat (c + HEAP_HDR + n) = unat c + 32 + unat n"
proof -
  have "unat c + 32 + unat (hb_size (hp_mem h c)) \<le> unat pool + 2097152"
    using chain_ok_facts(3) [OF ch, of c] by simp
  then show u: "unat (c + HEAP_HDR + n) = unat c + 32 + unat n"
    using n chain_ok_facts(6) [OF ch] by (intro unat_add3) linarith
  show "c + HEAP_HDR + n \<notin> set (pre @ c # post)"
  proof
    assume in_chain: "c + HEAP_HDR + n \<in> set (pre @ c # post)"
    have t: "tiles (hp_mem h) (unat pool) (pre @ c # post) (unat pool + 2097152)"
      using ch by (simp add: chain_ok_def)
    have "c + HEAP_HDR + n \<noteq> c" using u by (metis add_cancel_left_right add.assoc add_eq_0_iff_both_eq_0 zero_neq_numeral)
    with tiles_disjoint [OF t _ in_chain, of c] show False using u n by auto
  qed
qed

lemma split_test:
  assumes "n \<le> (s :: u64)"
  shows "48 < s - n \<longleftrightarrow> 48 < unat s - unat n"
  using assms by (simp add: word_less_nat_alt unat_sub)

lemma split_block_off:
  assumes "n \<le> hb_size (hp_mem h c)" and "\<not> 48 < unat (hb_size (hp_mem h c)) - unat n"
  shows "split_block c n h = h"
  using assms by (simp add: split_block_def split_test Let_def)

lemma split_block_mem:
  assumes ch: "chain_ok pool h (pre @ c # post)"
    and n: "n \<le> hb_size (hp_mem h c)" and big: "48 < unat (hb_size (hp_mem h c)) - unat n"
  shows "hp_mem (split_block c n h) x =
    (if x = c + HEAP_HDR + n
     then \<lparr>hb_size = hb_size (hp_mem h c) - n - HEAP_HDR, hb_magic = HEAP_MAGIC_FREE,
           hb_free = True, hb_next = hb_next (hp_mem h c), hb_prev = Some c\<rparr>
     else if x = c then (hp_mem h c)\<lparr>hb_next := Some (c + HEAP_HDR + n), hb_size := n\<rparr>
     else if hb_next (hp_mem h c) = Some x then (hp_mem h x)\<lparr>hb_prev := Some (c + HEAP_HDR + n)\<rparr>
     else hp_mem h x)"
proof -
  have lt: "unat n < unat (hb_size (hp_mem h c))" using big by simp
  note fresh = split_fresh(1) [OF ch lt]
  have cc: "hb.chain (hp_mem h) (hp_head h) (pre @ c # post)" and d: "distinct (pre @ c # post)"
    using ch chain_ok_facts(7) [OF ch] by (simp_all add: chain_ok_def)
  have nb: "hb_next (hp_mem h c) = first_ref post None"
    using hb.chain_neighbours [OF cc] by simp
  have "hb_next (hp_mem h c) \<noteq> Some c" "hb_next (hp_mem h c) \<noteq> Some (c + HEAP_HDR + n)"
      "c + HEAP_HDR + n \<noteq> c"
    using nb d fresh by (auto dest!: first_ref_in)
  then show ?thesis
    using big split_test [OF n]
    by (auto simp: split_block_def Let_def set_blocks_def upd_def upd_opt_def split: option.split)
qed

lemma split_block_fields [simp]:
  "hp_head (split_block c n h) = hp_head h" "hp_ready (split_block c n h) = hp_ready h"
  "hp_lock (split_block c n h) = hp_lock h" "hp_if (split_block c n h) = hp_if h"
  "hp_acquires (split_block c n h) = hp_acquires h"
  "hst_used (hp_stats (split_block c n h)) = hst_used (hp_stats h)"
  "hst_free (hp_stats (split_block c n h)) = hst_free (hp_stats h)"
  "hst_total (hp_stats (split_block c n h)) = hst_total (hp_stats h)"
  by (simp_all add: split_block_def Let_def set_blocks_def)

lemma split_block_frame:
  assumes "chain_ok pool h (pre @ c # post)"
    and "n \<le> hb_size (hp_mem h c)" and "48 < unat (hb_size (hp_mem h c)) - unat n"
    and "x \<in> set (pre @ post)"
  shows "hb_size (hp_mem (split_block c n h) x) = hb_size (hp_mem h x)"
    and "hb_free (hp_mem (split_block c n h) x) = hb_free (hp_mem h x)"
    and "hb_magic (hp_mem (split_block c n h) x) = hb_magic (hp_mem h x)"
proof -
  have "c + HEAP_HDR + n \<notin> set (pre @ c # post)"
    using split_fresh(1) [OF assms(1), of n] assms(3) by simp
  moreover have "x \<noteq> c" using assms(4) chain_ok_facts(7) [OF assms(1)] by auto
  ultimately show "hb_size (hp_mem (split_block c n h) x) = hb_size (hp_mem h x)"
    "hb_free (hp_mem (split_block c n h) x) = hb_free (hp_mem h x)"
    "hb_magic (hp_mem (split_block c n h) x) = hb_magic (hp_mem h x)"
    using assms(4) by (auto simp: split_block_mem [OF assms(1-3)])
qed

lemma split_block_chain:
  assumes ch: "chain_ok pool h (pre @ c # post)"
    and n: "n \<le> hb_size (hp_mem h c)" and big: "48 < unat (hb_size (hp_mem h c)) - unat n"
  shows "hb.chain (hp_mem (split_block c n h)) (hp_head h) (pre @ c # (c + HEAP_HDR + n) # post)"
proof -
  have fresh: "c + HEAP_HDR + n \<notin> set (pre @ c # post)" using split_fresh(1) [OF ch] big by simp
  have cc: "hb.chain (hp_mem h) (hp_head h) (pre @ c # post)" and d: "distinct (pre @ c # post)"
    using ch chain_ok_facts(7) [OF ch] by (simp_all add: chain_ok_def)
  note m' = split_block_mem [OF ch n big]
  have "hb.chain (hp_mem (split_block c n h))
     (if pre @ [c] = [] then Some (c + HEAP_HDR + n) else hp_head h)
     ((pre @ [c]) @ (c + HEAP_HDR + n) # post)"
  proof (rule hb.chain_link [where s = "hp_mem h"])
    show "hb.chain (hp_mem h) (hp_head h) ((pre @ [c]) @ post)" using cc by simp
    show "c + HEAP_HDR + n \<notin> set ((pre @ [c]) @ post)" using fresh by simp
  qed (use fresh d hb.chain_neighbours [OF cc] in \<open>auto simp: m' dest: first_ref_in\<close>)
  then show ?thesis by simp
qed

lemma split_block_tiles:
  assumes ch: "chain_ok pool h (pre @ c # post)"
    and n: "n \<le> hb_size (hp_mem h c)" and big: "48 < unat (hb_size (hp_mem h c)) - unat n"
  shows "tiles (hp_mem (split_block c n h)) (unat pool) (pre @ c # (c + HEAP_HDR + n) # post)
     (unat pool + 2097152)" (is ?tiles)
    and "arena_of (hp_mem (split_block c n h)) (pre @ c # (c + HEAP_HDR + n) # post) =
     arena_of (hp_mem h) pre @ (unat n, hb_free (hp_mem h c))
       # (unat (hb_size (hp_mem h c)) - unat n - 32, True) # arena_of (hp_mem h) post" (is ?arena)
proof -
  let ?m = "hp_mem h" and ?m' = "hp_mem (split_block c n h)"
  let ?sp = "c + HEAP_HDR + n" and ?s = "hb_size (hp_mem h c)"
  have lt: "unat n < unat ?s" using big by simp
  note fresh = split_fresh [OF ch lt]
  have szs: "unat (?s - n - HEAP_HDR) = unat ?s - unat n - 32"
    using big n by (subst unat_sub) (simp_all add: word_le_nat_alt unat_sub)
  have at: "hb_size (?m' c) = n" "hb_size (?m' ?sp) = ?s - n - HEAP_HDR"
      "hb_free (?m' c) = hb_free (?m c)" "hb_free (?m' ?sp)"
    using fresh by (auto simp: split_block_mem [OF ch n big])
  note frame = split_block_frame [OF ch n big]
  have t: "tiles ?m (unat pool) (pre @ c # post) (unat pool + 2097152)"
    using ch by (simp add: chain_ok_def)
  have eq: "tiles ?m' a pre e = tiles ?m a pre e" "tiles ?m' a post e = tiles ?m a post e"
      "span ?m' pre = span ?m pre" "arena_of ?m' pre = arena_of ?m pre"
      "arena_of ?m' post = arena_of ?m post" for a e
    using frame by (auto intro!: tiles_cong span_cong arena_of_cong)
  have "tiles ?m' (unat pool + span ?m pre + 32 + unat ?s) post (unat pool + 2097152)"
    using t by (simp add: eq)
  moreover have "unat pool + span ?m pre + 32 + unat ?s
      = unat pool + span ?m pre + 32 + unat n + 32 + (unat ?s - unat n - 32)"
    using big by linarith
  ultimately have "tiles ?m' (unat pool + span ?m pre + 32 + unat n + 32 + (unat ?s - unat n - 32))
      post (unat pool + 2097152)" by simp
  with t fresh(2) show ?tiles
    by (simp only: tiles_append tiles.simps eq at szs)
  show ?arena using at by (simp add: eq szs)
qed

lemma split_block_ok:
  assumes ch: "chain_ok pool h (pre @ c # post)" and free: "hb_free (hp_mem h c)"
    and n: "n \<le> hb_size (hp_mem h c)" "16 dvd unat n"
    and big: "48 < unat (hb_size (hp_mem h c)) - unat n"
  shows "chain_ok pool (split_block c n h) (pre @ c # (c + HEAP_HDR + n) # post)"
proof -
  let ?s = "hb_size (hp_mem h c)"
  have ok: "\<forall>x \<in> set (pre @ c # post). block_ok (hp_mem h x)"
    and len: "unat (hst_blocks (hp_stats h)) = length (pre @ c # post)"
    using ch by (simp_all add: chain_ok_def)
  have szs: "unat (?s - n - HEAP_HDR) = unat ?s - unat n - 32"
    using big n by (subst unat_sub) (simp_all add: word_le_nat_alt unat_sub)
  have "16 dvd unat ?s" using ok by (simp add: block_ok_def)
  then have "16 dvd unat ?s - unat n - 32" using n(2) by (intro dvd_diff_nat) auto
  then have "block_ok (hp_mem (split_block c n h) x)" 
    if "x \<in> set (pre @ c # (c + HEAP_HDR + n) # post)" for x
    using that ok n(2) free by (auto simp: split_block_mem [OF ch n(1) big] block_ok_def szs)
  moreover have "unat (hst_blocks (hp_stats (split_block c n h))) = Suc (length (pre @ c # post))"
    using big split_test [OF n(1)] len chain_ok_facts(2) [OF ch]
    by (simp add: split_block_def Let_def set_blocks_def unat_add_no_wrap)
  ultimately show ?thesis
    using ch split_block_chain [OF ch n(1) big] split_block_tiles(1) [OF ch n(1) big]
    by (simp add: chain_ok_def)
qed

lemma take_block_fields [simp]:
  "hp_head (take_block c h) = hp_head h" "hp_ready (take_block c h) = hp_ready h"
  "hp_lock (take_block c h) = hp_lock h" "hp_if (take_block c h) = hp_if h"
  "hp_acquires (take_block c h) = hp_acquires h"
  by (simp_all add: take_block_def Let_def)

lemma alloc_core:
  assumes core: "heap_core pool h (pre @ c # post)" and free: "hb_free (hp_mem h c)"
    and n: "n \<le> hb_size (hp_mem h c)" "16 dvd unat n"
  defines "h' \<equiv> take_block c (split_block c n h)"
  shows "heap_core pool h' (split_chain (hp_mem h) pre c n post)"
    and "arena_of (hp_mem h') (split_chain (hp_mem h) pre c n post) =
         arena_of (hp_mem h) pre
         @ split_arena (unat (hb_size (hp_mem h c))) (unat n) False (arena_of (hp_mem h) post)"
proof -
  let ?s = "hb_size (hp_mem h c)" and ?h1 = "split_block c n h"
  from core have ch: "chain_ok pool h (pre @ c # post)"
    and st: "stats_ok h (arena_of (hp_mem h) (pre @ c # post))"
    and co: "coalesced (arena_of (hp_mem h) (pre @ c # post))" by (simp_all add: heap_core_def)
  have "\<exists>post'. split_chain (hp_mem h) pre c n post = pre @ c # post'
      \<and> chain_ok pool ?h1 (pre @ c # post')
      \<and> stats_ok ?h1 (arena_of (hp_mem ?h1) (pre @ c # post'))
      \<and> hb_free (hp_mem ?h1 c)
      \<and> arena_of (hp_mem ?h1) pre @ (unat (hb_size (hp_mem ?h1 c)), False) # arena_of (hp_mem ?h1) post'
        = arena_of (hp_mem h) pre @ split_arena (unat ?s) (unat n) False (arena_of (hp_mem h) post)"
  proof (cases "48 < unat ?s - unat n")
    case False
    with split_block_off [OF n(1)] ch st free show ?thesis
      by (intro exI [of _ post]) (simp add: split_chain_def split_arena_def)
  next
    case True
    have ar: "arena_of (hp_mem ?h1) pre = arena_of (hp_mem h) pre"
      using split_block_frame [OF ch n(1) True] by (auto intro!: arena_of_cong)
    have "hb_free (hp_mem ?h1 c)"
      using free split_block_mem [OF ch n(1) True, of c] by simp
    with True ch st free split_block_ok [OF ch free n True] split_block_tiles(2) [OF ch n(1) True] ar
    show ?thesis
      by (intro exI [of _ "(c + HEAP_HDR + n) # post"])
        (simp add: split_chain_def split_arena_def stats_ok_def)
  qed
  then obtain post' where xs: "split_chain (hp_mem h) pre c n post = pre @ c # post'"
    and ch1: "chain_ok pool ?h1 (pre @ c # post')"
    and st1: "stats_ok ?h1 (arena_of (hp_mem ?h1) (pre @ c # post'))" and f1: "hb_free (hp_mem ?h1 c)"
    and ar1: "arena_of (hp_mem ?h1) pre @ (unat (hb_size (hp_mem ?h1 c)), False) # arena_of (hp_mem ?h1) post'
        = arena_of (hp_mem h) pre @ split_arena (unat ?s) (unat n) False (arena_of (hp_mem h) post)"
    by blast
  note take = take_block_core [OF ch1 st1 f1]
  show ar: "arena_of (hp_mem h') (split_chain (hp_mem h) pre c n post) =
      arena_of (hp_mem h) pre @ split_arena (unat ?s) (unat n) False (arena_of (hp_mem h) post)"
    unfolding xs h'_def take(3) by (fact ar1)
  have "coalesced (arena_of (hp_mem h') (split_chain (hp_mem h) pre c n post))"
    using co free unfolding ar
    by (auto simp: coalesced_def successively_append_iff successively_Cons split_arena_def)
  with take(1,2) show "heap_core pool h' (split_chain (hp_mem h) pre c n post)"
    by (simp add: heap_core_def xs h'_def)
qed

section \<open>Coalescing\<close>

lemma coalesce_next_absorb:
  "coalesce_next b h = (case hb_next (hp_mem h b) of None \<Rightarrow> h
     | Some nx \<Rightarrow> if hb_free (hp_mem h nx) then absorb b nx h else h)"
  by (simp add: coalesce_next_def absorb_def Let_def split: option.split)

lemma coalesce_prev_absorb:
  "coalesce_prev b h = (case hb_prev (hp_mem h b) of None \<Rightarrow> h
     | Some pv \<Rightarrow> if hb_free (hp_mem h pv) then absorb pv b h else h)"
  by (simp add: coalesce_prev_def absorb_def Let_def split: option.split)

lemma absorb_fields [simp]:
  "hp_head (absorb x y h) = hp_head h" "hp_ready (absorb x y h) = hp_ready h"
  "hp_lock (absorb x y h) = hp_lock h" "hp_if (absorb x y h) = hp_if h"
  "hp_acquires (absorb x y h) = hp_acquires h"
  "hst_used (hp_stats (absorb x y h)) = hst_used (hp_stats h)"
  "hst_free (hp_stats (absorb x y h)) = hst_free (hp_stats h)"
  "hst_total (hp_stats (absorb x y h)) = hst_total (hp_stats h)"
  "hst_blocks (hp_stats (absorb x y h)) = hst_blocks (hp_stats h) - 1"
  by (simp_all add: absorb_def Let_def set_blocks_def)

lemma absorb_mem:
  assumes ch: "chain_ok pool h (pre @ x # y # post)"
  shows "hp_mem (absorb x y h) z =
    (if z = x then (hp_mem h x)\<lparr>hb_size := hb_size (hp_mem h x) + (HEAP_HDR + hb_size (hp_mem h y)),
                                hb_next := hb_next (hp_mem h y)\<rparr>
     else if z = y then (hp_mem h y)\<lparr>hb_magic := 0\<rparr>
     else if hb_next (hp_mem h y) = Some z then (hp_mem h z)\<lparr>hb_prev := Some x\<rparr>
     else hp_mem h z)"
proof -
  have cc: "hb.chain (hp_mem h) (hp_head h) ((pre @ [x]) @ y # post)"
    and d: "distinct (pre @ x # y # post)"
    using ch chain_ok_facts(7) [OF ch] by (simp_all add: chain_ok_def)
  have "hb_next (hp_mem h y) = first_ref post None"
    using hb.chain_neighbours [OF cc] by simp
  then have "hb_next (hp_mem h y) \<noteq> Some x" "hb_next (hp_mem h y) \<noteq> Some y" "x \<noteq> y"
    using d by (auto dest!: first_ref_in)
  then show ?thesis
    by (auto simp: absorb_def Let_def set_blocks_def upd_def upd_opt_def split: option.split)
qed

lemma absorb_size:
  assumes ch: "chain_ok pool h (pre @ x # y # post)"
  shows "unat (hb_size (hp_mem h x) + (HEAP_HDR + hb_size (hp_mem h y)))
       = unat (hb_size (hp_mem h x)) + (32 + unat (hb_size (hp_mem h y)))"
proof -
  have "32 + unat (hb_size (hp_mem h x)) + (32 + unat (hb_size (hp_mem h y))) \<le> 2097152"
    using chain_ok_facts(1) [OF ch] by simp
  then show ?thesis by (subst unat_add_no_wrap; subst unat_add_no_wrap) auto
qed

lemma absorb_chain:
  assumes ch: "chain_ok pool h (pre @ x # y # post)"
  shows "hb.chain (hp_mem (absorb x y h)) (hp_head h) (pre @ x # post)"
proof -
  have cc: "hb.chain (hp_mem h) (hp_head h) ((pre @ [x]) @ y # post)"
    and d: "distinct (pre @ x # y # post)"
    using ch chain_ok_facts(7) [OF ch] by (simp_all add: chain_ok_def)
  note nb = hb.chain_neighbours [OF cc]
  have "hb.chain (hp_mem (absorb x y h))
      (if hb_prev (hp_mem h y) = None then hb_next (hp_mem h y) else hp_head h) ((pre @ [x]) @ post)"
    by (rule hb.chain_unlink [OF cc]) (use nb d in \<open>auto simp: absorb_mem [OF ch] dest: first_ref_in\<close>)
  then show ?thesis using nb by simp
qed

lemma absorb_ok:
  assumes ch: "chain_ok pool h (pre @ x # y # post)"
    and free: "hb_free (hp_mem h x)" "hb_free (hp_mem h y)"
  shows "chain_ok pool (absorb x y h) (pre @ x # post)"
    and "arena_of (hp_mem (absorb x y h)) (pre @ x # post) =
         arena_of (hp_mem h) pre
         @ (unat (hb_size (hp_mem h x)) + (32 + unat (hb_size (hp_mem h y))), True)
         # arena_of (hp_mem h) post"
proof -
  let ?m = "hp_mem h" and ?m' = "hp_mem (absorb x y h)"
  note m' = absorb_mem [OF ch] and sz = absorb_size [OF ch]
  have d: "distinct (pre @ x # y # post)" by (rule chain_ok_facts(7) [OF ch])
  have frame: "hb_size (?m' z) = hb_size (?m z) \<and> hb_free (?m' z) = hb_free (?m z)"
    if "z \<in> set (pre @ post)" for z
    using that d by (auto simp: m')
  have eq: "tiles ?m' a pre e = tiles ?m a pre e" "tiles ?m' a post e = tiles ?m a post e"
      "span ?m' pre = span ?m pre" "arena_of ?m' pre = arena_of ?m pre"
      "arena_of ?m' post = arena_of ?m post" for a e
    using frame by (auto intro!: tiles_cong span_cong arena_of_cong)
  have at: "hb_size (?m' x) = hb_size (?m x) + (HEAP_HDR + hb_size (?m y))" "hb_free (?m' x)"
    using free by (simp_all add: m')
  show "arena_of ?m' (pre @ x # post) = arena_of ?m pre
      @ (unat (hb_size (?m x)) + (32 + unat (hb_size (?m y))), True) # arena_of ?m post"
    by (simp add: eq at sz)
  have "tiles ?m (unat pool) (pre @ x # y # post) (unat pool + 2097152)"
    using ch by (simp add: chain_ok_def)
  then have "tiles ?m' (unat pool) (pre @ x # post) (unat pool + 2097152)"
    by (simp add: eq at sz add.assoc)
  moreover have "block_ok (?m' z)" if "z \<in> set (pre @ x # post)" for z
    using that ch d sz by (auto simp: m' block_ok_def chain_ok_def)
  moreover have "unat (hst_blocks (hp_stats h) - 1) = length (pre @ x # post)"
  proof -
    have "unat (hst_blocks (hp_stats h)) = length (pre @ x # y # post)"
      using ch by (simp add: chain_ok_def)
    then show ?thesis by (subst unat_sub) (auto simp: word_le_nat_alt)
  qed
  ultimately show "chain_ok pool (absorb x y h) (pre @ x # post)"
    using ch absorb_chain [OF ch] by (simp add: chain_ok_def)
qed

section \<open>Release\<close>

lemma release_block_fields [simp]:
  "hp_head (release_block c h) = hp_head h" "hp_ready (release_block c h) = hp_ready h"
  "hp_lock (release_block c h) = hp_lock h" "hp_if (release_block c h) = hp_if h"
  "hp_acquires (release_block c h) = hp_acquires h"
  by (simp_all add: release_block_def Let_def)

lemma release_block_core:
  assumes ch: "chain_ok pool h (pre @ b # post)"
    and st: "stats_ok h (arena_of (hp_mem h) (pre @ b # post))" and used: "\<not> hb_free (hp_mem h b)"
  shows "chain_ok pool (release_block b h) (pre @ b # post)"
    and "stats_ok (release_block b h) (arena_of (hp_mem (release_block b h)) (pre @ b # post))"
    and "arena_of (hp_mem (release_block b h)) (pre @ b # post) =
         arena_of (hp_mem h) pre @ (unat (hb_size (hp_mem h b)), True) # arena_of (hp_mem h) post"
proof -
  let ?m = "hp_mem h" and ?m' = "hp_mem (release_block b h)"
  have nc: "b \<notin> set pre" "b \<notin> set post" using chain_ok_facts(7) [OF ch] by auto
  have m': "?m' x = (if x = b then (?m b)\<lparr>hb_magic := HEAP_MAGIC_FREE, hb_free := True\<rparr> else ?m x)" for x
    by (simp add: release_block_def upd_def Let_def)
  have size': "hb_size (?m' x) = hb_size (?m x)" for x by (simp add: m')
  have rest: "arena_of ?m' pre = arena_of ?m pre" "arena_of ?m' post = arena_of ?m post"
    using nc by (auto intro!: arena_of_cong simp: m' split: if_splits)
  then show ar: "arena_of ?m' (pre @ b # post) =
      arena_of ?m pre @ (unat (hb_size (?m b)), True) # arena_of ?m post"
    by (simp add: m')
  have "hb.chain ?m' (hp_head h) (pre @ b # post)"
    by (rule hb.chain_frame [where s = ?m]) (use ch in \<open>auto simp: chain_ok_def m'\<close>)
  moreover have "tiles ?m' (unat pool) (pre @ b # post) (unat pool + 2097152)"
    using ch tiles_cong [of "pre @ b # post" ?m' ?m] size' unfolding chain_ok_def by blast
  moreover have "block_ok (?m' x)" if "x \<in> set (pre @ b # post)" for x
    using ch that by (auto simp: m' block_ok_def chain_ok_def)
  ultimately show "chain_ok pool (release_block b h) (pre @ b # post)"
    using ch by (simp add: chain_ok_def release_block_def Let_def)
  have "unat (hb_size (?m b)) \<le> unat (hst_used (hp_stats h))"
    using st used by (simp add: stats_ok_def)
  then have "unat (hst_used (hp_stats h) - hb_size (?m b))
      = unat (hst_used (hp_stats h)) - unat (hb_size (?m b))"
    by (simp add: unat_sub word_le_nat_alt)
  with st used show "stats_ok (release_block b h) (arena_of ?m' (pre @ b # post))"
    unfolding ar by (simp add: stats_ok_def release_block_def Let_def algebra_simps)
qed

lemma coalesce_next_ok:
  assumes ch: "chain_ok pool h (pre @ b # post)" and free: "hb_free (hp_mem h b)"
  shows "\<exists>post'. chain_ok pool (coalesce_next b h) (pre @ b # post')
    \<and> hb_free (hp_mem (coalesce_next b h) b)
    \<and> arena_of (hp_mem (coalesce_next b h)) pre = arena_of (hp_mem h) pre
    \<and> (unat (hb_size (hp_mem (coalesce_next b h) b)), arena_of (hp_mem (coalesce_next b h)) post')
      = merge_next (unat (hb_size (hp_mem h b))) (arena_of (hp_mem h) post)"
proof (cases post)
  case Nil
  then have "hb_next (hp_mem h b) = None"
    using ch hb.chain_neighbours(1) [of "hp_mem h" "hp_head h" pre b post] by (simp add: chain_ok_def)
  with ch free Nil show ?thesis
    by (intro exI [of _ "[]"]) (simp add: coalesce_next_def)
next
  case (Cons nx rest)
  then have nx: "hb_next (hp_mem h b) = Some nx"
    using ch hb.chain_neighbours(1) [of "hp_mem h" "hp_head h" pre b post] by (simp add: chain_ok_def)
  show ?thesis
  proof (cases "hb_free (hp_mem h nx)")
    case False
    with ch free nx Cons show ?thesis
      by (intro exI [of _ post]) (simp add: coalesce_next_absorb)
  next
    case True
    have ch': "chain_ok pool h (pre @ b # nx # rest)" using ch Cons by simp
    note a = absorb_ok [OF ch' free True]
    have eq: "coalesce_next b h = absorb b nx h" using nx True by (simp add: coalesce_next_absorb)
    from a(2) have "arena_of (hp_mem (absorb b nx h)) pre = arena_of (hp_mem h) pre"
        "hb_free (hp_mem (absorb b nx h) b)"
        "unat (hb_size (hp_mem (absorb b nx h) b)) =
           unat (hb_size (hp_mem h b)) + (32 + unat (hb_size (hp_mem h nx)))"
        "arena_of (hp_mem (absorb b nx h)) rest = arena_of (hp_mem h) rest"
      by simp_all
    with a(1) True show ?thesis
      unfolding eq by (intro exI [of _ rest]) (simp add: Cons)
  qed
qed

lemma coalesce_prev_ok:
  assumes ch: "chain_ok pool h (pre @ b # post)" and free: "hb_free (hp_mem h b)"
  shows "\<exists>xs'. chain_ok pool (coalesce_prev b h) xs'
    \<and> arena_of (hp_mem (coalesce_prev b h)) xs' =
      (let bs = arena_of (hp_mem h) pre; s = unat (hb_size (hp_mem h b)) in
       if bs \<noteq> [] \<and> snd (last bs)
       then butlast bs @ (fst (last bs) + (32 + s), True) # arena_of (hp_mem h) post
       else bs @ (s, True) # arena_of (hp_mem h) post)"
proof (cases pre rule: rev_cases)
  case Nil
  then have "hb_prev (hp_mem h b) = None"
    using ch hb.chain_neighbours(2) [of "hp_mem h" "hp_head h" pre b post] by (simp add: chain_ok_def)
  with ch free Nil show ?thesis
    by (intro exI [of _ "b # post"]) (simp add: coalesce_prev_def)
next
  case (snoc pre' pv)
  then have pv: "hb_prev (hp_mem h b) = Some pv"
    using ch hb.chain_neighbours(2) [of "hp_mem h" "hp_head h" pre b post] by (simp add: chain_ok_def)
  show ?thesis
  proof (cases "hb_free (hp_mem h pv)")
    case False
    with ch free pv snoc show ?thesis
      by (intro exI [of _ "pre @ b # post"]) (simp add: coalesce_prev_absorb)
  next
    case True
    have ch': "chain_ok pool h (pre' @ pv # b # post)" using ch snoc by simp
    note a = absorb_ok [OF ch' True free]
    have eq: "coalesce_prev b h = absorb pv b h" using pv True by (simp add: coalesce_prev_absorb)
    show ?thesis
      using a True unfolding eq by (intro exI [of _ "pre' @ pv # post"]) (simp add: snoc Let_def)
  qed
qed

lemma coalesce_fields [simp]:
  "hp_head (coalesce b h) = hp_head h" "hp_ready (coalesce b h) = hp_ready h"
  "hp_lock (coalesce b h) = hp_lock h" "hp_if (coalesce b h) = hp_if h"
  "hp_acquires (coalesce b h) = hp_acquires h"
  "hst_used (hp_stats (coalesce b h)) = hst_used (hp_stats h)"
  "hst_free (hp_stats (coalesce b h)) = hst_free (hp_stats h)"
  "hst_total (hp_stats (coalesce b h)) = hst_total (hp_stats h)"
  by (simp_all add: coalesce_def coalesce_next_absorb coalesce_prev_absorb split: option.split)

lemma arena_free_used: "used_bytes (arena_free pre s post) = used_bytes pre + used_bytes post"
  by (cases pre rule: rev_cases; cases post; cases "snd (hd post)")
    (auto simp: arena_free_def split_def Let_def)

lemma arena_free_coalesced:
  assumes "coalesced (pre @ (s, False) # post)"
  shows "coalesced (arena_free pre s post)"
  using assms
  by (cases pre rule: rev_cases; cases post; cases "snd (hd post)")
    (auto simp: arena_free_def coalesced_def successively_append_iff successively_Cons split_def Let_def)

lemma free_core:
  assumes core: "heap_core pool h (pre @ b # post)" and used: "\<not> hb_free (hp_mem h b)"
  shows "\<exists>xs'. heap_core pool (coalesce b (release_block b h)) xs'
    \<and> arena_of (hp_mem (coalesce b (release_block b h))) xs' =
      arena_free (arena_of (hp_mem h) pre) (unat (hb_size (hp_mem h b))) (arena_of (hp_mem h) post)"
proof -
  let ?h1 = "release_block b h" let ?h2 = "coalesce_next b ?h1"
  from core have ch: "chain_ok pool h (pre @ b # post)"
    and st: "stats_ok h (arena_of (hp_mem h) (pre @ b # post))"
    and co: "coalesced (arena_of (hp_mem h) (pre @ b # post))" by (simp_all add: heap_core_def)
  note rel = release_block_core [OF ch st used]
  from rel(3) have ar1: "arena_of (hp_mem ?h1) pre = arena_of (hp_mem h) pre"
      "arena_of (hp_mem ?h1) post = arena_of (hp_mem h) post"
      "unat (hb_size (hp_mem ?h1 b)) = unat (hb_size (hp_mem h b))" "hb_free (hp_mem ?h1 b)"
    by simp_all
  from coalesce_next_ok [OF rel(1) ar1(4)] obtain post' where
    ch2: "chain_ok pool ?h2 (pre @ b # post')" and f2: "hb_free (hp_mem ?h2 b)"
    and ar2: "arena_of (hp_mem ?h2) pre = arena_of (hp_mem h) pre"
    and mg: "merge_next (unat (hb_size (hp_mem h b))) (arena_of (hp_mem h) post)
      = (unat (hb_size (hp_mem ?h2 b)), arena_of (hp_mem ?h2) post')"
    unfolding ar1 by auto
  from coalesce_prev_ok [OF ch2 f2] obtain xs' where
    ch3: "chain_ok pool (coalesce b ?h1) xs'"
    and ar3: "arena_of (hp_mem (coalesce b ?h1)) xs' =
      arena_free (arena_of (hp_mem h) pre) (unat (hb_size (hp_mem h b))) (arena_of (hp_mem h) post)"
    unfolding coalesce_def arena_free_def mg ar2 by (auto simp: Let_def)
  have "stats_ok (coalesce b ?h1) (arena_of (hp_mem (coalesce b ?h1)) xs')"
    using rel(2) unfolding ar3 rel(3) by (simp add: stats_ok_def arena_free_used)
  moreover have "coalesced (arena_of (hp_mem (coalesce b ?h1)) xs')"
    using co used unfolding ar3 by (intro arena_free_coalesced) simp
  ultimately show ?thesis using ch3 ar3 by (auto simp: heap_core_def)
qed

section \<open>Public operations\<close>

lemma irqrestore_core [simp]:
  "heap_core pool (spinlock_irqrestore flags h) xs = heap_core pool h xs"
  "hp_mem (spinlock_irqrestore flags h) = hp_mem h"
  "hp_stats (spinlock_irqrestore flags h) = hp_stats h"
  "hp_ready (spinlock_irqrestore flags h) = hp_ready h"
  "\<not> hp_lock (spinlock_irqrestore flags h)"
  "hp_if (spinlock_irqrestore flags h) = (flags \<or> hp_if h)"
  "hp_acquires (spinlock_irqrestore flags h) = hp_acquires h"
  "hp_head (spinlock_irqrestore flags h) = hp_head h"
  by (simp_all add: spinlock_irqrestore_def spinlock_unlock_def Let_def)

lemma round_up_eq: "round_up n = ALIGN_UP n (2 ^ 4)"
  by (simp add: round_up_def ALIGN_UP_def add.commute)

lemma round_up_aligned: "16 dvd unat (round_up n)"
proof -
  have "unat (round_up n) = unat (n + 15) div 2 ^ 4 * 2 ^ 4"
    using unat_and_not_mask [of "n + 15" 4] by (simp add: round_up_def mask_numeral add.commute)
  then show ?thesis by simp
qed

lemma round_up_ge:
  assumes "unat n + 15 < 2 ^ 64"
  shows "unat n \<le> unat (round_up n)" and "unat (round_up n) < unat n + 16"
  using unat_ALIGN_UP [of 4 n] assms div_mult_round_up [of 16 "unat n"]
  by (simp_all add: round_up_eq)

lemma split_chain_nth: "split_chain m pre c n post ! length pre = c"
  by (simp add: split_chain_def)

lemma arena_alloc_found:
  assumes "f" and "n \<le> s" and "\<forall>b \<in> set bs. \<not> (snd b \<and> n \<le> fst b)"
  shows "arena_alloc n (bs @ (s, f) # cs) = Some (length bs, bs @ split_arena s n False cs)"
  using assms by (simp add: arena_alloc_skip split_arena_def)

text \<open>
  \<open>kmalloc\<close> on the pointer structure: it always returns, restores the interrupt flag, and
  implements \<open>arena_alloc\<close>; the blocks already in use are untouched.
\<close>

lemma kmalloc_refines:
  assumes rep: "heap_rep pool h xs" and nz: "sz \<noteq> 0"
  obtains (oom) h' where "kmalloc sz h = ret (None, h')" "heap_rep pool h' xs" "hp_mem h' = hp_mem h"
      "hp_stats h' = hp_stats h"
      "arena_alloc (unat (round_up sz)) (arena_of (hp_mem h) xs) = None"
      "hp_if h' = hp_if h" "hp_acquires h' = hp_acquires h + 1"
  | (ok) h' pre c post where "kmalloc sz h = ret (Some (c + HEAP_HDR), h')" "xs = pre @ c # post"
      "hb_free (hp_mem h c)" "round_up sz \<le> hb_size (hp_mem h c)"
      "heap_rep pool h' (split_chain (hp_mem h) pre c (round_up sz) post)"
      "arena_alloc (unat (round_up sz)) (arena_of (hp_mem h) xs) =
         Some (length pre, arena_of (hp_mem h') (split_chain (hp_mem h) pre c (round_up sz) post))"
      "arena_of (hp_mem h') (split_chain (hp_mem h) pre c (round_up sz) post) =
         arena_of (hp_mem h) pre @ split_arena (unat (hb_size (hp_mem h c))) (unat (round_up sz))
           False (arena_of (hp_mem h) post)"
      "hp_if h' = hp_if h" "hp_acquires h' = hp_acquires h + 1"
proof -
  let ?n = "round_up sz" and ?m = "hp_mem h"
  let ?P = "\<lambda>x. hb_free (?m x) \<and> ?n \<le> hb_size (?m x)"
  let ?h2 = "h\<lparr>hp_if := False, hp_lock := True, hp_acquires := hp_acquires h + 1\<rparr>"
  from rep have ready: "hp_ready h" "\<not> hp_lock h" and core: "heap_core pool h xs"
    by (simp_all add: heap_rep_core)
  then have ch: "hb.chain ?m (hp_head h) xs" "\<forall>x \<in> set xs. block_ok (?m x)"
    by (simp_all add: heap_core_def chain_ok_def)
  have run: "kmalloc sz h = (case find ?P xs of
      None \<Rightarrow> ret (None, spinlock_irqrestore (hp_if h) ?h2)
    | Some c \<Rightarrow> ret (Some (c + HEAP_HDR),
        spinlock_irqrestore (hp_if h) (take_block c (split_block c ?n ?h2))))"
    using ready nz first_fit_chain [OF ch, of ?n]
    by (simp add: kmalloc_def spinlock_irqsave_eq Let_def)
  show thesis
  proof (cases "find ?P xs")
    case None
    with run core ready find_arena_None [of ?m ?n xs] show thesis
      by (intro oom [of "spinlock_irqrestore (hp_if h) ?h2"]) (simp_all add: heap_rep_core)
  next
    case (Some c)
    from find_split [OF this] obtain pre post where xs: "xs = pre @ c # post" and fit: "?P c"
      and skip: "\<forall>x \<in> set pre. \<not> ?P x" by blast
    have core2: "heap_core pool ?h2 (pre @ c # post)" using core xs by simp
    note al = alloc_core [OF core2, simplified, OF fit [THEN conjunct1] fit [THEN conjunct2] round_up_aligned]
    have "\<forall>b \<in> set (arena_of ?m pre). \<not> (snd b \<and> unat ?n \<le> fst b)"
      using skip by (auto simp: arena_of_def word_le_nat_alt)
    with fit have spec: "arena_alloc (unat ?n) (arena_of ?m xs) = Some (length pre,
        arena_of ?m pre @ split_arena (unat (hb_size (?m c))) (unat ?n) False (arena_of ?m post))"
      by (simp add: xs arena_alloc_found word_le_nat_alt)
    show thesis
      by (rule ok [of c "spinlock_irqrestore (hp_if h) (take_block c (split_block c ?n ?h2))" pre post])
        (use run Some xs fit al spec ready in \<open>simp_all add: heap_rep_core\<close>)
  qed
qed

lemma kfree_refines:
  assumes rep: "heap_rep pool h (pre @ b # post)" and used: "\<not> hb_free (hp_mem h b)"
  obtains h' xs' where "kfree (Some (b + HEAP_HDR)) h = ret h'" "heap_rep pool h' xs'"
      "arena_of (hp_mem h') xs' =
         arena_free (arena_of (hp_mem h) pre) (unat (hb_size (hp_mem h b))) (arena_of (hp_mem h) post)"
      "hp_if h' = hp_if h" "hp_acquires h' = hp_acquires h + 1"
      "hp_mem h' = hp_mem (coalesce b (release_block b h))"
proof -
  let ?h2 = "h\<lparr>hp_if := False, hp_lock := True, hp_acquires := hp_acquires h + 1\<rparr>"
  from rep have ready: "hp_ready h" "\<not> hp_lock h" and core: "heap_core pool h (pre @ b # post)"
    by (simp_all add: heap_rep_core)
  then have "hb_magic (hp_mem h b) = HEAP_MAGIC_USED"
    using used by (simp add: heap_core_def chain_ok_def block_ok_def)
  then have run: "kfree (Some (b + HEAP_HDR)) h =
      ret (spinlock_irqrestore (hp_if h) (coalesce b (release_block b ?h2)))"
    using ready used by (simp add: kfree_def spinlock_irqsave_eq Let_def)
  have core2: "heap_core pool ?h2 (pre @ b # post)" using core by simp
  from free_core [OF core2, simplified, OF used] obtain xs' where
    "heap_core pool (coalesce b (release_block b ?h2)) xs'"
    "arena_of (hp_mem (coalesce b (release_block b ?h2))) xs' =
      arena_free (arena_of (hp_mem h) pre) (unat (hb_size (hp_mem h b))) (arena_of (hp_mem h) post)"
    by blast
  moreover have "hp_mem (coalesce b (release_block b ?h2)) = hp_mem (coalesce b (release_block b h))"
    by (simp add: coalesce_def coalesce_next_def coalesce_prev_def release_block_def Let_def
        set_blocks_def split: option.split)
  ultimately show thesis
    using that [of "spinlock_irqrestore (hp_if h) (coalesce b (release_block b ?h2))" xs'] run ready
    by (simp add: heap_rep_core)
qed

section \<open>Live blocks\<close>

lemma arena_span_simps [simp]:
  "arena_span [] = 0" "arena_span (b # bs) = 32 + fst b + arena_span bs"
  "arena_span (bs @ cs) = arena_span bs + arena_span cs"
  by (simp_all add: arena_span_def)

lemma used_at_append [simp]: "used_at a (bs @ cs) = used_at a bs \<union> used_at (a + arena_span bs) cs"
  by (induction bs arbitrary: a) (auto simp: add.assoc)

lemma used_at_ge: "x \<in> used_at a bs \<Longrightarrow> a \<le> x"
proof (induction bs arbitrary: a)
  case (Cons b bs)
  obtain s f where b: "b = (s, f)" by (cases b)
  with Cons.prems have "x = a \<or> x \<in> used_at (a + 32 + s) bs" by (auto split: if_splits)
  with Cons.IH [of "a + 32 + s"] b show ?case by auto
qed simp

lemma used_at_less: "x \<in> used_at a bs \<Longrightarrow> x < a + arena_span bs"
proof (induction bs arbitrary: a)
  case (Cons b bs)
  obtain s f where b: "b = (s, f)" by (cases b)
  with Cons.prems have "x = a \<or> x \<in> used_at (a + 32 + s) bs" by (auto split: if_splits)
  with Cons.IH [of "a + 32 + s"] b show ?case by auto
qed simp

lemma arena_span_of [simp]: "arena_span (arena_of m xs) = span m xs"
  by (induction xs) auto

lemma used_at_tiles:
  "tiles m a xs e \<Longrightarrow> unat ` {x \<in> set xs. \<not> hb_free (m x)} = used_at a (arena_of m xs)"
proof (induction xs arbitrary: a)
  case (Cons x xs)
  have "{y \<in> set (x # xs). \<not> hb_free (m y)} =
      (if hb_free (m x) then {} else {x}) \<union> {y \<in> set xs. \<not> hb_free (m y)}" by auto
  with Cons show ?case by (auto simp: image_Un)
qed simp

lemma used_at_split:
  assumes "n \<le> s"
  shows "used_at a (bs @ split_arena s n False cs) =
         insert (a + arena_span bs) (used_at a (bs @ (s, True) # cs))"
  using assms by (auto simp: split_arena_def ac_simps)

lemma used_at_free:
  "used_at a (arena_free bs s cs) = used_at a (bs @ (s, False) # cs) - {a + arena_span bs}"
proof -
  have lt: "a + arena_span bs \<notin> used_at a bs" using used_at_less [of "a + arena_span bs" a bs] by blast
  have gt: "a + arena_span bs \<notin> used_at (a + arena_span bs + 32 + s) cs"
    using used_at_ge [of "a + arena_span bs" _ cs] by fastforce
  obtain s' cs' where mg: "merge_next s cs = (s', cs')" by (cases "merge_next s cs")
  have rest: "used_at (d + (32 + s')) cs' = used_at (d + (32 + s)) cs" for d
    using mg by (cases "(s, cs)" rule: merge_next.cases) (auto simp: ac_simps)
  have "used_at a (arena_free bs s cs) = used_at a bs \<union> used_at (a + arena_span bs + (32 + s)) cs"
  proof (cases "bs \<noteq> [] \<and> snd (last bs)")
    case False
    then show ?thesis
      using rest [of "a + arena_span bs"] by (auto simp: arena_free_def mg add.assoc)
  next
    case True
    then obtain ds t where bs: "bs = ds @ [(t, True)]" by (cases bs rule: rev_cases) auto
    then show ?thesis
      using rest [of "a + arena_span ds + (32 + t)"] by (simp add: arena_free_def mg add.assoc)
  qed
  then show ?thesis using lt gt by (auto simp: add.assoc)
qed

lemma live_ptrs_used:
  assumes "chain_ok pool h xs"
  shows "live_ptrs (hp_mem h) xs =
     (\<lambda>a. word_of_nat a + HEAP_HDR) ` used_at (unat pool) (arena_of (hp_mem h) xs)"
proof -
  have "tiles (hp_mem h) (unat pool) xs (unat pool + 2097152)" using assms by (simp add: chain_ok_def)
  from used_at_tiles [OF this, symmetric] show ?thesis
    by (simp add: live_ptrs_def image_image)
qed

lemma tiles_position:
  "tiles m a (pre @ c # post) e \<Longrightarrow> unat c = a + span m pre"
  by simp

section \<open>Runs of the allocator\<close>

lemma heap_init_rep:
  assumes "pool_ok pool" and "\<not> hp_lock h"
  shows "heap_rep pool (snd (heap_init pool h)) [pool]"
  using assms
  by (simp add: heap_rep_def chain_ok_def stats_ok_def coalesced_def heap_init_def hb.chain_def
      dlist_def block_ok_def hb.nexts_app hb.prevs_app)

lemma kmalloc_live:
  assumes rep: "heap_rep pool h xs" and km: "kmalloc sz h = ret (p, h')"
  shows "\<exists>xs'. heap_rep pool h' xs' \<and>
    live_ptrs (hp_mem h') xs' = set_option p \<union> live_ptrs (hp_mem h) xs"
proof (cases "sz = 0")
  case True
  with km rep show ?thesis by (auto simp: kmalloc_def)
next
  case False
  from rep False show ?thesis
  proof (cases rule: kmalloc_refines)
    case (oom h1)
    with km show ?thesis by auto
  next
    case (ok h1 pre c post)
    let ?n = "round_up sz" and ?m = "hp_mem h"
    let ?xs = "split_chain ?m pre c ?n post"
    from km ok have h': "h1 = h'" and p: "p = Some (c + HEAP_HDR)" by auto
    have ch: "chain_ok pool h xs" "chain_ok pool h' ?xs"
      using rep ok(5) h' by (simp_all add: heap_rep_def)
    have c: "unat c = unat pool + span ?m pre"
      using ch(1) ok(2) by (simp add: chain_ok_def)
    have "used_at (unat pool) (arena_of (hp_mem h') ?xs) = insert (unat c) (used_at (unat pool) (arena_of ?m xs))"
      using ok(3,4,7) h' c
      by (simp add: used_at_split word_le_nat_alt ok(2) flip: append_Cons append.assoc del: used_at_append)
    then have "live_ptrs (hp_mem h') ?xs = insert (c + HEAP_HDR) (live_ptrs ?m xs)"
      unfolding live_ptrs_used [OF ch(1)] live_ptrs_used [OF ch(2)] by simp
    with ok(5) h' p show ?thesis by auto
  qed
qed

lemma kfree_live:
  assumes rep: "heap_rep pool h xs" and p: "p \<in> live_ptrs (hp_mem h) xs"
  shows "\<exists>h' xs'. kfree (Some p) h = ret h' \<and> heap_rep pool h' xs' \<and>
    live_ptrs (hp_mem h') xs' = live_ptrs (hp_mem h) xs - {p}"
proof -
  from p obtain b where b: "b \<in> set xs" "\<not> hb_free (hp_mem h b)" "p = b + HEAP_HDR"
    by (auto simp: live_ptrs_def)
  then obtain pre post where xs: "xs = pre @ b # post" by (meson split_list)
  from rep xs b(2) obtain h' xs' where h': "kfree (Some p) h = ret h'" "heap_rep pool h' xs'"
    and ar: "arena_of (hp_mem h') xs' =
      arena_free (arena_of (hp_mem h) pre) (unat (hb_size (hp_mem h b))) (arena_of (hp_mem h) post)"
    unfolding b(3) by (metis kfree_refines)
  have ch: "chain_ok pool h xs" "chain_ok pool h' xs'"
    using rep h'(2) by (simp_all add: heap_rep_def)
  have ub: "unat b = unat pool + span (hp_mem h) pre"
    using ch(1) xs by (simp add: chain_ok_def)
  have used: "used_at (unat pool) (arena_of (hp_mem h') xs')
      = used_at (unat pool) (arena_of (hp_mem h) xs) - {unat b}"
    unfolding ar used_at_free using b(2) by (simp add: xs ub)
  have tl: "tiles (hp_mem h) (unat pool) xs (unat pool + 2097152)"
    using ch(1) by (simp add: chain_ok_def)
  have "live_ptrs (hp_mem h') xs' = (\<lambda>a. word_of_nat a + HEAP_HDR) `
      (unat ` {x \<in> set xs. \<not> hb_free (hp_mem h x)} - {unat b})"
    unfolding live_ptrs_used [OF ch(2)] used used_at_tiles [OF tl] ..
  also have "unat ` {x \<in> set xs. \<not> hb_free (hp_mem h x)} - {unat b}
      = unat ` ({x \<in> set xs. \<not> hb_free (hp_mem h x)} - {b})"
    by (auto dest!: unsigned_word_eqI)
  also have "(\<lambda>a. word_of_nat a + HEAP_HDR) ` \<dots> = live_ptrs (hp_mem h) xs - {p}"
    by (auto simp: live_ptrs_def b(3) image_image)
  finally show ?thesis using h' by blast
qed

lemma heap_run_rep:
  assumes "heap_run pool h L" and "pool_ok pool"
  shows "\<exists>xs. heap_rep pool h xs \<and> L = live_ptrs (hp_mem h) xs"
  using assms
proof (induction rule: heap_run.induct)
  case (init h)
  then show ?case
    using heap_init_rep [of pool h] by (intro exI [of _ "[pool]"]) (auto simp: live_ptrs_def heap_init_def)
next
  case (alloc h L sz p h')
  then show ?case using kmalloc_live by fastforce
next
  case (alloc_null h L sz h')
  then show ?case using kmalloc_live by fastforce
next
  case (free h L p h')
  then show ?case using kfree_live by fastforce
next
  case (free_null h L h')
  then show ?case by (auto simp: kfree_def)
qed

section \<open>Auxiliary facts\<close>

lemma kmalloc_ok_frame:
  assumes ar: "arena_of m' (split_chain m pre c n post) =
      arena_of m pre @ split_arena (unat (hb_size (m c))) (unat n) False (arena_of m post)"
  shows "x \<in> set (pre @ post) \<Longrightarrow> hb_size (m' x) = hb_size (m x)"
    and "unat (hb_size (m' c)) = (if 48 < unat (hb_size (m c)) - unat n then unat n else unat (hb_size (m c)))"
    and "\<not> hb_free (m' c)"
proof -
  from ar have "arena_of m' pre = arena_of m pre" "arena_of m' post = arena_of m post"
    by (auto simp: split_chain_def split_arena_def split: if_splits)
  then show "x \<in> set (pre @ post) \<Longrightarrow> hb_size (m' x) = hb_size (m x)"
    by (auto simp: arena_of_def intro: unat_eqI)
  show "unat (hb_size (m' c)) = (if 48 < unat (hb_size (m c)) - unat n then unat n else unat (hb_size (m c)))"
    "\<not> hb_free (m' c)"
    using ar by (auto simp: split_chain_def split_arena_def split: if_splits)
qed

lemma live_ptr_addr:
  assumes "chain_ok pool h xs" and "q \<in> live_ptrs (hp_mem h) xs"
  shows "q - HEAP_HDR \<in> set xs" and "\<not> hb_free (hp_mem h (q - HEAP_HDR))"
    and "unat q = unat (q - HEAP_HDR) + 32"
proof -
  from assms(2) obtain x where x: "x \<in> set xs" "\<not> hb_free (hp_mem h x)" "q = x + HEAP_HDR"
    by (auto simp: live_ptrs_def)
  then show "q - HEAP_HDR \<in> set xs" "\<not> hb_free (hp_mem h (q - HEAP_HDR))" by simp_all
  have "unat x + 32 < 2 ^ 64"
    using chain_ok_facts(3) [OF assms(1) x(1)] chain_ok_facts(6) [OF assms(1)] by linarith
  then show "unat q = unat (q - HEAP_HDR) + 32"
    using x(3) by (simp add: unat_add_no_wrap)
qed

lemma kfree_merged_magic:
  assumes "chain_ok pool h (pre @ b # post)" and "\<not> hb_free (hp_mem h b)"
    and "stats_ok h (arena_of (hp_mem h) (pre @ b # post))"
  shows "hb_magic (hp_mem (coalesce b (release_block b h)) b) \<noteq> HEAP_MAGIC_USED"
proof -
  let ?h1 = "release_block b h" let ?h2 = "coalesce_next b ?h1"
  note rel = release_block_core [OF assms(1) assms(3) assms(2)]
  have f1: "hb_free (hp_mem ?h1 b)" using rel(3) by simp
  from coalesce_next_ok [OF rel(1) f1] obtain post' where
    ch2: "chain_ok pool ?h2 (pre @ b # post')" and f2: "hb_free (hp_mem ?h2 b)" by blast
  then have m2: "hb_magic (hp_mem ?h2 b) = HEAP_MAGIC_FREE"
    by (simp add: chain_ok_def block_ok_def)
  have "hb_magic (hp_mem (coalesce_prev b ?h2) b) \<in> {0, HEAP_MAGIC_FREE}"
  proof (cases "coalesce_prev b ?h2 = ?h2")
    case True
    then show ?thesis using m2 by simp
  next
    case False
    then obtain pv where "coalesce_prev b ?h2 = absorb pv b ?h2"
      by (auto simp: coalesce_prev_absorb split: option.splits if_splits)
    then show ?thesis by (simp add: absorb_def Let_def set_blocks_def upd_def)
  qed
  then show ?thesis by (auto simp: coalesce_def)
qed

lemma arena_roundtrip:
  assumes "coalesced (bs @ (s, True) # cs)" and "n \<le> s"
    and "split_arena s n False cs = (k, False) # rest"
  shows "arena_free bs k rest = bs @ (s, True) # cs"
proof -
  have "bs = [] \<or> \<not> snd (last bs)" "cs = [] \<or> \<not> snd (hd cs)"
    using assms(1) by (auto simp: coalesced_def successively_append_iff successively_Cons)
  moreover have "merge_next s cs = (s, cs)" if "cs = [] \<or> \<not> snd (hd cs)"
    using that by (cases "(s, cs)" rule: merge_next.cases) auto
  ultimately show ?thesis
    using assms(2,3) by (auto simp: split_arena_def arena_free_def Let_def split: if_splits)
qed



lemma heap_rep_stats_unique:
  assumes "heap_rep pool h xs" and "heap_rep pool h' xs'" and "arena_of (hp_mem h') xs' = arena_of (hp_mem h) xs"
  shows "hst_used (hp_stats h') = hst_used (hp_stats h) \<and> hst_free (hp_stats h') = hst_free (hp_stats h)
    \<and> hst_blocks (hp_stats h') = hst_blocks (hp_stats h)"
proof -
  from assms(3) have len: "length xs' = length xs" by (metis length_arena_of)
  have used: "hst_used (hp_stats h') = hst_used (hp_stats h)"
    using assms by (intro unat_eqI) (simp add: heap_rep_def stats_ok_def)
  moreover have "hst_blocks (hp_stats h') = hst_blocks (hp_stats h)"
    using assms len by (intro unat_eqI) (simp add: heap_rep_def stats_ok_def chain_ok_def)
  moreover have "hst_used (hp_stats h') + hst_free (hp_stats h') = hst_used (hp_stats h) + hst_free (hp_stats h)"
    using assms by (simp add: heap_rep_def stats_ok_def)
  ultimately show ?thesis by simp
qed

lemma split_chain_tail: "\<exists>post1. split_chain m pre c n post = pre @ c # post1"
  by (auto simp: split_chain_def)

lemma kmalloc_kfree_arena:
  assumes rep: "heap_rep pool h (pre @ c # post)" and fit: "hb_free (hp_mem h c)" "n \<le> hb_size (hp_mem h c)"
    and rep1: "heap_rep pool h1 (split_chain (hp_mem h) pre c n post)"
    and ar: "arena_of (hp_mem h1) (split_chain (hp_mem h) pre c n post) =
         arena_of (hp_mem h) pre @ split_arena (unat (hb_size (hp_mem h c))) (unat n)
           False (arena_of (hp_mem h) post)"
  obtains h2 xs2 where "kfree (Some (c + HEAP_HDR)) h1 = ret h2" and "heap_rep pool h2 xs2"
    and "arena_of (hp_mem h2) xs2 = arena_of (hp_mem h) (pre @ c # post)"
proof -
  obtain post1 where post1: "split_chain (hp_mem h) pre c n post = pre @ c # post1"
    using split_chain_tail by blast
  note frame = kmalloc_ok_frame [OF ar]
  obtain h2 xs2 where k: "kfree (Some (c + HEAP_HDR)) h1 = ret h2" "heap_rep pool h2 xs2"
    and ar2: "arena_of (hp_mem h2) xs2 = arena_free (arena_of (hp_mem h1) pre)
      (unat (hb_size (hp_mem h1 c))) (arena_of (hp_mem h1) post1)"
    using kfree_refines [OF rep1 [unfolded post1] frame(3)] by metis
  have co: "coalesced (arena_of (hp_mem h) pre @ (unat (hb_size (hp_mem h c)), True) # arena_of (hp_mem h) post)"
    using rep fit(1) by (simp add: heap_rep_def)
  have "arena_of (hp_mem h1) pre = arena_of (hp_mem h) pre"
    and tl: "split_arena (unat (hb_size (hp_mem h c))) (unat n) False (arena_of (hp_mem h) post) =
      (unat (hb_size (hp_mem h1 c)), False) # arena_of (hp_mem h1) post1"
    using ar frame(3) unfolding post1 by simp_all
  then have "arena_of (hp_mem h2) xs2 = arena_of (hp_mem h) (pre @ c # post)"
    using arena_roundtrip [OF co _ tl] fit unfolding ar2 by (simp add: word_le_nat_alt)
  with k show ?thesis by (rule that)
qed

lemma kmalloc_step:
  assumes rep: "heap_rep pool h xs" and nz: "sz \<noteq> 0"
  shows "\<exists>p h' xs'. kmalloc sz h = ret (p, h') \<and> heap_rep pool h' xs'
    \<and> live_ptrs (hp_mem h') xs' = set_option p \<union> live_ptrs (hp_mem h) xs
    \<and> hp_acquires h' = hp_acquires h + 1"
proof -
  from rep nz obtain p h' where "kmalloc sz h = ret (p, h')" "hp_acquires h' = hp_acquires h + 1"
    by (rule kmalloc_refines) blast+
  with kmalloc_live [OF rep] show ?thesis by blast
qed

lemma kmalloc_fresh:
  assumes rep: "heap_rep pool h xs" and km: "kmalloc sz h = ret (Some p, h')"
  shows "p \<notin> live_ptrs (hp_mem h) xs"
proof -
  have "sz \<noteq> 0" using km by (auto simp: kmalloc_def)
  with rep show ?thesis
    by (rule kmalloc_refines) (use km in \<open>auto simp: live_ptrs_def\<close>)
qed

lemma kfree_step:
  assumes rep: "heap_rep pool h xs" and p: "set_option p \<subseteq> live_ptrs (hp_mem h) xs"
  shows "\<exists>h' xs'. kfree p h = ret h' \<and> heap_rep pool h' xs'
    \<and> live_ptrs (hp_mem h') xs' = live_ptrs (hp_mem h) xs - set_option p
    \<and> hp_acquires h' = hp_acquires h + (if p = None then 0 else 1)"
proof (cases p)
  case None
  then show ?thesis using rep by (auto simp: kfree_def)
next
  case (Some q)
  with p obtain b where b: "b \<in> set xs" "\<not> hb_free (hp_mem h b)" "q = b + HEAP_HDR"
    by (auto simp: live_ptrs_def)
  then obtain pre post where xs: "xs = pre @ b # post" by (meson split_list)
  from kfree_refines [OF rep [unfolded xs] b(2)] obtain h' where
    "kfree (Some q) h = ret h'" "hp_acquires h' = hp_acquires h + 1"
    unfolding b(3) by metis
  with kfree_live [OF rep, of q] p Some show ?thesis by auto
qed

lemma selftest_rep:
  assumes rep: "heap_rep pool h xs"
  shows "\<exists>st h' xs'. heap_lock_selftest h = ret (st, h') \<and> st \<in> {AIOS_OK, AIOS_ERR_NOMEM}
    \<and> heap_rep pool h' xs' \<and> live_ptrs (hp_mem h') xs' = live_ptrs (hp_mem h) xs
    \<and> (st = AIOS_OK \<longrightarrow> hp_acquires h' = hp_acquires h + 4)"
proof -
  let ?L = "live_ptrs (hp_mem h) xs"
  obtain a h1 x1 where s1: "kmalloc 64 h = ret (a, h1)" "heap_rep pool h1 x1"
    "live_ptrs (hp_mem h1) x1 = set_option a \<union> ?L" "hp_acquires h1 = hp_acquires h + 1"
    using kmalloc_step [OF rep, of 64] by auto
  obtain b h2 x2 where s2: "kmalloc 128 h1 = ret (b, h2)" "heap_rep pool h2 x2"
    "live_ptrs (hp_mem h2) x2 = set_option b \<union> (set_option a \<union> ?L)" "hp_acquires h2 = hp_acquires h + 2"
    using kmalloc_step [OF s1(2), of 128] s1(3,4) by auto
  have fresh: "set_option a \<inter> ?L = {}" "set_option b \<inter> (set_option a \<union> ?L) = {}"
    using kmalloc_fresh [OF rep, of 64] kmalloc_fresh [OF s1(2), of 128] s1 s2
    by (cases a; cases b; auto)+
  obtain h3 x3 where s3: "kfree a h2 = ret h3" "heap_rep pool h3 x3"
    "live_ptrs (hp_mem h3) x3 = set_option b \<union> ?L"
    "hp_acquires h3 = hp_acquires h + 2 + (if a = None then 0 else 1)"
    using kfree_step [OF s2(2), of a] s2(3,4) fresh by auto blast+
  obtain h4 x4 where s4: "kfree b h3 = ret h4" "heap_rep pool h4 x4" "live_ptrs (hp_mem h4) x4 = ?L"
    "hp_acquires h4 = hp_acquires h + 2 + (if a = None then 0 else 1) + (if b = None then 0 else 1)"
    using kfree_step [OF s3(2), of b] s3(3,4) fresh by (auto simp: Un_Diff Diff_triv Int_Un_distrib Int_commute)
  have lk: "\<not> hp_lock h" "\<not> hp_lock h4" using rep s4(2) by (simp_all add: heap_rep_def)
  show ?thesis
    using s1(1) s2(1) s3(1) s4 lk by (auto simp: heap_lock_selftest_def Let_def)
qed

lemma heap_w0_run: "heap_run 0x200000 heap_w0 {}"
  unfolding heap_w0_def by (rule heap_run.init) (simp add: heap_boot_def)

lemma pool_ok_w: "pool_ok 0x200000"
  by (simp add: pool_ok_def)

lemma heap_w1_kmalloc: "kmalloc 64 heap_w0 = ret (Some 0x200020, heap_w1)"
  by (simp add: heap_w1_def heap_w0_def heap_init_def heap_boot_def kmalloc_def spinlock_irqsave_eq
      first_fit.simps [of _ _ "Some _"] round_up_def)

lemma heap_w1_run: "heap_run 0x200000 heap_w1 {0x200020}"
  using heap_run.alloc [OF heap_w0_run heap_w1_kmalloc] .

lemma kmalloc_w1: "\<exists>h'. kmalloc 100 heap_w1 = ret (Some 0x200080, h')"
  by (simp add: heap_w1_def heap_w0_def heap_init_def heap_boot_def kmalloc_def spinlock_irqsave_eq
      first_fit.simps [of _ _ "Some _"] round_up_def split_block_def take_block_def set_blocks_def
      spinlock_irqrestore_def spinlock_unlock_def upd_def upd_opt_def Let_def)

lemma heap_w1_simps:
  "hp_mem heap_w1 0x200000 = \<lparr>hb_size = 64, hb_magic = HEAP_MAGIC_USED, hb_free = False,
     hb_next = Some 0x200060, hb_prev = None\<rparr>"
  "hp_mem heap_w1 0x200060 = \<lparr>hb_size = 2097024, hb_magic = HEAP_MAGIC_FREE, hb_free = True,
     hb_next = None, hb_prev = Some 0x200000\<rparr>"
  "hp_head heap_w1 = Some 0x200000"
  by (simp_all add: heap_w1_def heap_w0_def heap_init_def heap_boot_def kmalloc_def spinlock_irqsave_eq
      first_fit.simps [of _ _ "Some _"] round_up_def split_block_def take_block_def set_blocks_def
      spinlock_irqrestore_def spinlock_unlock_def upd_def upd_opt_def Let_def)

lemma heap_w1_rep: "heap_rep 0x200000 heap_w1 [0x200000, 0x200060]"
proof -
  from heap_run_rep [OF heap_w1_run pool_ok_w] obtain xs where rep: "heap_rep 0x200000 heap_w1 xs" by blast
  have "hb.chain (hp_mem heap_w1) (hp_head heap_w1) [0x200000, 0x200060]"
    by (simp add: heap_w1_simps hb.chain_def dlist_def hb.nexts_app hb.prevs_app)
  moreover have "hb.chain (hp_mem heap_w1) (hp_head heap_w1) xs"
    using rep by (simp add: heap_rep_def chain_ok_def)
  ultimately have "xs = [0x200000, 0x200060]" by (metis hb.chain_unique)
  with rep show ?thesis by simp
qed

section \<open>Properties\<close>

lemma kmalloc_safe:
  assumes "pool_ok pool" and "heap_run pool h L" and "unat sz + 15 < 2 ^ 64"
    and "kmalloc sz h = ret (Some p, h')"
  shows "p \<notin> L" and "16 dvd unat p" and "unat pool + 32 \<le> unat p"
    and "unat sz \<le> payload h' p" and "unat p + payload h' p \<le> unat pool + 2097152"
    and "q \<in> L \<Longrightarrow> payload h' q = payload h q
       \<and> (unat p + payload h' p + 32 \<le> unat q \<or> unat q + payload h q + 32 \<le> unat p)"
proof -
  from heap_run_rep [OF assms(2,1)] obtain xs where
    rep: "heap_rep pool h xs" and L: "L = live_ptrs (hp_mem h) xs" by blast
  have nz: "sz \<noteq> 0" using assms(4) by (auto simp: kmalloc_def)
  note ge = round_up_ge(1) [OF assms(3)]
  from rep nz obtain pre c post where xs: "xs = pre @ c # post" and p: "p = c + HEAP_HDR"
    and fit: "hb_free (hp_mem h c)" "round_up sz \<le> hb_size (hp_mem h c)"
    and rep': "heap_rep pool h' (split_chain (hp_mem h) pre c (round_up sz) post)"
    and ar: "arena_of (hp_mem h') (split_chain (hp_mem h) pre c (round_up sz) post) =
         arena_of (hp_mem h) pre @ split_arena (unat (hb_size (hp_mem h c))) (unat (round_up sz))
           False (arena_of (hp_mem h) post)"
    by (rule kmalloc_refines) (use assms(4) in auto)
  let ?xs = "split_chain (hp_mem h) pre c (round_up sz) post"
  note frame = kmalloc_ok_frame [OF ar]
  have ch: "chain_ok pool h xs" "chain_ok pool h' ?xs" using rep rep' by (simp_all add: heap_rep_def)
  have c: "c \<in> set ?xs" by (simp add: split_chain_def)
  note b = chain_ok_facts(3,4,5,6) [OF ch(2)]
  have up: "unat p = unat c + 32"
    using b(1) [OF c] b(4) p by (simp add: unat_add_no_wrap)
  have pay: "payload h' p = unat (hb_size (hp_mem h' c))" by (simp add: payload_def p)
  show "p \<notin> L" using fit(1) by (auto simp: L live_ptrs_def p)
  show "16 dvd unat p" using b(3) [OF c] up by simp
  show "unat pool + 32 \<le> unat p" using b(2) [OF c] up by simp
  show "unat sz \<le> payload h' p"
    using frame(2) ge fit(2) by (simp add: pay word_le_nat_alt)
  show "unat p + payload h' p \<le> unat pool + 2097152" using b(1) [OF c] up pay by simp
  show "payload h' q = payload h q
       \<and> (unat p + payload h' p + 32 \<le> unat q \<or> unat q + payload h q + 32 \<le> unat p)" if "q \<in> L"
  proof -
    note q = live_ptr_addr [OF ch(1) that [unfolded L]]
    have in_rest: "q - HEAP_HDR \<in> set (pre @ post)" and ne: "q - HEAP_HDR \<noteq> c"
      using q(1,2) fit(1) xs by auto
    then have qx: "q - HEAP_HDR \<in> set ?xs" by (auto simp: split_chain_def)
    have sz: "hb_size (hp_mem h' (q - HEAP_HDR)) = hb_size (hp_mem h (q - HEAP_HDR))"
      using frame(1) [OF in_rest] .
    have "tiles (hp_mem h') (unat pool) ?xs (unat pool + 2097152)" using ch(2) by (simp add: chain_ok_def)
    from tiles_disjoint [OF this c qx] ne show ?thesis
      using sz up q(3) by (auto simp: payload_def p)
  qed
qed


text \<open>
  C6: progress of the allocator.  After any sequence of \<open>kmalloc\<close> and \<open>kfree\<close> calls on
  an initialised pool, \<open>kmalloc\<close> returns for every size and \<open>kfree\<close> returns for every
  pointer that is still allocated: neither panics, walks the chain forever or deadlocks
  on the heap lock.
\<close>

theorem heap_never_stuck:
  assumes "pool_ok pool" and "heap_run pool h L"
  shows "(\<exists>r. kmalloc sz h = ret r) \<and> (\<forall>p \<in> L. \<exists>h'. kfree (Some p) h = ret h')"
proof -
  from heap_run_rep [OF assms(2,1)] obtain xs where
    rep: "heap_rep pool h xs" and L: "L = live_ptrs (hp_mem h) xs" by blast
  have "\<exists>r. kmalloc sz h = ret r"
    using kmalloc_step [OF rep, of sz] by (cases "sz = 0") (auto simp: kmalloc_def)
  then show ?thesis using kfree_live [OF rep] L by blast
qed

theorem heap_never_stuck_witness:
  "pool_ok 0x200000 \<and> heap_run 0x200000 heap_w1 {0x200020} \<and>
   (\<exists>h'. kfree (Some 0x200020) heap_w1 = ret h')"
  using heap_never_stuck [OF pool_ok_w heap_w1_run, of 0] pool_ok_w heap_w1_run by blast

text \<open>
  C2: memory safety of \<open>kmalloc\<close>.  In every state a run reaches, a pointer returned for a
  request that does not overflow the rounding is new, 16-byte aligned, lies with its whole
  payload inside the pool behind a header, holds at least the requested bytes, and does
  not overlap the payload or header of any pointer still allocated, whose sizes it keeps.
\<close>

theorem kmalloc_memory_safe:
  assumes "pool_ok pool" and "heap_run pool h L" and "unat sz + 15 < 2 ^ 64"
    and "kmalloc sz h = ret (Some p, h')"
  shows "p \<notin> L \<and> 16 dvd unat p \<and> unat pool + 32 \<le> unat p \<and> unat sz \<le> payload h' p
    \<and> unat p + payload h' p \<le> unat pool + 2097152
    \<and> (\<forall>q \<in> L. payload h' q = payload h q
        \<and> (unat p + payload h' p + 32 \<le> unat q \<or> unat q + payload h q + 32 \<le> unat p))"
  using kmalloc_safe [OF assms] by blast

theorem kmalloc_memory_safe_witness:
  "\<exists>h'. kmalloc 100 heap_w1 = ret (Some 0x200080, h') \<and> 100 \<le> payload h' 0x200080
     \<and> payload h' 0x200020 = payload heap_w1 0x200020
     \<and> payload heap_w1 0x200020 \<le> 64"
proof -
  obtain h' where k: "kmalloc 100 heap_w1 = ret (Some 0x200080, h')" using kmalloc_w1 by blast
  from kmalloc_memory_safe [OF pool_ok_w heap_w1_run _ k] k show ?thesis by auto
qed

text \<open>
  C7: \<open>kmalloc\<close> implements first-fit allocation on the arena.  On a well-formed heap it
  always returns; it returns NULL and leaves the blocks alone exactly when no free block
  fits, and otherwise returns the payload of the first block that fits, the blocks
  becoming those of \<open>arena_alloc\<close> (split when the remainder holds another block).
\<close>

theorem kmalloc_implements_arena_alloc:
  assumes "heap_rep pool h xs" and "sz \<noteq> 0"
  shows "\<exists>p h' xs'. kmalloc sz h = ret (p, h') \<and> heap_rep pool h' xs' \<and>
     (case arena_alloc (unat (round_up sz)) (arena_of (hp_mem h) xs) of
        None \<Rightarrow> p = None \<and> arena_of (hp_mem h') xs' = arena_of (hp_mem h) xs
      | Some (i, bs) \<Rightarrow> p = Some (xs ! i + HEAP_HDR) \<and> arena_of (hp_mem h') xs' = bs)"
  using assms
proof (cases rule: kmalloc_refines)
  case (oom h')
  then show ?thesis by auto
next
  case (ok h' pre c post)
  then show ?thesis by (auto simp: nth_append)
qed

theorem kmalloc_implements_arena_alloc_witness:
  "\<exists>h' xs'. kmalloc 64 heap_w0 = ret (Some 0x200020, h')
     \<and> arena_of (hp_mem h') xs' = [(64, False), (2097024, True)]"
proof -
  have rep: "heap_rep 0x200000 heap_w0 [0x200000]"
    unfolding heap_w0_def by (rule heap_init_rep [OF pool_ok_w]) (simp add: heap_boot_def)
  have "arena_alloc (unat (round_up 64)) (arena_of (hp_mem heap_w0) [0x200000])
      = Some (0, [(64, False), (2097024, True)])"
    by (simp add: heap_w0_def heap_init_def round_up_def arena_of_def)
  with kmalloc_implements_arena_alloc [OF rep, of 64] show ?thesis by auto
qed

text \<open>
  C4: \<open>kfree\<close> implements release with coalescing on the arena.  Freeing the payload of a
  block in use always returns, and the blocks become those of \<open>arena_free\<close>: the block is
  free and merged with a free successor and a free predecessor, their headers included.
\<close>

theorem kfree_implements_arena_free:
  assumes "heap_rep pool h xs" and "i < length xs" and "\<not> hb_free (hp_mem h (xs ! i))"
  shows "\<exists>h' xs'. kfree (Some (xs ! i + HEAP_HDR)) h = ret h' \<and> heap_rep pool h' xs' \<and>
     arena_of (hp_mem h') xs' =
       (let bs = arena_of (hp_mem h) xs in arena_free (take i bs) (fst (bs ! i)) (drop (Suc i) bs))"
proof -
  have "xs = take i xs @ xs ! i # drop (Suc i) xs" using assms(2) by (simp add: id_take_nth_drop)
  with assms(1,3) obtain h' xs' where "kfree (Some (xs ! i + HEAP_HDR)) h = ret h'" "heap_rep pool h' xs'"
    "arena_of (hp_mem h') xs' = arena_free (arena_of (hp_mem h) (take i xs))
       (unat (hb_size (hp_mem h (xs ! i)))) (arena_of (hp_mem h) (drop (Suc i) xs))"
    by (metis kfree_refines)
  then show ?thesis using assms(2) by (auto simp: arena_of_def take_map drop_map)
qed

theorem kfree_implements_arena_free_witness:
  "\<exists>h' xs'. kfree (Some 0x200020) heap_w1 = ret h' \<and> arena_of (hp_mem h') xs' = [(2097120, True)]"
proof -
  have "arena_of (hp_mem heap_w1) [0x200000, 0x200060] = [(64, False), (2097024, True)]"
    and u: "\<not> hb_free (hp_mem heap_w1 0x200000)"
    by (simp_all add: arena_of_def heap_w1_simps)
  with kfree_implements_arena_free [OF heap_w1_rep, of 0] show ?thesis
    by (auto simp: arena_free_def)
qed

text \<open>
  C8: freeing what was just allocated undoes the allocation: \<open>kfree\<close> returns, the blocks of
  the pool are again those before \<open>kmalloc\<close>, and so are the used, free and block counts.
\<close>

theorem kmalloc_kfree_roundtrip:
  assumes "heap_rep pool h xs" and "kmalloc sz h = ret (Some p, h1)"
  shows "\<exists>h2 xs2. kfree (Some p) h1 = ret h2 \<and> heap_rep pool h2 xs2
     \<and> arena_of (hp_mem h2) xs2 = arena_of (hp_mem h) xs
     \<and> hst_used (hp_stats h2) = hst_used (hp_stats h)
     \<and> hst_free (hp_stats h2) = hst_free (hp_stats h)
     \<and> hst_blocks (hp_stats h2) = hst_blocks (hp_stats h)"
proof -
  have nz: "sz \<noteq> 0" using assms(2) by (auto simp: kmalloc_def)
  with assms(1) show ?thesis
  proof (cases rule: kmalloc_refines)
    case (oom h')
    with assms(2) show ?thesis by simp
  next
    case (ok h' pre c post)
    then have eq: "h' = h1" "p = c + HEAP_HDR" "xs = pre @ c # post" using assms(2) by simp_all
    from kmalloc_kfree_arena [of pool h pre c post] ok assms(1) obtain h2 xs2 where
      k: "kfree (Some p) h1 = ret h2" "heap_rep pool h2 xs2" "arena_of (hp_mem h2) xs2 = arena_of (hp_mem h) xs"
      unfolding eq by metis
    with heap_rep_stats_unique [OF assms(1) k(2,3)] show ?thesis by blast
  qed
qed

theorem kmalloc_kfree_roundtrip_witness:
  "\<exists>h2 xs2. kfree (Some 0x200020) heap_w1 = ret h2 \<and> arena_of (hp_mem h2) xs2 = [(2097120, True)]
     \<and> hst_free (hp_stats h2) = 2097120"
proof -
  have rep: "heap_rep 0x200000 heap_w0 [0x200000]"
    unfolding heap_w0_def by (rule heap_init_rep [OF pool_ok_w]) (simp add: heap_boot_def)
  have "arena_of (hp_mem heap_w0) [0x200000] = [(2097120, True)]" "hst_free (hp_stats heap_w0) = 2097120"
    by (simp_all add: heap_w0_def heap_init_def arena_of_def)
  with kmalloc_kfree_roundtrip [OF rep heap_w1_kmalloc] show ?thesis by auto
qed

text \<open>
  C9: a double free is detected.  Freeing a live pointer and then freeing it again at once
  panics with the double-free message, whether or not the block was merged meanwhile.
\<close>

theorem kfree_twice_panics:
  assumes "pool_ok pool" and "heap_run pool h L" and "p \<in> L" and "kfree (Some p) h = ret h'"
  shows "kfree (Some p) h' = panic ''kfree: double-free or heap corruption''"
proof -
  from heap_run_rep [OF assms(2,1)] obtain xs where
    rep: "heap_rep pool h xs" and L: "L = live_ptrs (hp_mem h) xs" by blast
  from assms(3) obtain b where b: "b \<in> set xs" "\<not> hb_free (hp_mem h b)" "p = b + HEAP_HDR"
    by (auto simp: L live_ptrs_def)
  then obtain pre post where xs: "xs = pre @ b # post" by (meson split_list)
  from kfree_refines [OF rep [unfolded xs] b(2)] assms(4) obtain xs' where rep': "heap_rep pool h' xs'"
    and m: "hp_mem h' = hp_mem (coalesce b (release_block b h))"
    unfolding b(3) by (metis run_inject(1))
  have "hb_magic (hp_mem h' b) \<noteq> HEAP_MAGIC_USED"
    unfolding m by (rule kfree_merged_magic) (use rep xs b(2) in \<open>auto simp: heap_rep_def\<close>)
  then show ?thesis using rep'
    by (simp add: kfree_def b(3) heap_rep_def spinlock_irqsave_eq)
qed

theorem kfree_twice_panics_witness:
  "\<exists>h'. kfree (Some 0x200020) heap_w1 = ret h'
     \<and> kfree (Some 0x200020) h' = panic ''kfree: double-free or heap corruption''"
proof -
  from heap_run_rep [OF heap_w1_run pool_ok_w] obtain xs where
    "heap_rep 0x200000 heap_w1 xs" "{0x200020} = live_ptrs (hp_mem heap_w1) xs" by blast
  then obtain h' where "kfree (Some 0x200020) heap_w1 = ret h'" using kfree_live by blast
  with kfree_twice_panics [OF pool_ok_w heap_w1_run _ this] show ?thesis by simp
qed



text \<open>
  C11: the rounding in \<open>kmalloc\<close> wraps.  On a freshly initialised pool every request of at
  least \<open>2\<^sup>6\<^sup>4 - 15\<close> bytes succeeds and returns a pointer to a block of zero bytes.
\<close>

theorem kmalloc_wraps_huge_requests:
  assumes "pool_ok pool" and "\<not> hp_lock h" and "- 15 \<le> sz"
  shows "\<exists>h'. kmalloc sz (snd (heap_init pool h)) = ret (Some (pool + HEAP_HDR), h')
     \<and> payload h' (pool + HEAP_HDR) = 0"
proof -
  let ?h = "snd (heap_init pool h)"
  have "unat (- 15 :: u64) \<le> unat sz" using assms(3) by (simp add: word_le_nat_alt)
  then have sz: "18446744073709551601 \<le> unat sz" by simp
  have "unat (sz + 15) = (unat sz + 15) mod 2 ^ 64" by (simp add: unat_word_ariths)
  also have "\<dots> < 16" using sz word_bounds(1) [of sz] by (simp add: mod_if) linarith
  finally have "unat (sz + 15) div 2 ^ 4 * 2 ^ 4 = 0" by simp
  then have "unat (round_up sz) = 0"
    using unat_and_not_mask [of "sz + 15" 4] by (simp add: round_up_def mask_numeral add.commute)
  then have r0: "round_up sz = 0" by (simp only: unsigned_eq_0_iff)
  have nz: "sz \<noteq> 0" using sz by auto
  from heap_init_rep [OF assms(1,2)] nz show ?thesis
  proof (cases rule: kmalloc_refines)
    case (oom h')
    then show ?thesis by (simp add: r0 heap_init_def)
  next
    case (ok h' pre c post)
    then have "pre = []" "c = pool" "post = []" by (auto simp: Cons_eq_append_conv)
    with ok kmalloc_ok_frame(2) [OF ok(7)] show ?thesis
      by (auto simp: r0 heap_init_def payload_def)
  qed
qed

theorem kmalloc_wraps_huge_requests_witness:
  "\<exists>h'. kmalloc 0xFFFFFFFFFFFFFFFF heap_w0 = ret (Some 0x200020, h') \<and> payload h' 0x200020 = 0"
proof -
  have "\<not> hp_lock heap_boot" by (simp add: heap_boot_def)
  moreover have "(- 15 :: u64) \<le> 0xFFFFFFFFFFFFFFFF" by (simp add: word_le_nat_alt)
  ultimately show ?thesis
    using kmalloc_wraps_huge_requests [OF pool_ok_w, of heap_boot "0xFFFFFFFFFFFFFFFF"]
    unfolding heap_w0_def by simp
qed

text \<open>
  C12: the boot self-test of the heap lock.  Run in any state the allocator reaches, it
  returns success or out-of-memory, never the I/O error that a missed acquisition or a
  held lock would give; success means exactly four acquisitions; and it returns every
  block it took.
\<close>

theorem heap_lock_selftest_sound:
  assumes "pool_ok pool" and "heap_run pool h L"
  shows "\<exists>st h' xs'. heap_lock_selftest h = ret (st, h') \<and> st \<in> {AIOS_OK, AIOS_ERR_NOMEM}
    \<and> heap_rep pool h' xs' \<and> live_ptrs (hp_mem h') xs' = L
    \<and> (st = AIOS_OK \<longrightarrow> heap_lock_acquire_count h' = heap_lock_acquire_count h + 4)"
proof -
  from heap_run_rep [OF assms(2,1)] obtain xs where
    "heap_rep pool h xs" and "L = live_ptrs (hp_mem h) xs" by blast
  with selftest_rep show ?thesis by (fastforce simp: heap_lock_acquire_count_def)
qed

theorem heap_lock_selftest_sound_witness:
  "\<exists>st h' xs'. heap_lock_selftest heap_w1 = ret (st, h') \<and> live_ptrs (hp_mem h') xs' = {0x200020}"
  using heap_lock_selftest_sound [OF pool_ok_w heap_w1_run] by blast

end
