(* ===== verification/Tensor_MM.thy ===== *)
theory Tensor_MM
  imports Linked_List "HOL-Library.Monad_Syntax"
begin

text \<open>
  The tensor memory manager of \<^verbatim>\<open>kernel/mm/tensor_mm.c\<close>: a best-fit allocator for the
  tensor, model, inference and DMA pools.  Free memory of each region is a doubly linked
  list of descriptors taken from the static array \<^verbatim>\<open>block_pool\<close>; live allocations are the
  first \<^verbatim>\<open>tensor_count\<close> entries of \<^verbatim>\<open>tensor_table\<close>.  A pointer into \<^verbatim>\<open>block_pool\<close> is
  its index.

  Enumerations keep their C representation, a 32-bit word, because the code guards
  against values outside the enumeration.  A call whose result is \<open>None\<close> has no defined
  result: a list walk that never ends, or a read outside \<^verbatim>\<open>dims\<close>.
\<close>

section \<open>Data\<close>

abbreviation MEM_REGION_KERNEL :: u32 where "MEM_REGION_KERNEL \<equiv> 0"
abbreviation MEM_REGION_TENSOR :: u32 where "MEM_REGION_TENSOR \<equiv> 1"
abbreviation MEM_REGION_MODEL :: u32 where "MEM_REGION_MODEL \<equiv> 2"
abbreviation MEM_REGION_INFERENCE :: u32 where "MEM_REGION_INFERENCE \<equiv> 3"
abbreviation MEM_REGION_DMA :: u32 where "MEM_REGION_DMA \<equiv> 4"
abbreviation MEM_REGION_GRADIENT :: u32 where "MEM_REGION_GRADIENT \<equiv> 5"
abbreviation MEM_REGION_ACTIVATION :: u32 where "MEM_REGION_ACTIVATION \<equiv> 6"
abbreviation MEM_REGION_KV_CACHE :: u32 where "MEM_REGION_KV_CACHE \<equiv> 7"

abbreviation MEM_LIFETIME_SHORT_TERM :: u32 where "MEM_LIFETIME_SHORT_TERM \<equiv> 0"
abbreviation MEM_LIFETIME_LONG_TERM :: u32 where "MEM_LIFETIME_LONG_TERM \<equiv> 1"
abbreviation MEM_LIFETIME_REALTIME :: u32 where "MEM_LIFETIME_REALTIME \<equiv> 2"
abbreviation MEM_LIFETIME_RANDOM :: u32 where "MEM_LIFETIME_RANDOM \<equiv> 3"

abbreviation DTYPE_FP32 :: u32 where "DTYPE_FP32 \<equiv> 0"
abbreviation DTYPE_FP16 :: u32 where "DTYPE_FP16 \<equiv> 1"
abbreviation DTYPE_BF16 :: u32 where "DTYPE_BF16 \<equiv> 2"
abbreviation DTYPE_INT8 :: u32 where "DTYPE_INT8 \<equiv> 3"
abbreviation DTYPE_INT4 :: u32 where "DTYPE_INT4 \<equiv> 4"
abbreviation DTYPE_FP64 :: u32 where "DTYPE_FP64 \<equiv> 5"
abbreviation DTYPE_INT32 :: u32 where "DTYPE_INT32 \<equiv> 6"
abbreviation DTYPE_INT16 :: u32 where "DTYPE_INT16 \<equiv> 7"

abbreviation MAX_BLOCKS :: u32 where "MAX_BLOCKS \<equiv> 4096"
abbreviation MAX_TENSORS :: u32 where "MAX_TENSORS \<equiv> 2048"
abbreviation NUM_REGIONS :: u32 where "NUM_REGIONS \<equiv> 8"

abbreviation USER_BASE :: u64 where "USER_BASE \<equiv> 0x4000000"
abbreviation USER_SIZE :: u64 where "USER_SIZE \<equiv> 0x200000"
abbreviation USER_END :: u64 where "USER_END \<equiv> 0x4200000"

record tensor_shape =
  sh_ndim :: u32
  sh_dims :: "u64 list"
  sh_strides :: "u64 list"
  sh_dtype :: u32

record mem_block =
  mb_base :: u64
  mb_size :: u64
  mb_type :: u32
  mb_is_free :: bool
  mb_is_huge :: bool
  mb_align :: u32
  mb_tensor_id :: u32
  mb_next :: "nat option"
  mb_prev :: "nat option"

record tensor_desc =
  ta_id :: u32
  ta_phys_addr :: u64
  ta_virt_addr :: u64
  ta_size :: u64
  ta_shape :: tensor_shape
  ta_region :: u32
  ta_lifetime :: u32
  ta_realtime_critical :: bool
  ta_stochastic :: bool
  ta_pinned :: bool
  ta_dma_capable :: bool
  ta_ref_count :: u32

record mem_stats =
  ms_total_memory :: u64
  ms_used_memory :: u64
  ms_free_memory :: u64
  ms_tensor_count :: u64
  ms_model_memory :: u64
  ms_inference_memory :: u64
  ms_dma_memory :: u64
  ms_short_term_memory :: u64
  ms_long_term_memory :: u64
  ms_realtime_memory :: u64
  ms_random_memory :: u64
  ms_fragmentation :: u64
  ms_peak_usage :: u64
  ms_alloc_count :: u64
  ms_free_count :: u64

record mem_pool =
  mp_base :: u64
  mp_size :: u64
  mp_type :: u32
  mp_name :: string

record tmm =
  tm_blocks :: "nat \<Rightarrow> mem_block"
  tm_next :: u32
  tm_table :: "nat \<Rightarrow> tensor_desc"
  tm_count :: u32
  tm_next_id :: u32
  tm_lists :: "u32 \<Rightarrow> nat option"
  tm_stats :: mem_stats
  tm_ready :: bool
  tm_excluded :: u64
  tm_pools :: "mem_pool list"

definition zero_stats :: mem_stats where
  "zero_stats = \<lparr>ms_total_memory = 0, ms_used_memory = 0, ms_free_memory = 0,
     ms_tensor_count = 0, ms_model_memory = 0, ms_inference_memory = 0, ms_dma_memory = 0,
     ms_short_term_memory = 0, ms_long_term_memory = 0, ms_realtime_memory = 0,
     ms_random_memory = 0, ms_fragmentation = 0, ms_peak_usage = 0,
     ms_alloc_count = 0, ms_free_count = 0\<rparr>"

text \<open>The static variables as the loader leaves them.\<close>

definition tmm_boot :: tmm where
  "tmm_boot = \<lparr>
     tm_blocks = (\<lambda>_. \<lparr>mb_base = 0, mb_size = 0, mb_type = 0, mb_is_free = False,
        mb_is_huge = False, mb_align = 0, mb_tensor_id = 0, mb_next = None, mb_prev = None\<rparr>),
     tm_next = 0,
     tm_table = (\<lambda>_. \<lparr>ta_id = 0, ta_phys_addr = 0, ta_virt_addr = 0, ta_size = 0,
        ta_shape = \<lparr>sh_ndim = 0, sh_dims = replicate 8 0, sh_strides = replicate 8 0, sh_dtype = 0\<rparr>,
        ta_region = 0, ta_lifetime = 0, ta_realtime_critical = False, ta_stochastic = False,
        ta_pinned = False, ta_dma_capable = False, ta_ref_count = 0\<rparr>),
     tm_count = 0,
     tm_next_id = 1,
     tm_lists = (\<lambda>_. None),
     tm_stats = zero_stats,
     tm_ready = False,
     tm_excluded = 0,
     tm_pools =
       [\<lparr>mp_base = 0, mp_size = MB 256, mp_type = MEM_REGION_TENSOR, mp_name = ''Tensor Pool''\<rparr>,
        \<lparr>mp_base = 0, mp_size = MB 512, mp_type = MEM_REGION_MODEL, mp_name = ''Model Pool''\<rparr>,
        \<lparr>mp_base = 0, mp_size = MB 128, mp_type = MEM_REGION_INFERENCE, mp_name = ''Inference Pool''\<rparr>,
        \<lparr>mp_base = 0, mp_size = MB 64, mp_type = MEM_REGION_DMA, mp_name = ''DMA Pool''\<rparr>]\<rparr>"

section \<open>Helpers\<close>

definition default_lifetime_for_region :: "u32 \<Rightarrow> u32" where
  "default_lifetime_for_region region =
     (if region = MEM_REGION_MODEL then MEM_LIFETIME_LONG_TERM
      else if region = MEM_REGION_INFERENCE \<or> region = MEM_REGION_ACTIVATION
              \<or> region = MEM_REGION_GRADIENT then MEM_LIFETIME_SHORT_TERM
      else if region = MEM_REGION_KV_CACHE then MEM_LIFETIME_REALTIME
      else if region = MEM_REGION_DMA then MEM_LIFETIME_REALTIME
      else MEM_LIFETIME_SHORT_TERM)"

definition stats_add_allocation_profile :: "tensor_desc \<Rightarrow> mem_stats \<Rightarrow> mem_stats" where
  "stats_add_allocation_profile ta st =
     (if ta_lifetime ta = MEM_LIFETIME_SHORT_TERM
      then st\<lparr>ms_short_term_memory := ms_short_term_memory st + ta_size ta\<rparr>
      else if ta_lifetime ta = MEM_LIFETIME_LONG_TERM
      then st\<lparr>ms_long_term_memory := ms_long_term_memory st + ta_size ta\<rparr>
      else if ta_lifetime ta = MEM_LIFETIME_REALTIME
      then st\<lparr>ms_realtime_memory := ms_realtime_memory st + ta_size ta\<rparr>
      else if ta_lifetime ta = MEM_LIFETIME_RANDOM
      then st\<lparr>ms_random_memory := ms_random_memory st + ta_size ta\<rparr>
      else st)"

definition stats_remove_allocation_profile :: "tensor_desc \<Rightarrow> mem_stats \<Rightarrow> mem_stats" where
  "stats_remove_allocation_profile ta st =
     (if ta_lifetime ta = MEM_LIFETIME_SHORT_TERM
      then st\<lparr>ms_short_term_memory := ms_short_term_memory st - ta_size ta\<rparr>
      else if ta_lifetime ta = MEM_LIFETIME_LONG_TERM
      then st\<lparr>ms_long_term_memory := ms_long_term_memory st - ta_size ta\<rparr>
      else if ta_lifetime ta = MEM_LIFETIME_REALTIME
      then st\<lparr>ms_realtime_memory := ms_realtime_memory st - ta_size ta\<rparr>
      else if ta_lifetime ta = MEM_LIFETIME_RANDOM
      then st\<lparr>ms_random_memory := ms_random_memory st - ta_size ta\<rparr>
      else st)"

definition alloc_block :: "tmm \<Rightarrow> nat option \<times> tmm" where
  "alloc_block t =
     (if MAX_BLOCKS \<le> tm_next t then (None, t)
      else
        let b = unat (tm_next t) in
        (Some b,
         t\<lparr>tm_next := tm_next t + 1,
           tm_blocks := upd (tm_blocks t) b
             (\<lambda>n. n\<lparr>mb_next := None, mb_prev := None, mb_is_free := True, mb_tensor_id := 0\<rparr>)\<rparr>))"

definition find_tensor :: "u32 \<Rightarrow> tmm \<Rightarrow> nat option" where
  "find_tensor tid t = find (\<lambda>i. ta_id (tm_table t i) = tid) [0..<unat (tm_count t)]"

definition free_list_insert :: "nat \<Rightarrow> u32 \<Rightarrow> tmm \<Rightarrow> tmm option" where
  "free_list_insert b type t =
     (let m = upd (tm_blocks t) b (mb_is_free_update (\<lambda>_. True));
          base = mb_base (m b);
          head = tm_lists t type
      in
      case head of
        None \<Rightarrow>
          let m1 = upd m b (mb_next_update (\<lambda>_. None));
              m2 = upd m1 b (mb_prev_update (\<lambda>_. None))
          in Some (t\<lparr>tm_blocks := m2, tm_lists := (tm_lists t)(type := Some b)\<rparr>)
      | Some h \<Rightarrow>
          if base < mb_base (m h) then
            let m1 = upd m b (mb_next_update (\<lambda>_. Some h));
                m2 = upd m1 b (mb_prev_update (\<lambda>_. None));
                m3 = upd m2 h (mb_prev_update (\<lambda>_. Some b))
            in Some (t\<lparr>tm_blocks := m3, tm_lists := (tm_lists t)(type := Some b)\<rparr>)
          else do {
            curr \<leftarrow> walk (\<lambda>r. mb_next (m r)) (\<lambda>r. mb_base (m r) < base) h;
            let m1 = upd m b (mb_next_update (\<lambda>_. mb_next (m curr)));
            let m2 = upd m1 b (mb_prev_update (\<lambda>_. Some curr));
            let m3 = upd_opt m2 (mb_next (m2 curr)) (mb_prev_update (\<lambda>_. Some b));
            let m4 = upd m3 curr (mb_next_update (\<lambda>_. Some b));
            Some (t\<lparr>tm_blocks := m4\<rparr>)
          })"

definition ranges_overlap :: "u64 \<Rightarrow> u64 \<Rightarrow> u64 \<Rightarrow> u64 \<Rightarrow> bool" where
  "ranges_overlap a_base a_end b_base b_end \<longleftrightarrow> a_base < b_end \<and> b_base < a_end"

definition add_initial_pool_block :: "u64 \<Rightarrow> u64 \<Rightarrow> u32 \<Rightarrow> tmm \<Rightarrow> (aios_status \<times> tmm) option" where
  "add_initial_pool_block base sz type t =
     (if sz = 0 then Some (AIOS_OK, t)
      else case alloc_block t of
        (None, t1) \<Rightarrow> Some (AIOS_ERR_NOMEM, t1)
      | (Some b, t1) \<Rightarrow> do {
          t2 \<leftarrow> free_list_insert b type (t1\<lparr>tm_blocks := upd (tm_blocks t1) b
            (\<lambda>n. n\<lparr>mb_base := base, mb_size := sz, mb_type := type, mb_is_free := True,
                   mb_is_huge := HUGE_PAGE_SIZE \<le> sz, mb_align := 64\<rparr>)\<rparr>);
          Some (AIOS_OK, t2\<lparr>tm_stats := (tm_stats t2)
            \<lparr>ms_total_memory := ms_total_memory (tm_stats t2) + sz,
             ms_free_memory := ms_free_memory (tm_stats t2) + sz\<rparr>\<rparr>)
        })"

text \<open>The exclusion checks; the list scans stop at the first offending block.\<close>

definition block_hits_hole :: "mem_block \<Rightarrow> bool" where
  "block_hits_hole n \<longleftrightarrow>
     (let e = mb_base n + mb_size n in
      mb_size n = 0 \<or> e < mb_base n \<or> ranges_overlap (mb_base n) e USER_BASE USER_END)"

definition free_list_excludes :: "tmm \<Rightarrow> u32 \<Rightarrow> bool option" where
  "free_list_excludes t type =
     scan (\<lambda>r. mb_next (tm_blocks t r))
       (\<lambda>r acc. if block_hits_hole (tm_blocks t r) then (False, True) else (acc, False))
       True (tm_lists t type)"

fun free_lists_from :: "tmm \<Rightarrow> u32 list \<Rightarrow> bool option" where
  "free_lists_from t [] = Some True"
| "free_lists_from t (type # types) =
     do { ok \<leftarrow> free_list_excludes t type;
          if ok then free_lists_from t types else Some False }"

definition free_lists_exclude_bootstrap_user_hole :: "tmm \<Rightarrow> bool option" where
  "free_lists_exclude_bootstrap_user_hole t = free_lists_from t [0, 1, 2, 3, 4, 5, 6, 7]"

definition active_tensors_exclude_bootstrap_user_hole :: "tmm \<Rightarrow> bool" where
  "active_tensors_exclude_bootstrap_user_hole t =
     list_all (\<lambda>i. let ta = tm_table t i in
       \<not> (ta_size ta = 0 \<or> UINT64_MAX - ta_size ta < ta_phys_addr ta)
       \<and> \<not> ranges_overlap (ta_phys_addr ta) (ta_phys_addr ta + ta_size ta) USER_BASE USER_END)
     [0..<unat (tm_count t)]"

definition allocation_excludes_bootstrap_user_hole :: "u64 \<Rightarrow> u64 \<Rightarrow> bool" where
  "allocation_excludes_bootstrap_user_hole base sz \<longleftrightarrow>
     \<not> (sz = 0 \<or> UINT64_MAX - sz < base)
     \<and> \<not> ranges_overlap base (base + sz) USER_BASE USER_END"

definition tensor_free_list_has_bootstrap_boundaries :: "tmm \<Rightarrow> bool option" where
  "tensor_free_list_has_bootstrap_boundaries t =
     map_option (\<lambda>(pre, suf). pre \<and> suf)
       (scan (\<lambda>r. mb_next (tm_blocks t r))
          (\<lambda>r (pre, suf).
             let n = tm_blocks t r in
             ((pre \<or> (mb_base n \<le> UINT64_MAX - mb_size n \<and> mb_base n + mb_size n = USER_BASE),
               suf \<or> mb_base n = USER_END), False))
          (mp_base (tm_pools t ! 0) = USER_BASE, False)
          (tm_lists t MEM_REGION_TENSOR))"

definition free_list_remove :: "nat \<Rightarrow> u32 \<Rightarrow> tmm \<Rightarrow> tmm" where
  "free_list_remove b type t =
     (let m = tm_blocks t;
          (m1, ls) = (case mb_prev (m b) of
              Some p \<Rightarrow> (upd m p (mb_next_update (\<lambda>_. mb_next (m b))), tm_lists t)
            | None \<Rightarrow> (m, (tm_lists t)(type := mb_next (m b))));
          m2 = upd_opt m1 (mb_next (m1 b)) (mb_prev_update (\<lambda>_. mb_prev (m1 b)));
          m3 = upd m2 b (mb_prev_update (\<lambda>_. None));
          m4 = upd m3 b (mb_next_update (\<lambda>_. None));
          m5 = upd m4 b (mb_is_free_update (\<lambda>_. False))
      in t\<lparr>tm_blocks := m5, tm_lists := ls\<rparr>)"

definition coalesce_block_next :: "nat \<Rightarrow> (nat \<Rightarrow> mem_block) \<Rightarrow> (nat \<Rightarrow> mem_block)" where
  "coalesce_block_next b m =
     (case mb_next (m b) of
        None \<Rightarrow> m
      | Some nx \<Rightarrow>
          if mb_is_free (m nx) \<and> mb_base (m b) + mb_size (m b) = mb_base (m nx) then
            let m1 = upd m b (mb_size_update (\<lambda>s. s + mb_size (m nx)));
                m2 = upd m1 b (mb_next_update (\<lambda>_. mb_next (m nx)))
            in upd_opt m2 (mb_next (m nx)) (mb_prev_update (\<lambda>_. Some b))
          else m)"

definition coalesce_block_prev :: "nat \<Rightarrow> (nat \<Rightarrow> mem_block) \<Rightarrow> (nat \<Rightarrow> mem_block)" where
  "coalesce_block_prev b m =
     (case mb_prev (m b) of
        None \<Rightarrow> m
      | Some pv \<Rightarrow>
          if mb_is_free (m pv) \<and> mb_base (m pv) + mb_size (m pv) = mb_base (m b) then
            let m1 = upd m pv (mb_size_update (\<lambda>s. s + mb_size (m b)));
                m2 = upd m1 pv (mb_next_update (\<lambda>_. mb_next (m b)))
            in upd_opt m2 (mb_next (m b)) (mb_prev_update (\<lambda>_. Some pv))
          else m)"

definition coalesce_blocks :: "nat \<Rightarrow> tmm \<Rightarrow> tmm" where
  "coalesce_blocks b t =
     t\<lparr>tm_blocks := coalesce_block_prev b (coalesce_block_next b (tm_blocks t))\<rparr>"

definition fits :: "u64 \<Rightarrow> u32 \<Rightarrow> mem_block \<Rightarrow> bool" where
  "fits sz alignment n \<longleftrightarrow>
     mb_is_free n \<and> sz \<le> mb_size n
     \<and> \<not> UINT64_MAX - (ucast alignment - 1) < mb_base n
     \<and> (let aligned_base = ALIGN_UP_u32 (mb_base n) alignment; waste = aligned_base - mb_base n in
        waste \<le> mb_size n \<and> sz \<le> mb_size n - waste
        \<and> allocation_excludes_bootstrap_user_hole aligned_base sz)"

definition find_best_fit :: "u32 \<Rightarrow> u64 \<Rightarrow> u32 \<Rightarrow> tmm \<Rightarrow> nat option option" where
  "find_best_fit type sz alignment t =
     map_option fst
       (scan (\<lambda>r. mb_next (tm_blocks t r))
          (\<lambda>r (best, best_size).
             (if fits sz alignment (tm_blocks t r) \<and> mb_size (tm_blocks t r) < best_size
              then (Some r, mb_size (tm_blocks t r)) else (best, best_size), False))
          (None, UINT64_MAX) (tm_lists t type))"

section \<open>Allocation\<close>

definition tensor_dtype_size :: "u32 \<Rightarrow> u64" where
  "tensor_dtype_size dtype =
     (if dtype = DTYPE_FP64 then 8
      else if dtype = DTYPE_FP32 \<or> dtype = DTYPE_INT32 then 4
      else if dtype = DTYPE_FP16 \<or> dtype = DTYPE_BF16 \<or> dtype = DTYPE_INT16 then 2
      else if dtype = DTYPE_INT8 then 1
      else if dtype = DTYPE_INT4 then 1
      else 0)"

definition tensor_dtype_valid :: "u32 \<Rightarrow> bool" where
  "tensor_dtype_valid dtype \<longleftrightarrow> dtype \<le> DTYPE_INT16"

definition tensor_total_size :: "tensor_shape option \<Rightarrow> u64 option" where
  "tensor_total_size shape =
     (case shape of
        None \<Rightarrow> Some 0
      | Some s \<Rightarrow>
          if sh_ndim s = 0 then Some 0
          else if length (sh_dims s) < unat (sh_ndim s) then None
          else
            let total_elements = fold (\<lambda>d acc. acc * d) (take (unat (sh_ndim s)) (sh_dims s)) 1 in
            if sh_dtype s = DTYPE_INT4 then Some ((total_elements + 1) div 2)
            else Some (total_elements * tensor_dtype_size (sh_dtype s)))"

text \<open>Carve the unaligned front off the chosen block.\<close>

definition split_prefix :: "nat \<Rightarrow> u64 \<Rightarrow> u32 \<Rightarrow> tmm \<Rightarrow> tmm option option" where
  "split_prefix b aligned_base region t =
     (let prefix_size = aligned_base - mb_base (tm_blocks t b) in
      if 0 < prefix_size then
        case alloc_block t of
          (None, _) \<Rightarrow> Some None
        | (Some p, t1) \<Rightarrow>
            let m1 = upd (tm_blocks t1) p (\<lambda>n. n\<lparr>mb_base := mb_base (tm_blocks t1 b),
                       mb_size := prefix_size, mb_type := region, mb_is_free := True\<rparr>);
                m2 = upd m1 b (\<lambda>n. n\<lparr>mb_base := aligned_base, mb_size := mb_size n - prefix_size\<rparr>)
            in map_option Some (free_list_insert p region (t1\<lparr>tm_blocks := m2\<rparr>))
      else Some (Some t))"

text \<open>Return what is left behind the allocation, when a descriptor is available.\<close>

definition split_remainder :: "nat \<Rightarrow> u64 \<Rightarrow> u32 \<Rightarrow> tmm \<Rightarrow> tmm option" where
  "split_remainder b sz region t =
     (if TENSOR_ALIGN < mb_size (tm_blocks t b) - sz then
        case alloc_block t of
          (None, t1) \<Rightarrow> Some t1
        | (Some r, t1) \<Rightarrow>
            let m1 = upd (tm_blocks t1) r (\<lambda>n. n\<lparr>mb_base := mb_base (tm_blocks t1 b) + sz,
                       mb_size := mb_size (tm_blocks t1 b) - sz, mb_type := region,
                       mb_is_free := True\<rparr>);
                m2 = upd m1 b (\<lambda>n. n\<lparr>mb_size := sz\<rparr>)
            in free_list_insert r region (t1\<lparr>tm_blocks := m2\<rparr>)
      else Some t)"

definition stats_on_alloc :: "u64 \<Rightarrow> tensor_desc \<Rightarrow> mem_stats \<Rightarrow> mem_stats" where
  "stats_on_alloc sz ta st =
     (let st1 = stats_add_allocation_profile ta
            (st\<lparr>ms_used_memory := ms_used_memory st + sz,
                ms_free_memory := ms_free_memory st - sz,
                ms_tensor_count := ms_tensor_count st + 1,
                ms_alloc_count := ms_alloc_count st + 1\<rparr>)
      in if ms_peak_usage st1 < ms_used_memory st1
         then st1\<lparr>ms_peak_usage := ms_used_memory st1\<rparr> else st1)"

text \<open>Take the block off its list and enter it in the tensor table.\<close>

definition record_tensor :: "nat \<Rightarrow> u32 \<Rightarrow> u32 \<Rightarrow> bool \<Rightarrow> bool \<Rightarrow> tmm \<Rightarrow> tensor_desc \<times> tmm" where
  "record_tensor b region lifetime rtc sto t =
     (let t1 = free_list_remove b region t;
          i = unat (tm_count t1);
          n = tm_blocks t1 b;
          ta = (tm_table t1 i)\<lparr>ta_id := tm_next_id t1, ta_phys_addr := mb_base n,
                 ta_virt_addr := mb_base n, ta_size := mb_size n, ta_region := region,
                 ta_lifetime := lifetime, ta_realtime_critical := rtc, ta_stochastic := sto,
                 ta_pinned := False, ta_dma_capable := (region = MEM_REGION_DMA),
                 ta_ref_count := 1\<rparr>
      in (ta, t1\<lparr>tm_next_id := tm_next_id t1 + 1,
                 tm_table := (tm_table t1)(i := ta),
                 tm_blocks := upd (tm_blocks t1) b
                   (\<lambda>n. n\<lparr>mb_tensor_id := ta_id ta, mb_is_free := False\<rparr>),
                 tm_count := tm_count t1 + 1,
                 tm_stats := stats_on_alloc (mb_size n) ta (tm_stats t1)\<rparr>))"

text \<open>
  The allocation entry point.  \<open>out\<close> says whether the caller passed a destination; the
  descriptor stored there is the second component of the result.
\<close>

definition tensor_alloc_aligned_profiled ::
  "u64 \<Rightarrow> u32 \<Rightarrow> u32 \<Rightarrow> u32 \<Rightarrow> bool \<Rightarrow> bool \<Rightarrow> bool \<Rightarrow> tmm \<Rightarrow> (aios_status \<times> tensor_desc option \<times> tmm) option" where
  "tensor_alloc_aligned_profiled sz0 align0 region lifetime rtc sto out t =
     (if \<not> out \<or> sz0 = 0 then Some (AIOS_ERR_INVAL, None, t)
      else if NUM_REGIONS \<le> region then Some (AIOS_ERR_INVAL, None, t)
      else if MAX_TENSORS \<le> tm_count t then Some (AIOS_ERR_NOMEM, None, t)
      else
        let alignment = (if align0 < 64 then 64 else align0) in
        if alignment AND (alignment - 1) \<noteq> 0 then Some (AIOS_ERR_INVAL, None, t)
        else if UINT64_MAX - (ucast alignment - 1) < sz0 then Some (AIOS_ERR_OVERFLOW, None, t)
        else
          let sz = ALIGN_UP_u32 sz0 alignment in
          if sz = 0 then Some (AIOS_ERR_OVERFLOW, None, t)
          else do {
            found \<leftarrow> find_best_fit region sz alignment t;
            case found of
              None \<Rightarrow> Some (AIOS_ERR_NOMEM, None, t)
            | Some b \<Rightarrow>
                let base = mb_base (tm_blocks t b); aligned_base = ALIGN_UP_u32 base alignment in
                if UINT64_MAX - (ucast alignment - 1) < base then Some (AIOS_ERR_OVERFLOW, None, t)
                else if \<not> allocation_excludes_bootstrap_user_hole aligned_base sz
                then Some (AIOS_ERR_IO, None, t)
                else do {
                  pre \<leftarrow> split_prefix b aligned_base region t;
                  case pre of
                    None \<Rightarrow> Some (AIOS_ERR_NOMEM, None, t)
                  | Some t1 \<Rightarrow> do {
                      t2 \<leftarrow> split_remainder b sz region t1;
                      let (ta, t3) = record_tensor b region lifetime rtc sto t2;
                      Some (AIOS_OK, Some ta, t3)
                    }
                }
          })"

definition tensor_alloc_profiled ::
  "tensor_shape option \<Rightarrow> u32 \<Rightarrow> u32 \<Rightarrow> bool \<Rightarrow> bool \<Rightarrow> bool \<Rightarrow> tmm \<Rightarrow> (aios_status \<times> tensor_desc option \<times> tmm) option" where
  "tensor_alloc_profiled shape region lifetime rtc sto out t =
     (if shape = None \<or> \<not> out then Some (AIOS_ERR_INVAL, None, t)
      else do {
        sz \<leftarrow> tensor_total_size shape;
        if sz = 0 then Some (AIOS_ERR_INVAL, None, t)
        else tensor_alloc_aligned_profiled (ALIGN_UP sz TENSOR_ALIGN) 64 region lifetime rtc sto out t
      })"

definition tensor_alloc ::
  "tensor_shape option \<Rightarrow> u32 \<Rightarrow> bool \<Rightarrow> tmm \<Rightarrow> (aios_status \<times> tensor_desc option \<times> tmm) option" where
  "tensor_alloc shape region out t =
     (let lifetime = default_lifetime_for_region region in
      tensor_alloc_profiled shape region lifetime (lifetime = MEM_LIFETIME_REALTIME) False out t)"

definition tensor_alloc_aligned ::
  "u64 \<Rightarrow> u32 \<Rightarrow> u32 \<Rightarrow> bool \<Rightarrow> tmm \<Rightarrow> (aios_status \<times> tensor_desc option \<times> tmm) option" where
  "tensor_alloc_aligned sz alignment region out t =
     (let lifetime = default_lifetime_for_region region in
      tensor_alloc_aligned_profiled sz alignment region lifetime
        (lifetime = MEM_LIFETIME_REALTIME) False out t)"

section \<open>Release\<close>

definition stats_on_free :: "tensor_desc \<Rightarrow> mem_stats \<Rightarrow> mem_stats" where
  "stats_on_free ta st =
     stats_remove_allocation_profile ta
       (st\<lparr>ms_used_memory := ms_used_memory st - ta_size ta,
           ms_free_memory := ms_free_memory st + ta_size ta,
           ms_tensor_count := ms_tensor_count st - 1,
           ms_free_count := ms_free_count st + 1\<rparr>)"

text \<open>Remove entry \<open>idx\<close> by moving the last one into its place.\<close>

definition table_remove :: "nat \<Rightarrow> tmm \<Rightarrow> tmm" where
  "table_remove idx t =
     (let lst = unat (tm_count t - 1) in
      t\<lparr>tm_table := (if idx < lst then (tm_table t)(idx := tm_table t lst) else tm_table t),
        tm_count := tm_count t - 1\<rparr>)"

definition tensor_free :: "u32 \<Rightarrow> tmm \<Rightarrow> (aios_status \<times> tmm) option" where
  "tensor_free tid t =
     (case find_tensor tid t of
        None \<Rightarrow> Some (AIOS_ERR_INVAL, t)
      | Some i \<Rightarrow>
          let ta = tm_table t i in
          if 1 < ta_ref_count ta then
            Some (AIOS_OK, t\<lparr>tm_table := upd (tm_table t) i (ta_ref_count_update (\<lambda>c. c - 1))\<rparr>)
          else
            case alloc_block t of
              (None, t1) \<Rightarrow> Some (AIOS_ERR_NOMEM, t1)
            | (Some b, t1) \<Rightarrow> do {
                t2 \<leftarrow> free_list_insert b (ta_region ta)
                  (t1\<lparr>tm_blocks := upd (tm_blocks t1) b
                     (\<lambda>n. n\<lparr>mb_base := ta_phys_addr ta, mb_size := ta_size ta,
                            mb_type := ta_region ta, mb_is_free := True, mb_tensor_id := 0\<rparr>)\<rparr>);
                let t3 = coalesce_blocks b t2;
                let t4 = t3\<lparr>tm_stats := stats_on_free ta (tm_stats t3)\<rparr>;
                Some (AIOS_OK, table_remove i t4)
              })"

section \<open>Model, DMA and cache allocations; references and pinning\<close>

definition model_alloc :: "u32 \<Rightarrow> u64 \<Rightarrow> bool \<Rightarrow> tmm \<Rightarrow> (aios_status \<times> tensor_desc option \<times> tmm) option" where
  "model_alloc model_id sz out t =
     tensor_alloc_aligned_profiled (ALIGN_UP sz HUGE_PAGE_SIZE) 0x200000 MEM_REGION_MODEL
       MEM_LIFETIME_LONG_TERM False False out t"

text \<open>
  The loop of \<^verbatim>\<open>model_free\<close>; the loop index is a 32-bit word, and \<^verbatim>\<open>i--\<close> before the
  increment of the loop makes the same index be examined again.
\<close>

partial_function (option) model_free_from :: "u32 \<Rightarrow> tmm \<Rightarrow> tmm option" where
  "model_free_from i t =
     (if i < tm_count t then
        if ta_region (tm_table t (unat i)) = MEM_REGION_MODEL then
          case tensor_free (ta_id (tm_table t (unat i))) t of
            None \<Rightarrow> None
          | Some (st, t1) \<Rightarrow> model_free_from (i - 1 + 1) t1
        else model_free_from (i + 1) t
      else Some t)"

definition model_free :: "u32 \<Rightarrow> tmm \<Rightarrow> (aios_status \<times> tmm) option" where
  "model_free model_id t = map_option (\<lambda>t1. (AIOS_OK, t1)) (model_free_from 0 t)"

definition dma_alloc :: "u64 \<Rightarrow> bool \<Rightarrow> tmm \<Rightarrow> (aios_status \<times> tensor_desc option \<times> tmm) option" where
  "dma_alloc sz out t =
     tensor_alloc_aligned_profiled (ALIGN_UP sz PAGE_SIZE) 4096 MEM_REGION_DMA
       MEM_LIFETIME_REALTIME True False out t"

definition dma_free :: "u32 \<Rightarrow> tmm \<Rightarrow> (aios_status \<times> tmm) option" where
  "dma_free tid t = tensor_free tid t"

definition kv_cache_alloc ::
  "u64 \<Rightarrow> u64 \<Rightarrow> u64 \<Rightarrow> u64 \<Rightarrow> u32 \<Rightarrow> bool \<Rightarrow> tmm \<Rightarrow> (aios_status \<times> tensor_desc option \<times> tmm) option" where
  "kv_cache_alloc num_layers num_heads head_dim seq_len dtype out t =
     (let elem_size = tensor_dtype_size dtype;
          total_size = 2 * num_layers * num_heads * head_dim * seq_len * elem_size
      in tensor_alloc_aligned_profiled (ALIGN_UP total_size HUGE_PAGE_SIZE) 0x200000
           MEM_REGION_KV_CACHE MEM_LIFETIME_REALTIME True False out t)"

definition kv_cache_resize :: "u32 \<Rightarrow> u64 \<Rightarrow> tmm \<Rightarrow> aios_status \<times> tmm" where
  "kv_cache_resize tid new_seq_len t = (AIOS_OK, t)"

definition set_entry :: "nat \<Rightarrow> (tensor_desc \<Rightarrow> tensor_desc) \<Rightarrow> tmm \<Rightarrow> tmm" where
  "set_entry i f t = t\<lparr>tm_table := upd (tm_table t) i f\<rparr>"

definition tensor_pin :: "u32 \<Rightarrow> tmm \<Rightarrow> aios_status \<times> tmm" where
  "tensor_pin tid t =
     (case find_tensor tid t of
        None \<Rightarrow> (AIOS_ERR_INVAL, t)
      | Some i \<Rightarrow> (AIOS_OK, set_entry i (ta_pinned_update (\<lambda>_. True)) t))"

definition tensor_unpin :: "u32 \<Rightarrow> tmm \<Rightarrow> aios_status \<times> tmm" where
  "tensor_unpin tid t =
     (case find_tensor tid t of
        None \<Rightarrow> (AIOS_ERR_INVAL, t)
      | Some i \<Rightarrow> (AIOS_OK, set_entry i (ta_pinned_update (\<lambda>_. False)) t))"

definition tensor_ref :: "u32 \<Rightarrow> tmm \<Rightarrow> aios_status \<times> tmm" where
  "tensor_ref tid t =
     (case find_tensor tid t of
        None \<Rightarrow> (AIOS_ERR_INVAL, t)
      | Some i \<Rightarrow> (AIOS_OK, set_entry i (ta_ref_count_update (\<lambda>c. c + 1)) t))"

definition tensor_unref :: "u32 \<Rightarrow> tmm \<Rightarrow> (aios_status \<times> tmm) option" where
  "tensor_unref tid t =
     (case find_tensor tid t of
        None \<Rightarrow> Some (AIOS_ERR_INVAL, t)
      | Some i \<Rightarrow>
          if ta_ref_count (tm_table t i) = 0 then Some (AIOS_ERR_INVAL, t)
          else
            let t1 = set_entry i (ta_ref_count_update (\<lambda>c. c - 1)) t in
            if ta_ref_count (tm_table t1 i) = 0 then tensor_free tid t1 else Some (AIOS_OK, t1))"

definition tensor_mm_bootstrap_user_range_excluded :: "tmm \<Rightarrow> bool option" where
  "tensor_mm_bootstrap_user_range_excluded t =
     (if \<not> tm_ready t then Some False
      else map_option (\<lambda>ok. ok \<and> active_tensors_exclude_bootstrap_user_hole t)
             (free_lists_exclude_bootstrap_user_hole t))"

definition tensor_info :: "u32 \<Rightarrow> bool \<Rightarrow> tmm \<Rightarrow> aios_status \<times> tensor_desc option" where
  "tensor_info tid out t =
     (case find_tensor tid t of
        None \<Rightarrow> (AIOS_ERR_INVAL, None)
      | Some i \<Rightarrow> if \<not> out then (AIOS_ERR_INVAL, None) else (AIOS_OK, Some (tm_table t i)))"

definition tensor_mm_stats :: "bool \<Rightarrow> tmm \<Rightarrow> mem_stats option" where
  "tensor_mm_stats out t = (if \<not> out then None else Some (tm_stats t))"

section \<open>Initialisation\<close>

text \<open>One pool: the bootstrap user window is cut out of a pool that overlaps it.\<close>

definition init_pool :: "u64 \<Rightarrow> u64 \<Rightarrow> u64 \<Rightarrow> u32 \<Rightarrow> tmm \<Rightarrow> (aios_status \<times> tmm) option" where
  "init_pool base sz pool_end type t =
     (if ranges_overlap base pool_end USER_BASE USER_END then
        let prefix_end = (if pool_end < USER_BASE then pool_end else USER_BASE);
            suffix_base = (if USER_END < base then base else USER_END);
            overlap_base = (if USER_BASE < base then base else USER_BASE);
            overlap_end = (if pool_end < USER_END then pool_end else USER_END);
            t1 = t\<lparr>tm_excluded := tm_excluded t + (overlap_end - overlap_base)\<rparr>
        in do {
          (st, t2) \<leftarrow> add_initial_pool_block base
             (if base < prefix_end then prefix_end - base else 0) type t1;
          if st \<noteq> AIOS_OK then Some (st, t2)
          else add_initial_pool_block suffix_base
                 (if suffix_base < pool_end then pool_end - suffix_base else 0) type t2
        }
      else add_initial_pool_block base sz type t)"

text \<open>The loop over \<^verbatim>\<open>memory_pools\<close>; the list holds the indices still to come.\<close>

fun init_pools :: "nat list \<Rightarrow> u64 \<Rightarrow> tmm \<Rightarrow> (aios_status \<times> tmm) option" where
  "init_pools [] pool_base t = Some (AIOS_OK, t)"
| "init_pools (i # is) pool_base t =
     (if UINT64_MAX - (HUGE_PAGE_SIZE - 1) < pool_base then Some (AIOS_ERR_OVERFLOW, t)
      else
        let pool = tm_pools t ! i;
            base = ALIGN_UP pool_base HUGE_PAGE_SIZE;
            t1 = t\<lparr>tm_pools := (tm_pools t)[i := pool\<lparr>mp_base := base\<rparr>]\<rparr>
        in
        if UINT64_MAX - mp_size pool < base then Some (AIOS_ERR_OVERFLOW, t1)
        else do {
          (st, t2) \<leftarrow> init_pool base (mp_size pool) (base + mp_size pool) (mp_type pool) t1;
          if st \<noteq> AIOS_OK then Some (st, t2) else init_pools is (base + mp_size pool) t2
        })"

text \<open>
  The boundary probe: allocate everything below the user window and one page, check where
  they landed, free both again, and restore the statistics and the next identifier.
  \<open>cleanup_free\<close> is one of the two frees behind the \<^verbatim>\<open>cleanup\<close> label.
\<close>

definition cleanup_free :: "tensor_desc option \<Rightarrow> bool \<Rightarrow> tmm \<Rightarrow> (bool \<times> tmm) option" where
  "cleanup_free live passed t =
     (case live of
        None \<Rightarrow> Some (passed, t)
      | Some ta \<Rightarrow> do {
          (st, t1) \<leftarrow> tensor_free (ta_id ta) t;
          Some (if st \<noteq> AIOS_OK then False else passed, t1)
        })"

definition probe_prefix :: "u64 \<Rightarrow> tmm \<Rightarrow> (bool \<times> tensor_desc option \<times> tmm) option" where
  "probe_prefix base t =
     (let prefix_size = USER_BASE - base in
      if 0 < prefix_size then do {
        (st, ta, t1) \<leftarrow> tensor_alloc_aligned prefix_size 64 MEM_REGION_TENSOR True t;
        case ta of
          None \<Rightarrow> Some (False, None, t1)
        | Some p \<Rightarrow> if st \<noteq> AIOS_OK then Some (False, None, t1)
            else Some (ta_phys_addr p = base \<and> ta_size p = prefix_size, Some p, t1)
      } else Some (True, None, t))"

definition probe_suffix :: "bool \<Rightarrow> tmm \<Rightarrow> (bool \<times> tensor_desc option \<times> tmm) option" where
  "probe_suffix go t =
     (if \<not> go then Some (False, None, t)
      else do {
        (st, ta, t1) \<leftarrow> tensor_alloc_aligned PAGE_SIZE 4096 MEM_REGION_TENSOR True t;
        case ta of
          None \<Rightarrow> Some (False, None, t1)
        | Some s \<Rightarrow> if st \<noteq> AIOS_OK then Some (False, None, t1)
            else Some (USER_END \<le> ta_phys_addr s
                   \<and> allocation_excludes_bootstrap_user_hole (ta_phys_addr s) (ta_size s), Some s, t1)
      })"

definition bootstrap_user_tensor_exclusion_selftest :: "tmm \<Rightarrow> (aios_status \<times> tmm) option" where
  "bootstrap_user_tensor_exclusion_selftest t =
     (let pool = tm_pools t ! 0 in
      if mp_type pool \<noteq> MEM_REGION_TENSOR \<or> USER_BASE < mp_base pool then Some (AIOS_ERR_IO, t)
      else do {
        (go, prefix, t1) \<leftarrow> probe_prefix (mp_base pool) t;
        (passed, suffix, t2) \<leftarrow> probe_suffix go t1;
        (passed3, t3) \<leftarrow> cleanup_free suffix passed t2;
        (passed4, t4) \<leftarrow> cleanup_free prefix passed3 t3;
        excluded \<leftarrow> (if passed4 then tensor_mm_bootstrap_user_range_excluded t4 else Some False);
        passed5 \<leftarrow> (if excluded then tensor_free_list_has_bootstrap_boundaries t4 else Some False);
        Some (if passed5 then AIOS_OK else AIOS_ERR_IO,
              t4\<lparr>tm_stats := tm_stats t, tm_next_id := tm_next_id t\<rparr>)
      })"

text \<open>The three calls with invalid arguments that initialisation expects to be rejected.\<close>

definition guard_probes :: "tmm \<Rightarrow> (bool \<times> tmm) option" where
  "guard_probes t =
     do {
       (s1, _, t1) \<leftarrow> tensor_alloc_aligned UINT64_MAX 0x4000000 MEM_REGION_TENSOR True t;
       if s1 \<noteq> AIOS_ERR_OVERFLOW then Some (False, t1)
       else do {
         (s2, _, t2) \<leftarrow> tensor_alloc_aligned PAGE_SIZE 4096 NUM_REGIONS True t1;
         if s2 \<noteq> AIOS_ERR_INVAL then Some (False, t2)
         else do {
           (s3, _, t3) \<leftarrow> tensor_alloc_aligned PAGE_SIZE 96 MEM_REGION_TENSOR True t2;
           Some (s3 = AIOS_ERR_INVAL, t3)
         }
       }
     }"

text \<open>
  \<^verbatim>\<open>tensor_mm_init\<close>; \<open>pool_start\<close> is the address of the linker symbol
  \<^verbatim>\<open>__tensor_pool_start\<close>.  Console output is left out.
\<close>

definition tensor_mm_init :: "u64 \<Rightarrow> tmm \<Rightarrow> (aios_status \<times> tmm) option" where
  "tensor_mm_init pool_start t0 =
     do {
       (st, t) \<leftarrow> init_pools [0, 1, 2, 3] pool_start
          (t0\<lparr>tm_stats := zero_stats, tm_ready := False, tm_excluded := 0\<rparr>);
       if st \<noteq> AIOS_OK then Some (st, t)
       else
         let t1 = t\<lparr>tm_ready := True\<rparr> in do {
           ok \<leftarrow> (if tm_excluded t1 \<noteq> USER_SIZE then Some False
                  else tensor_mm_bootstrap_user_range_excluded t1);
           if \<not> ok then Some (AIOS_ERR_IO, t1\<lparr>tm_ready := False\<rparr>)
           else do {
             (guards, t2) \<leftarrow> guard_probes t1;
             if \<not> guards then Some (AIOS_ERR_IO, t2\<lparr>tm_ready := False\<rparr>)
             else do {
               (st3, t3) \<leftarrow> bootstrap_user_tensor_exclusion_selftest t2;
               if st3 \<noteq> AIOS_OK then Some (AIOS_ERR_IO, t3\<lparr>tm_ready := False\<rparr>)
               else Some (AIOS_OK, t3)
             }
           }
         }
     }"

end
