(* ===== verification/Tensor_MM_Spec.thy ===== *)
theory Tensor_MM_Spec
  imports Tensor_MM "HOL-Library.Multiset"
begin

text \<open>
  What the tensor memory manager promises: the invariant of its state, the relations between
  the states before and after its operations, the public operations as one step function, and
  the states reachable through them.
\<close>

section \<open>What the manager promises\<close>

interpretation mb: linked_nodes mb_next mb_prev mb_next_update mb_prev_update
  by unfold_locales simp_all

text \<open>
  The specification counts owners.  \<open>rng b s a\<close> is 1 when address \<open>a\<close> lies in the \<open>s\<close> bytes
  at \<open>b\<close>, and 0 otherwise.  \<open>cover\<close> adds up, for one region and one address, the free
  blocks and the live tensors that contain it.  The invariant fixes the total to be 1 on
  the memory \<open>M r\<close> that region \<open>r\<close> manages and 0 elsewhere: nothing is lost, nothing is
  handed out twice.
\<close>

definition rng :: "nat \<Rightarrow> nat \<Rightarrow> nat \<Rightarrow> nat" where
  "rng b s a = (if b \<le> a \<and> a < b + s then 1 else 0)"

definition live :: "tmm \<Rightarrow> tensor_desc list" where
  "live t = map (tm_table t) [0..<unat (tm_count t)]"

definition bend :: "(nat \<Rightarrow> mem_block) \<Rightarrow> nat \<Rightarrow> nat" where
  "bend m x = unat (mb_base (m x)) + unat (mb_size (m x))"

definition free_cover :: "(nat \<Rightarrow> mem_block) \<Rightarrow> nat list \<Rightarrow> nat \<Rightarrow> nat" where
  "free_cover m xs a = sum_list (map (\<lambda>x. rng (unat (mb_base (m x))) (unat (mb_size (m x))) a) xs)"

definition live_cover :: "tensor_desc multiset \<Rightarrow> u32 \<Rightarrow> nat \<Rightarrow> nat" where
  "live_cover lv r a = (\<Sum>ta \<in># filter_mset (\<lambda>ta. ta_region ta = r) lv.
     rng (unat (ta_phys_addr ta)) (unat (ta_size ta)) a)"

text \<open>Free lists: well linked, in use from the descriptor pool, ordered by address.\<close>

definition list_ok :: "tmm \<Rightarrow> (u32 \<Rightarrow> nat list) \<Rightarrow> u32 \<Rightarrow> bool" where
  "list_ok t fl r \<longleftrightarrow>
     mb.chain (tm_blocks t) (tm_lists t r) (fl r)
   \<and> (\<forall>x \<in> set (fl r). x < unat (tm_next t) \<and> mb_is_free (tm_blocks t x) \<and> mb_size (tm_blocks t x) \<noteq> 0)
   \<and> (\<forall>r'. r' \<noteq> r \<longrightarrow> set (fl r) \<inter> set (fl r') = {})"

definition ordered :: "(nat \<Rightarrow> mem_block) \<Rightarrow> nat list \<Rightarrow> bool" where
  "ordered m xs = sorted_wrt (\<lambda>x y. bend m x \<le> unat (mb_base (m y))) xs"

definition lists_ok :: "tmm \<Rightarrow> (u32 \<Rightarrow> nat list) \<Rightarrow> bool" where
  "lists_ok t fl \<longleftrightarrow> (\<forall>r. list_ok t fl r \<and> ordered (tm_blocks t) (fl r))"

definition bytes :: "(nat \<Rightarrow> mem_block) \<Rightarrow> nat list \<Rightarrow> u64" where
  "bytes m xs = sum_list (map (\<lambda>x. mb_size (m x)) xs)"

definition separated :: "(nat \<Rightarrow> mem_block) \<Rightarrow> nat list \<Rightarrow> bool" where
  "separated m xs = successively (\<lambda>x y. bend m x < unat (mb_base (m y))) xs"

definition tensors_ok :: "tmm \<Rightarrow> bool" where
  "tensors_ok t \<longleftrightarrow>
     tm_count t \<le> MAX_TENSORS \<and> 1 \<le> tm_next_id t
   \<and> distinct (map ta_id (live t))
   \<and> (\<forall>ta \<in> set (live t). ta_size ta \<noteq> 0 \<and> ta_id ta < tm_next_id t \<and> ta_virt_addr ta = ta_phys_addr ta)"

text \<open>A sum over the four regions that have a pool.\<close>

definition region_sum :: "(u32 \<Rightarrow> 'a::comm_monoid_add) \<Rightarrow> 'a" where
  "region_sum f = f 1 + f 2 + f 3 + f 4"

text \<open>
  Each allocation uses up one free descriptor and descriptors are never recycled, so the
  identifiers handed out and the descriptors on the lists fit in the descriptor pool.
\<close>

definition budget_ok :: "tmm \<Rightarrow> (u32 \<Rightarrow> nat list) \<Rightarrow> bool" where
  "budget_ok t fl \<longleftrightarrow> tm_next t \<le> MAX_BLOCKS
     \<and> unat (tm_next_id t) - 1 + region_sum (\<lambda>r. length (fl r)) \<le> unat (tm_next t)"

definition lifetime_bytes :: "tensor_desc list \<Rightarrow> u32 \<Rightarrow> u64" where
  "lifetime_bytes tas k = sum_list (map ta_size (filter (\<lambda>ta. ta_lifetime ta = k) tas))"

definition mstats_ok :: "tmm \<Rightarrow> (u32 \<Rightarrow> nat list) \<Rightarrow> bool" where
  "mstats_ok t fl \<longleftrightarrow>
     ms_used_memory (tm_stats t) = sum_list (map ta_size (live t))
   \<and> ms_free_memory (tm_stats t) = region_sum (\<lambda>r. bytes (tm_blocks t) (fl r))
   \<and> ms_tensor_count (tm_stats t) = of_nat (length (live t))
   \<and> ms_short_term_memory (tm_stats t) = lifetime_bytes (live t) MEM_LIFETIME_SHORT_TERM
   \<and> ms_long_term_memory (tm_stats t) = lifetime_bytes (live t) MEM_LIFETIME_LONG_TERM
   \<and> ms_realtime_memory (tm_stats t) = lifetime_bytes (live t) MEM_LIFETIME_REALTIME
   \<and> ms_random_memory (tm_stats t) = lifetime_bytes (live t) MEM_LIFETIME_RANDOM
   \<and> ms_used_memory (tm_stats t) + ms_free_memory (tm_stats t) = ms_total_memory (tm_stats t)"

text \<open>Memory a configuration may manage: four disjoint regions below 4 GiB, outside the user window.\<close>

definition managed_ok :: "(u32 \<Rightarrow> nat set) \<Rightarrow> bool" where
  "managed_ok M \<longleftrightarrow>
     (\<forall>r. M r \<subseteq> {..<2 ^ 32} - {unat USER_BASE..<unat USER_END})
   \<and> (\<forall>r. r \<notin> {1, 2, 3, 4} \<longrightarrow> M r = {})
   \<and> (\<forall>r r'. r \<noteq> r' \<longrightarrow> M r \<inter> M r' = {})"

definition tmm_ok :: "(u32 \<Rightarrow> nat set) \<Rightarrow> tmm \<Rightarrow> (u32 \<Rightarrow> nat list) \<Rightarrow> bool" where
  "tmm_ok M t fl \<longleftrightarrow>
     managed_ok M
   \<and> lists_ok t fl
   \<and> (\<forall>r a. free_cover (tm_blocks t) (fl r) a + live_cover (mset (live t)) r a
            = (if a \<in> M r then 1 else 0))
   \<and> tensors_ok t \<and> budget_ok t fl \<and> mstats_ok t fl"

section \<open>Parts of the state and how operations relate them\<close>

definition core :: "mem_block \<Rightarrow> mem_block" where
  "core n = n\<lparr>mb_next := None, mb_prev := None\<rparr>"

definition apart :: "(nat \<Rightarrow> mem_block) \<Rightarrow> nat \<Rightarrow> nat \<Rightarrow> bool" where
  "apart m x y \<longleftrightarrow> bend m x \<le> unat (mb_base (m y)) \<or> bend m y \<le> unat (mb_base (m x))"

definition absorb_block :: "nat \<Rightarrow> nat \<Rightarrow> (nat \<Rightarrow> mem_block) \<Rightarrow> (nat \<Rightarrow> mem_block)" where
  "absorb_block x y m =
     upd_opt (upd (upd m x (mb_size_update (\<lambda>s. s + mb_size (m y)))) x (mb_next_update (\<lambda>_. mb_next (m y))))
       (mb_next (m y)) (mb_prev_update (\<lambda>_. Some x))"

text \<open>What merging two neighbours of a list keeps.\<close>

definition same_store :: "(nat \<Rightarrow> mem_block) \<Rightarrow> nat list \<Rightarrow> (nat \<Rightarrow> mem_block) \<Rightarrow> nat list \<Rightarrow> bool" where
  "same_store m xs m' xs' \<longleftrightarrow>
     (\<forall>a. free_cover m' xs' a = free_cover m xs a) \<and> bytes m' xs' = bytes m xs
   \<and> length xs' \<le> length xs \<and> set xs' \<subseteq> set xs \<and> (\<forall>z. z \<notin> set xs \<longrightarrow> core (m' z) = core (m z))"

definition tmm_inv :: "(u32 \<Rightarrow> nat set) \<Rightarrow> tmm \<Rightarrow> (u32 \<Rightarrow> nat list) \<Rightarrow> bool" where
  "tmm_inv M t fl \<longleftrightarrow> tmm_ok M t fl \<and> (\<forall>r. separated (tm_blocks t) (fl r))"

text \<open>The part of the state that splitting leaves alone.\<close>

definition same_tables :: "tmm \<Rightarrow> tmm \<Rightarrow> bool" where
  "same_tables t t' \<longleftrightarrow> tm_table t' = tm_table t \<and> tm_count t' = tm_count t
     \<and> tm_next_id t' = tm_next_id t \<and> tm_stats t' = tm_stats t \<and> tm_ready t' = tm_ready t
     \<and> tm_excluded t' = tm_excluded t \<and> tm_pools t' = tm_pools t"

text \<open>The table after a new entry: what a caller of the allocator can observe of it.\<close>

definition entered :: "tmm \<Rightarrow> u32 \<Rightarrow> u32 \<Rightarrow> tensor_desc \<Rightarrow> tmm \<Rightarrow> bool" where
  "entered t r lifetime ta t' \<longleftrightarrow>
     live t' = live t @ [ta] \<and> ta_region ta = r \<and> ta_lifetime ta = lifetime \<and> ta_ref_count ta = 1
   \<and> ta_id ta = tm_next_id t \<and> tm_next_id t' = tm_next_id t + 1
   \<and> tm_pools t' = tm_pools t \<and> tm_ready t' = tm_ready t \<and> tm_excluded t' = tm_excluded t
   \<and> ms_total_memory (tm_stats t') = ms_total_memory (tm_stats t)"

text \<open>
  The alignment an allocation really uses, the arguments it accepts, and the block it takes:
  the smallest one of the region that fits.
\<close>

definition eff_align :: "u32 \<Rightarrow> u32" where
  "eff_align align0 = (if align0 < 64 then 64 else align0)"

definition alloc_args_ok :: "u64 \<Rightarrow> u32 \<Rightarrow> u32 \<Rightarrow> bool \<Rightarrow> bool" where
  "alloc_args_ok sz0 align0 r has_out \<longleftrightarrow>
     has_out \<and> sz0 \<noteq> 0 \<and> r < NUM_REGIONS \<and> eff_align align0 AND (eff_align align0 - 1) = 0
   \<and> \<not> UINT64_MAX - (ucast (eff_align align0) - 1) < sz0 \<and> ALIGN_UP_u32 sz0 (eff_align align0) \<noteq> 0"

definition best_block :: "tmm \<Rightarrow> nat list \<Rightarrow> u64 \<Rightarrow> u32 \<Rightarrow> nat \<Rightarrow> bool" where
  "best_block t xs sz a b \<longleftrightarrow> b \<in> set xs \<and> fits sz a (tm_blocks t b)
     \<and> (\<forall>x \<in> set xs. fits sz a (tm_blocks t x) \<longrightarrow> mb_size (tm_blocks t b) \<le> mb_size (tm_blocks t x))"

definition no_room :: "tmm \<Rightarrow> nat list \<Rightarrow> u64 \<Rightarrow> u32 \<Rightarrow> bool" where
  "no_room t xs sz a \<longleftrightarrow> MAX_TENSORS \<le> tm_count t \<or> MAX_BLOCKS \<le> tm_next t
     \<or> (\<forall>x \<in> set xs. \<not> fits sz a (tm_blocks t x))"

text \<open>The new tensor \<open>ta\<close> lies at the aligned start of the best block.\<close>

definition placed :: "tmm \<Rightarrow> nat list \<Rightarrow> u64 \<Rightarrow> u32 \<Rightarrow> tensor_desc \<Rightarrow> bool" where
  "placed t xs sz a ta \<longleftrightarrow> (\<exists>b. best_block t xs sz a b
     \<and> ta_phys_addr ta = ALIGN_UP_u32 (mb_base (tm_blocks t b)) a \<and> sz \<le> ta_size ta
     \<and> unat (ta_phys_addr ta) + unat (ta_size ta) \<le> bend (tm_blocks t) b)"

text \<open>A tensor that leaves the table.\<close>

definition left_table :: "tmm \<Rightarrow> nat \<Rightarrow> tmm \<Rightarrow> bool" where
  "left_table t i t' \<longleftrightarrow>
     mset (live t) = add_mset (tm_table t i) (mset (live t')) \<and> (\<forall>j < i. tm_table t' j = tm_table t j) \<and> tm_next_id t' = tm_next_id t \<and> tm_next t' = tm_next t + 1
   \<and> tm_pools t' = tm_pools t \<and> tm_ready t' = tm_ready t \<and> tm_excluded t' = tm_excluded t
   \<and> ms_total_memory (tm_stats t') = ms_total_memory (tm_stats t)"

text \<open>Only the reference count and the pin flag differ.\<close>

definition same_range :: "tensor_desc \<Rightarrow> tensor_desc \<Rightarrow> bool" where
  "same_range ta ta' \<longleftrightarrow> ta_id ta' = ta_id ta \<and> ta_phys_addr ta' = ta_phys_addr ta
     \<and> ta_virt_addr ta' = ta_virt_addr ta \<and> ta_size ta' = ta_size ta
     \<and> ta_region ta' = ta_region ta \<and> ta_lifetime ta' = ta_lifetime ta"

definition models :: "tmm \<Rightarrow> tensor_desc multiset" where
  "models t = filter_mset (\<lambda>ta. ta_region ta = MEM_REGION_MODEL) (mset (live t))"

definition others :: "tmm \<Rightarrow> tensor_desc multiset" where
  "others t = filter_mset (\<lambda>ta. ta_region ta \<noteq> MEM_REGION_MODEL) (mset (live t))"

definition weight :: "tmm \<Rightarrow> nat" where
  "weight t = (\<Sum>ta \<in># models t. Suc (unat (ta_ref_count ta)))"

text \<open>The memory of each region once initialisation is done; \<open>p\<close> is the aligned start.\<close>

definition managed :: "nat \<Rightarrow> u32 \<Rightarrow> nat set" where
  "managed p r =
     (if r = MEM_REGION_TENSOR then {p..<p + 268435456} - {unat USER_BASE..<unat USER_END}
      else if r = MEM_REGION_MODEL then {p + 268435456..<p + 805306368}
      else if r = MEM_REGION_INFERENCE then {p + 805306368..<p + 939524096}
      else if r = MEM_REGION_DMA then {p + 939524096..<p + 1006632960}
      else {})"

text \<open>A manager that is still being set up: no tensor yet, few descriptors in use.\<close>

definition staged :: "(u32 \<Rightarrow> nat set) \<Rightarrow> nat \<Rightarrow> u64 \<Rightarrow> u64 \<Rightarrow> mem_pool list \<Rightarrow> tmm \<Rightarrow> bool" where
  "staged M k ex tot pools t \<longleftrightarrow> (\<exists>fl. tmm_inv M t fl) \<and> tm_count t = 0 \<and> unat (tm_next t) \<le> k
     \<and> tm_next_id t = 1 \<and> \<not> tm_ready t \<and> tm_excluded t = ex \<and> tm_pools t = pools
     \<and> ms_total_memory (tm_stats t) = tot"

definition same_frame :: "tmm \<Rightarrow> tmm \<Rightarrow> bool" where
  "same_frame t t' \<longleftrightarrow> tm_pools t' = tm_pools t \<and> tm_ready t' = tm_ready t \<and> tm_excluded t' = tm_excluded t
     \<and> ms_total_memory (tm_stats t') = ms_total_memory (tm_stats t)"

text \<open>The public operations of the manager, and the states they can reach.\<close>

datatype tmm_op =
    Tensor_Alloc "tensor_shape option" u32 bool
  | Tensor_Alloc_Profiled "tensor_shape option" u32 u32 bool bool bool
  | Tensor_Alloc_Aligned u64 u32 u32 bool
  | Tensor_Alloc_Aligned_Profiled u64 u32 u32 u32 bool bool bool
  | Tensor_Free u32
  | Model_Alloc u32 u64 bool
  | Model_Free u32
  | Dma_Alloc u64 bool
  | Dma_Free u32
  | Kv_Cache_Alloc u64 u64 u64 u64 u32 bool
  | Kv_Cache_Resize u32 u64
  | Tensor_Pin u32
  | Tensor_Unpin u32
  | Tensor_Ref u32
  | Tensor_Unref u32

fun tmm_step :: "tmm_op \<Rightarrow> tmm \<Rightarrow> tmm option" where
  "tmm_step (Tensor_Alloc sh r out) t = map_option (snd \<circ> snd) (tensor_alloc sh r out t)"
| "tmm_step (Tensor_Alloc_Profiled sh r l c s out) t = map_option (snd \<circ> snd) (tensor_alloc_profiled sh r l c s out t)"
| "tmm_step (Tensor_Alloc_Aligned sz al r out) t = map_option (snd \<circ> snd) (tensor_alloc_aligned sz al r out t)"
| "tmm_step (Tensor_Alloc_Aligned_Profiled sz al r l c s out) t =
     map_option (snd \<circ> snd) (tensor_alloc_aligned_profiled sz al r l c s out t)"
| "tmm_step (Tensor_Free tid) t = map_option snd (tensor_free tid t)"
| "tmm_step (Model_Alloc mid sz out) t = map_option (snd \<circ> snd) (model_alloc mid sz out t)"
| "tmm_step (Model_Free mid) t = map_option snd (model_free mid t)"
| "tmm_step (Dma_Alloc sz out) t = map_option (snd \<circ> snd) (dma_alloc sz out t)"
| "tmm_step (Dma_Free tid) t = map_option snd (dma_free tid t)"
| "tmm_step (Kv_Cache_Alloc nl nh dim sl ty out) t = map_option (snd \<circ> snd) (kv_cache_alloc nl nh dim sl ty out t)"
| "tmm_step (Kv_Cache_Resize tid n) t = Some (snd (kv_cache_resize tid n t))"
| "tmm_step (Tensor_Pin tid) t = Some (snd (tensor_pin tid t))"
| "tmm_step (Tensor_Unpin tid) t = Some (snd (tensor_unpin tid t))"
| "tmm_step (Tensor_Ref tid) t = Some (snd (tensor_ref tid t))"
| "tmm_step (Tensor_Unref tid) t = map_option snd (tensor_unref tid t)"

inductive tmm_run :: "u64 \<Rightarrow> tmm \<Rightarrow> bool" for start where
  init: "tensor_mm_init start tmm_boot = Some (AIOS_OK, t) \<Longrightarrow> tmm_run start t"
| step: "tmm_run start t \<Longrightarrow> tmm_step op t = Some t' \<Longrightarrow> tmm_run start t'"

definition good :: "(u32 \<Rightarrow> nat set) \<Rightarrow> tmm \<Rightarrow> bool" where
  "good M t \<longleftrightarrow> (\<exists>fl. tmm_inv M t fl) \<and> tm_ready t \<and> ms_total_memory (tm_stats t) = 0x3BE00000"

text \<open>Notions the properties are stated with.\<close>

definition span :: "tensor_desc \<Rightarrow> nat set" where
  "span ta = {unat (ta_phys_addr ta)..<unat (ta_phys_addr ta) + unat (ta_size ta)}"

definition user_window :: "nat set" where
  "user_window = {unat USER_BASE..<unat USER_END}"

definition free_list_of :: "tmm \<Rightarrow> u32 \<Rightarrow> nat list \<Rightarrow> bool" where
  "free_list_of t r xs = mb.chain (tm_blocks t) (tm_lists t r) xs"

definition block_span :: "tmm \<Rightarrow> nat \<Rightarrow> nat set" where
  "block_span t x = {unat (mb_base (tm_blocks t x))..<bend (tm_blocks t) x}"

definition free_span :: "tmm \<Rightarrow> nat list \<Rightarrow> nat set" where
  "free_span t xs = (\<Union>x \<in> set xs. block_span t x)"

definition pools_at :: "u64 \<Rightarrow> u32 \<Rightarrow> nat set" where
  "pools_at start = managed (unat (ALIGN_UP start HUGE_PAGE_SIZE))"

end
