(* ===== verification/Tensor_MM_Lists.thy ===== *)
theory Tensor_MM_Lists
  imports Tensor_MM_Spec
begin

text \<open>
  The free lists of the tensor memory manager: insertion in address order, removal, merging
  of neighbours, and carving a block in two keep the lists well linked, ordered and covering
  the same addresses.
\<close>

section \<open>Covers\<close>

lemma rng_split: "rng b (s1 + s2) a = rng b s1 a + rng (b + s1) s2 a"
  by (auto simp: rng_def)

lemma rng_pos [simp]: "0 < rng b s a \<longleftrightarrow> b \<le> a \<and> a < b + s"
  by (simp add: rng_def)

lemma free_cover_simps [simp]:
  "free_cover m [] a = 0"
  "free_cover m (x # xs) a = rng (unat (mb_base (m x))) (unat (mb_size (m x))) a + free_cover m xs a"
  "free_cover m (xs @ ys) a = free_cover m xs a + free_cover m ys a"
  by (simp_all add: free_cover_def)

lemma live_cover_simps [simp]:
  "live_cover {#} r a = 0"
  "live_cover (add_mset ta lv) r a =
     (if ta_region ta = r then rng (unat (ta_phys_addr ta)) (unat (ta_size ta)) a else 0) + live_cover lv r a"
  by (simp_all add: live_cover_def)

lemma core_fields:
  assumes "core n = core n'"
  shows "mb_base n = mb_base n' \<and> mb_size n = mb_size n' \<and> mb_is_free n = mb_is_free n'"
proof -
  have "mb_base (core n) = mb_base (core n')" "mb_size (core n) = mb_size (core n')"
    "mb_is_free (core n) = mb_is_free (core n')" by (simp_all add: assms)
  then show ?thesis by (simp add: core_def)
qed

lemma core_links [simp]:
  "core (mb_next_update f n) = core n" "core (mb_prev_update g n) = core n"
  by (simp_all add: core_def)

lemma core_upd_links [simp]:
  "core (upd m b (mb_next_update f) x) = core (m x)"
  "core (upd m b (mb_prev_update f) x) = core (m x)"
  "core (upd_opt m p (mb_next_update f) x) = core (m x)"
  "core (upd_opt m p (mb_prev_update f) x) = core (m x)"
  by (auto simp: upd_def upd_opt_def split: option.splits)

lemma free_cover_core:
  assumes "\<And>x. x \<in> set xs \<Longrightarrow> core (m' x) = core (m x)"
  shows "free_cover m' xs a = free_cover m xs a"
proof -
  have "mb_base (m' x) = mb_base (m x) \<and> mb_size (m' x) = mb_size (m x)" if "x \<in> set xs" for x
    using core_fields [OF assms [OF that]] by simp
  then show ?thesis unfolding free_cover_def by (metis (mono_tags, lifting) map_cong)
qed

lemma bend_core: "core (m' x) = core (m x) \<Longrightarrow> bend m' x = bend m x"
  by (drule core_fields) (simp add: bend_def)

lemma ordered_core:
  assumes "\<And>x. x \<in> set xs \<Longrightarrow> core (m' x) = core (m x)" and "ordered m xs"
  shows "ordered m' xs"
proof -
  have "bend m' x = bend m x \<and> mb_base (m' x) = mb_base (m x)" if "x \<in> set xs" for x
    using bend_core core_fields assms(1) [OF that] by blast
  then show ?thesis
    using assms(2) unfolding ordered_def by (auto elim!: sorted_wrt_mono_rel [rotated 1])
qed

lemma ordered_bases:
  assumes "ordered m xs" and "\<forall>x \<in> set xs. mb_size (m x) \<noteq> 0"
  shows "sorted_wrt (\<lambda>x y. mb_base (m x) < mb_base (m y)) xs"
proof -
  have "mb_base (m x) < mb_base (m y)" if "x \<in> set xs" "bend m x \<le> unat (mb_base (m y))" for x y
    using assms(2) that unat_gt_0 [of "mb_size (m x)"] by (auto simp: bend_def word_less_nat_alt)
  then show ?thesis
    using assms(1) unfolding ordered_def by (auto elim!: sorted_wrt_mono_rel [rotated 1])
qed

section \<open>Insertion into a free list\<close>

lemma free_list_insert_spec:
  fixes t r b xs
  defines "P \<equiv> \<lambda>x. mb_base (tm_blocks t x) < mb_base (tm_blocks t b)"
  assumes ch: "mb.chain (tm_blocks t) (tm_lists t r) xs" and b: "b \<notin> set xs"
    and ne: "\<And>x. x \<in> set xs \<Longrightarrow> mb_base (tm_blocks t x) \<noteq> mb_base (tm_blocks t b)"
  obtains m' ls' where "free_list_insert b r t = Some (t\<lparr>tm_blocks := m', tm_lists := ls'\<rparr>)"
    "mb.chain m' (ls' r) (takeWhile P xs @ b # dropWhile P xs)"
    "\<And>x. core (m' x) = core (if x = b then (tm_blocks t b)\<lparr>mb_is_free := True\<rparr> else tm_blocks t x)"
    "\<And>x. x \<notin> insert b (set xs) \<Longrightarrow> m' x = tm_blocks t x"
    "\<And>q. q \<noteq> r \<Longrightarrow> ls' q = tm_lists t q"
proof -
  define m where "m = upd (tm_blocks t) b (mb_is_free_update (\<lambda>_. True))"
  have cm: "core (m x) = core (if x = b then (tm_blocks t b)\<lparr>mb_is_free := True\<rparr> else tm_blocks t x)" for x
    by (simp add: m_def upd_def)
  have base: "mb_base (m x) = mb_base (tm_blocks t x)" for x by (simp add: m_def upd_def)
  have mx: "m x = tm_blocks t x" if "x \<noteq> b" for x using that by (simp add: m_def upd_def)
  have chm: "mb.chain m (tm_lists t r) xs"
    by (rule mb.chain_frame [OF ch]) (simp add: m_def upd_def)
  show thesis
  proof (cases xs)
    case Nil
    let ?m' = "upd (upd m b (mb_next_update (\<lambda>_. None))) b (mb_prev_update (\<lambda>_. None))"
    have "mb.chain ?m' (Some b) [b]"
      by (simp add: mb.chain_def dlist_def mb.nexts_app mb.prevs_app upd_def)
    with Nil chm show thesis
      by (intro that [of "(tm_lists t)(r := Some b)" ?m'])
        (auto simp: free_list_insert_def Let_def m_def upd_def core_def)
  next
    case (Cons h ys)
    then have hd: "tm_lists t r = Some h" using mb.chain_head [OF ch] by simp
    have hb: "h \<noteq> b" using b Cons by auto
    show thesis
    proof (cases "P h")
      case False
      let ?m' = "upd (upd (upd m b (mb_next_update (\<lambda>_. Some h))) b (mb_prev_update (\<lambda>_. None)))
        h (mb_prev_update (\<lambda>_. Some b))"
      have less: "mb_base (m b) < mb_base (m h)" using False ne [of h] Cons by (simp add: P_def base)
      have ins: "free_list_insert b r t =
          Some (t\<lparr>tm_blocks := ?m', tm_lists := (tm_lists t)(r := Some b)\<rparr>)"
        unfolding free_list_insert_def m_def [symmetric] Let_def hd using less by simp
      have "mb.chain ?m' (Some b) (b # xs)"
        by (rule mb.chain_link_front [OF chm b]) (use b Cons hb in \<open>auto simp: upd_def\<close>)
      then show thesis
        by (intro that [OF ins]) (use Cons False b in \<open>auto simp: cm mx upd_def\<close>)
    next
      case True
      obtain pre c where tw: "takeWhile P xs = pre @ [c]"
        using Cons True by (cases "takeWhile P xs" rule: rev_cases) auto
      obtain post where post: "dropWhile P xs = post" by blast
      have xs: "xs = pre @ c # post"
        using takeWhile_dropWhile_id [of P xs] tw post by simp
      let ?m' = "upd (upd_opt (upd (upd m b (mb_next_update (\<lambda>_. mb_next (m c)))) b (mb_prev_update (\<lambda>_. Some c)))
        (mb_next (m c)) (mb_prev_update (\<lambda>_. Some b))) c (mb_next_update (\<lambda>_. Some b))"
      have cb: "c \<noteq> b" using b xs by auto
      have "h # takeWhile P ys = pre @ [c]" using tw Cons True by simp
      then have "last (h # takeWhile P ys) = c" by simp
      then have "walk (\<lambda>x. mb_next (m x)) P h = Some c"
        using mb.chain_walk [of m "tm_lists t r" h ys P] chm Cons by simp
      then have ins: "free_list_insert b r t = Some (t\<lparr>tm_blocks := ?m', tm_lists := tm_lists t\<rparr>)"
        unfolding free_list_insert_def m_def [symmetric] Let_def hd
        using True cb by (auto simp: P_def base upd_def)
      have "mb.chain ?m' (tm_lists t r) (pre @ c # b # post)"
        by (rule mb.chain_insert_after [OF _ _ refl]) (use chm b xs in auto)
      then have "mb.chain ?m' (tm_lists t r) (takeWhile P xs @ b # dropWhile P xs)" by (simp add: tw post)
      then show thesis
      proof (rule that [OF ins])
        show "?m' x = tm_blocks t x" if "x \<notin> insert b (set xs)" for x
        proof -
          have "mb_next (m c) = first_ref post None"
            using mb.chain_neighbours(1) [of m "tm_lists t r" pre c post] chm xs by simp
          then have "mb_next (m c) \<noteq> Some x" using that xs by (auto dest!: first_ref_in)
          then show ?thesis using that xs by (auto simp: upd_def upd_opt_def mx split: option.split)
        qed
      qed (simp_all add: cm)
    qed
  qed
qed

lemma ordered_append:
  "ordered m (xs @ ys) \<longleftrightarrow> ordered m xs \<and> ordered m ys
     \<and> (\<forall>x \<in> set xs. \<forall>y \<in> set ys. bend m x \<le> unat (mb_base (m y)))"
  by (simp add: ordered_def sorted_wrt_append)

lemma ordered_Cons:
  "ordered m (x # xs) \<longleftrightarrow> (\<forall>y \<in> set xs. bend m x \<le> unat (mb_base (m y))) \<and> ordered m xs"
  by (simp add: ordered_def)

lemma base_less_bend: "mb_size (m x) \<noteq> 0 \<Longrightarrow> unat (mb_base (m x)) < bend m x"
  by (simp add: bend_def unat_gt_0)

lemma ordered_insert:
  fixes m b xs
  defines "P \<equiv> \<lambda>x. mb_base (m x) < mb_base (m b)"
  assumes ord: "ordered m xs" and sz: "\<forall>x \<in> set xs. mb_size (m x) \<noteq> 0" "mb_size (m b) \<noteq> 0"
    and ap: "\<forall>x \<in> set xs. apart m x b"
  shows "ordered m (takeWhile P xs @ b # dropWhile P xs)"
proof -
  have pre: "bend m x \<le> unat (mb_base (m b))" if "x \<in> set (takeWhile P xs)" for x
  proof -
    from that have "x \<in> set xs" "mb_base (m x) < mb_base (m b)" by (auto dest: set_takeWhileD simp: P_def)
    with ap base_less_bend [of m b] sz(2) show ?thesis
      by (force simp: apart_def word_less_nat_alt)
  qed
  have post: "bend m b \<le> unat (mb_base (m y))" if y: "y \<in> set (dropWhile P xs)" for y
  proof -
    obtain d ds where ds: "dropWhile P xs = d # ds" using y by (cases "dropWhile P xs") auto
    then have nd: "\<not> P d" by (metis hd_dropWhile list.sel(1) list.distinct(1))
    have "ordered m (d # ds)"
      using ord takeWhile_dropWhile_id [of P xs] by (metis ds ordered_append)
    moreover have "d \<in> set xs" "y \<in> set xs" using ds y set_dropWhileD [of _ P xs] by auto
    ultimately have "unat (mb_base (m d)) \<le> unat (mb_base (m y))"
      using y ds sz(1) base_less_bend [of m d] by (force simp: ordered_Cons)
    then have "unat (mb_base (m b)) \<le> unat (mb_base (m y))"
      using nd by (simp add: P_def word_less_nat_alt)
    with ap \<open>y \<in> set xs\<close> sz(1) base_less_bend [of m y] show ?thesis by (force simp: apart_def)
  qed
  have "ordered m (takeWhile P xs @ dropWhile P xs)" using ord by simp
  then show ?thesis using pre post by (simp only: ordered_append ordered_Cons) (auto simp: order.trans)
qed

lemma list_okD:
  assumes "list_ok t fl r"
  shows "mb.chain (tm_blocks t) (tm_lists t r) (fl r)"
    and "x \<in> set (fl r) \<Longrightarrow> x < unat (tm_next t) \<and> mb_is_free (tm_blocks t x) \<and> mb_size (tm_blocks t x) \<noteq> 0"
    and "q \<noteq> r \<Longrightarrow> set (fl r) \<inter> set (fl q) = {}"
  using assms by (auto simp: list_ok_def)

text \<open>Lists survive any change that keeps the links and sizes of their blocks.\<close>

lemma list_ok_frame:
  assumes "list_ok t fl r" and "tm_lists t' r = tm_lists t r" and "unat (tm_next t) \<le> unat (tm_next t')"
    and "\<And>x. x \<in> set (fl r) \<Longrightarrow> mb_next (tm_blocks t' x) = mb_next (tm_blocks t x)
      \<and> mb_prev (tm_blocks t' x) = mb_prev (tm_blocks t x)
      \<and> mb_is_free (tm_blocks t' x) \<and> mb_size (tm_blocks t' x) \<noteq> 0"
    and "\<And>q. set (fl' q) \<inter> set (fl r) = set (fl q) \<inter> set (fl r)" and "fl' r = fl r"
  shows "list_ok t' fl' r"
proof -
  have "mb.chain (tm_blocks t') (tm_lists t' r) (fl r)"
    unfolding assms(2) by (rule mb.chain_frame [where s = "tm_blocks t"])
      (use assms(1,4) in \<open>auto simp: list_ok_def\<close>)
  moreover have "x < unat (tm_next t')" if "x \<in> set (fl r)" for x
    using list_okD(2) [OF assms(1) that] assms(3) by linarith
  moreover have "set (fl r) \<inter> set (fl' q) = {}" if "q \<noteq> r" for q
    using list_okD(3) [OF assms(1) that] assms(5) [of q] by blast
  ultimately show ?thesis using assms(4,6) by (simp add: list_ok_def)
qed

lemma lists_insert:
  fixes t r b fl
  defines "P \<equiv> \<lambda>x. mb_base (tm_blocks t x) < mb_base (tm_blocks t b)"
  assumes ok: "lists_ok t fl" and b: "\<And>q. b \<notin> set (fl q)" "b < unat (tm_next t)" "mb_size (tm_blocks t b) \<noteq> 0"
    and ap: "\<forall>x \<in> set (fl r). apart (tm_blocks t) x b"
  shows "\<exists>m' ls'. free_list_insert b r t = Some (t\<lparr>tm_blocks := m', tm_lists := ls'\<rparr>)
    \<and> lists_ok (t\<lparr>tm_blocks := m', tm_lists := ls'\<rparr>) (fl(r := takeWhile P (fl r) @ b # dropWhile P (fl r)))
    \<and> (\<forall>x. core (m' x) = core (if x = b then (tm_blocks t b)\<lparr>mb_is_free := True\<rparr> else tm_blocks t x))"
proof -
  let ?m = "tm_blocks t" and ?xs = "fl r"
  have lr: "list_ok t fl q" "ordered ?m (fl q)" for q using ok by (simp_all add: lists_ok_def)
  have sz: "\<forall>x \<in> set ?xs. mb_size (?m x) \<noteq> 0" using list_okD(2) [OF lr(1)] by blast
  have ne: "mb_base (?m x) \<noteq> mb_base (?m b)" if "x \<in> set ?xs" for x
    using ap that sz b(3) base_less_bend [of ?m x] base_less_bend [of ?m b] by (force simp: apart_def)
  obtain m' ls' where
    ins: "free_list_insert b r t = Some (t\<lparr>tm_blocks := m', tm_lists := ls'\<rparr>)"
    and ch: "mb.chain m' (ls' r) (takeWhile P ?xs @ b # dropWhile P ?xs)"
    and co: "\<And>x. core (m' x) = core (if x = b then (?m b)\<lparr>mb_is_free := True\<rparr> else ?m x)"
    and fr: "\<And>x. x \<notin> insert b (set ?xs) \<Longrightarrow> m' x = ?m x" and ls: "\<And>q. q \<noteq> r \<Longrightarrow> ls' q = tm_lists t q"
    by (rule free_list_insert_spec [OF list_okD(1) [OF lr(1) [of r]] b(1) ne, folded P_def]) (assumption, rule that)
  let ?t' = "t\<lparr>tm_blocks := m', tm_lists := ls'\<rparr>"
  let ?fl = "fl(r := takeWhile P ?xs @ b # dropWhile P ?xs)"
  have set': "set (?fl r) = insert b (set ?xs)"
    using takeWhile_dropWhile_id [of P ?xs] by (metis fun_upd_same list.set(2) set_append Un_insert_right)
  have flds: "mb_base (m' x) = mb_base (?m x)" "mb_size (m' x) = mb_size (?m x)"
      "mb_is_free (m' x) = (x = b \<or> mb_is_free (?m x))" for x
    using core_fields [OF co [of x]] by auto
  have bm: "bend m' x = bend ?m x" for x by (simp add: bend_def flds)
  have ord': "ordered m' ys = ordered ?m ys" for ys by (simp add: ordered_def bm flds)
  have "list_ok ?t' ?fl q \<and> ordered m' (?fl q)" for q
  proof (cases "q = r")
    case True
    have "ordered ?m (?fl r)"
      using ordered_insert [OF lr(2) sz b(3) ap] by (simp add: P_def)
    moreover have "\<forall>x \<in> set (?fl r). x < unat (tm_next t) \<and> mb_is_free (m' x) \<and> mb_size (m' x) \<noteq> 0"
      using list_okD(2) [OF lr(1) [of r]] b(2,3) by (simp only: set') (auto simp: flds)
    moreover have "set (?fl r) \<inter> set (?fl q') = {}" if "q' \<noteq> r" for q'
      using list_okD(3) [OF lr(1) that] b(1) [of q'] that by (simp only: set') auto
    ultimately show ?thesis using True ch by (simp add: list_ok_def ord')
  next
    case False
    have "list_ok ?t' ?fl q"
    proof (rule list_ok_frame [OF lr(1) [of q]])
      fix x assume x: "x \<in> set (fl q)"
      then have "m' x = ?m x" using list_okD(3) [OF lr(1) False] b(1) by (intro fr) blast
      then show "mb_next (tm_blocks ?t' x) = mb_next (?m x) \<and> mb_prev (tm_blocks ?t' x) = mb_prev (?m x)
        \<and> mb_is_free (tm_blocks ?t' x) \<and> mb_size (tm_blocks ?t' x) \<noteq> 0"
        using list_okD(2) [OF lr(1) x] by simp
    next
      fix q'
      show "set (?fl q') \<inter> set (fl q) = set (fl q') \<inter> set (fl q)"
        using set' b(1) [of q] by (cases "q' = r") auto
    qed (use False ls in auto)
    then show ?thesis using False lr(2) by (simp add: ord')
  qed
  then have "lists_ok ?t' ?fl" by (simp add: lists_ok_def)
  with ins co show ?thesis by blast
qed

section \<open>Removal from a free list\<close>

lemma free_list_remove_eq:
  assumes "mb_prev (tm_blocks t b) \<noteq> Some b"
  shows "free_list_remove b r t = t\<lparr>tm_blocks :=
      (upd_opt (upd_opt (tm_blocks t) (mb_prev (tm_blocks t b)) (mb_next_update (\<lambda>_. mb_next (tm_blocks t b))))
         (mb_next (tm_blocks t b)) (mb_prev_update (\<lambda>_. mb_prev (tm_blocks t b))))
       (b := (tm_blocks t b)\<lparr>mb_prev := None, mb_next := None, mb_is_free := False\<rparr>),
     tm_lists := (if mb_prev (tm_blocks t b) = None then (tm_lists t)(r := mb_next (tm_blocks t b)) else tm_lists t)\<rparr>"
  using assms
  by (auto simp: free_list_remove_def Let_def upd_def upd_opt_def fun_eq_iff split: option.splits)

text \<open>The lists of the other regions do not notice a change within one list.\<close>

lemma lists_other:
  assumes ok: "lists_ok t fl" and sub: "set xs' \<subseteq> set (fl r)"
    and fr: "\<And>x. x \<notin> set (fl r) \<Longrightarrow> m' x = tm_blocks t x" and ls: "\<And>q. q \<noteq> r \<Longrightarrow> ls' q = tm_lists t q"
    and main: "mb.chain m' (ls' r) xs'" "ordered m' xs'" "\<And>x. x \<in> set xs' \<Longrightarrow> mb_is_free (m' x) \<and> mb_size (m' x) \<noteq> 0"
  shows "lists_ok (t\<lparr>tm_blocks := m', tm_lists := ls'\<rparr>) (fl(r := xs'))"
proof -
  let ?t' = "t\<lparr>tm_blocks := m', tm_lists := ls'\<rparr>" and ?fl = "fl(r := xs')"
  have lr: "list_ok t fl q" "ordered (tm_blocks t) (fl q)" for q using ok by (simp_all add: lists_ok_def)
  have "list_ok ?t' ?fl q \<and> ordered m' (?fl q)" for q
  proof (cases "q = r")
    case True
    have "set xs' \<inter> set (fl q') = {}" if "q' \<noteq> r" for q'
      using list_okD(3) [OF lr(1) that] sub by blast
    moreover have "x < unat (tm_next t)" if "x \<in> set xs'" for x
      using list_okD(2) [OF lr(1)] sub that by blast
    ultimately show ?thesis using True main by (simp add: list_ok_def)
  next
    case False
    have same: "m' x = tm_blocks t x" if "x \<in> set (fl q)" for x
      using list_okD(3) [OF lr(1) False] that by (intro fr) blast
    have int: "set (?fl q') \<inter> set (fl q) = set (fl q') \<inter> set (fl q)" for q'
      using list_okD(3) [OF lr(1) False] sub by (cases "q' = r") auto
    have "list_ok ?t' ?fl q"
      by (rule list_ok_frame [OF lr(1) [of q] _ _ _ int])
        (use False ls same list_okD(2) [OF lr(1)] in auto)
    moreover have "ordered m' (fl q)"
      by (rule ordered_core [OF _ lr(2)]) (simp add: same)
    ultimately show ?thesis using False by simp
  qed
  then show ?thesis by (simp add: lists_ok_def)
qed

lemma lists_remove:
  assumes ok: "lists_ok t fl" and xs: "fl r = pre @ b # post"
  obtains m' ls' where "free_list_remove b r t = t\<lparr>tm_blocks := m', tm_lists := ls'\<rparr>"
    "lists_ok (t\<lparr>tm_blocks := m', tm_lists := ls'\<rparr>) (fl(r := pre @ post))"
    "\<And>x. core (m' x) = core (if x = b then (tm_blocks t b)\<lparr>mb_is_free := False\<rparr> else tm_blocks t x)"
proof -
  let ?m = "tm_blocks t"
  have lr: "list_ok t fl r" "ordered ?m (fl r)" using ok by (simp_all add: lists_ok_def)
  have ch: "mb.chain ?m (tm_lists t r) (pre @ b # post)" using list_okD(1) [OF lr(1)] xs by simp
  note nb = mb.chain_neighbours [OF ch]
  have dist: "distinct (pre @ b # post)" using mb.chain_distinct [OF ch] .
  have pb: "mb_prev (?m b) \<noteq> Some b" using nb(2) dist by (auto dest!: last_ref_in)
  define m' where "m' = (upd_opt (upd_opt ?m (mb_prev (?m b)) (mb_next_update (\<lambda>_. mb_next (?m b))))
         (mb_next (?m b)) (mb_prev_update (\<lambda>_. mb_prev (?m b))))
       (b := (?m b)\<lparr>mb_prev := None, mb_next := None, mb_is_free := False\<rparr>)"
  define ls' where "ls' = (if mb_prev (?m b) = None then (tm_lists t)(r := mb_next (?m b)) else tm_lists t)"
  have eq: "free_list_remove b r t = t\<lparr>tm_blocks := m', tm_lists := ls'\<rparr>"
    by (simp add: free_list_remove_eq [OF pb] m'_def ls'_def)
  have co: "core (m' x) = core (if x = b then (?m b)\<lparr>mb_is_free := False\<rparr> else ?m x)" for x
    by (simp add: m'_def) (simp add: core_def)
  have "mb.chain m' (if mb_prev (?m b) = None then mb_next (?m b) else tm_lists t r) (pre @ post)"
    by (rule mb.chain_unlink [OF ch])
      (auto simp: m'_def upd_def upd_opt_def split: option.split)
  then have ch': "mb.chain m' (ls' r) (pre @ post)" by (auto simp: ls'_def split: if_splits)
  have same: "core (m' x) = core (?m x)" if "x \<in> set (pre @ post)" for x
    using co [of x] that dist by auto
  have ord: "ordered m' (pre @ post)"
    by (rule ordered_core [where m = ?m]) (use same lr(2) xs in \<open>auto simp: ordered_append ordered_Cons\<close>)
  have frb: "mb_is_free (m' x) \<and> mb_size (m' x) \<noteq> 0" if "x \<in> set (pre @ post)" for x
    using core_fields [OF same [OF that]] list_okD(2) [OF lr(1), of x] that xs by auto
  have "m' x = ?m x" if "x \<notin> set (fl r)" for x
    using that xs nb by (auto simp: m'_def upd_def upd_opt_def split: option.split dest!: first_ref_in last_ref_in)
  then have "lists_ok (t\<lparr>tm_blocks := m', tm_lists := ls'\<rparr>) (fl(r := pre @ post))"
    by (intro lists_other [where r = r and ls' = ls' and m' = m', OF ok _ _ _ ch' ord frb]) (auto simp: xs ls'_def)
  from that [OF eq this co] show thesis .
qed

section \<open>Coalescing\<close>

lemma core_size_update: "core (mb_size_update (\<lambda>s. s + k) n) = core (n\<lparr>mb_size := mb_size n + k\<rparr>)"
  by (cases n) (simp add: core_def)

lemma coalesce_block_next_absorb:
  "coalesce_block_next b m = (case mb_next (m b) of None \<Rightarrow> m | Some nx \<Rightarrow>
     if mb_is_free (m nx) \<and> mb_base (m b) + mb_size (m b) = mb_base (m nx) then absorb_block b nx m else m)"
  by (simp add: coalesce_block_next_def absorb_block_def Let_def split: option.split)

lemma coalesce_block_prev_absorb:
  "coalesce_block_prev b m = (case mb_prev (m b) of None \<Rightarrow> m | Some pv \<Rightarrow>
     if mb_is_free (m pv) \<and> mb_base (m pv) + mb_size (m pv) = mb_base (m b) then absorb_block pv b m else m)"
  by (simp add: coalesce_block_prev_def absorb_block_def Let_def split: option.split)

lemma lists_absorb:
  assumes ok: "lists_ok t fl" and xs: "fl r = pre @ x # y # post"
    and adj: "bend (tm_blocks t) x = unat (mb_base (tm_blocks t y))" and bnd: "bend (tm_blocks t) y < 2 ^ 64"
  shows "lists_ok (t\<lparr>tm_blocks := absorb_block x y (tm_blocks t)\<rparr>) (fl(r := pre @ x # post))"
    and "\<And>z. core (absorb_block x y (tm_blocks t) z) =
      core (if z = x then (tm_blocks t x)\<lparr>mb_size := mb_size (tm_blocks t x) + mb_size (tm_blocks t y)\<rparr> else tm_blocks t z)"
    and "unat (mb_size (tm_blocks t x) + mb_size (tm_blocks t y)) =
      unat (mb_size (tm_blocks t x)) + unat (mb_size (tm_blocks t y))"
proof -
  let ?m = "tm_blocks t" let ?m' = "absorb_block x y ?m"
  have lr: "list_ok t fl r" "ordered ?m (fl r)" using ok by (simp_all add: lists_ok_def)
  have ch: "mb.chain ?m (tm_lists t r) ((pre @ [x]) @ y # post)" using list_okD(1) [OF lr(1)] xs by simp
  note nb = mb.chain_neighbours [OF ch]
  have dist: "distinct (pre @ x # y # post)" using mb.chain_distinct [OF ch] by simp
  show co: "core (?m' z) = core (if z = x then (?m x)\<lparr>mb_size := mb_size (?m x) + mb_size (?m y)\<rparr> else ?m z)" for z
    by (simp add: absorb_block_def) (simp add: upd_def core_size_update)
  show sz: "unat (mb_size (?m x) + mb_size (?m y)) = unat (mb_size (?m x)) + unat (mb_size (?m y))"
    using adj bnd by (intro unat_add_no_wrap) (simp add: bend_def)
  have m'x: "mb_base (?m' x) = mb_base (?m x)" "mb_size (?m' x) = mb_size (?m x) + mb_size (?m y)"
    using core_fields [OF co [of x]] by simp_all
  have "mb.chain ?m' (if mb_prev (?m y) = None then mb_next (?m y) else tm_lists t r) ((pre @ [x]) @ post)"
    by (rule mb.chain_unlink [OF ch])
      (use nb dist in \<open>auto simp: absorb_block_def upd_def upd_opt_def split: option.split dest!: first_ref_in\<close>)
  then have ch': "mb.chain ?m' (tm_lists t r) (pre @ x # post)" using nb by simp
  have same: "core (?m' z) = core (?m z)" if "z \<in> set (pre @ post)" for z
    using co [of z] that dist by auto
  have bx: "bend ?m' x = bend ?m y" using adj sz m'x by (simp add: bend_def)
  have flds: "mb_base (?m' z) = mb_base (?m z) \<and> bend ?m' z = bend ?m z" if "z \<in> set (pre @ post)" for z
    using same [OF that] core_fields bend_core by blast
  have "ordered ?m' pre \<and> ordered ?m' post"
    using ordered_core [of pre ?m' ?m] ordered_core [of post ?m' ?m] same lr(2) xs
    by (simp add: ordered_append ordered_Cons)
  then have ord: "ordered ?m' (pre @ x # post)"
    using lr(2) xs flds bx m'x by (auto simp: ordered_append ordered_Cons)
  have frb: "mb_is_free (?m' z) \<and> mb_size (?m' z) \<noteq> 0" if "z \<in> set (pre @ x # post)" for z
  proof (cases "z = x")
    case True
    have "0 < unat (mb_size (?m' x))"
      using sz m'x list_okD(2) [OF lr(1), of x] xs by (simp add: unat_gt_0)
    then show ?thesis
      using True core_fields [OF co [of x]] list_okD(2) [OF lr(1), of x] xs by (auto simp: unat_gt_0)
  next
    case False
    then show ?thesis
      using core_fields [OF same [of z]] list_okD(2) [OF lr(1), of z] that xs by auto
  qed
  have "?m' z = ?m z" if "z \<notin> set (fl r)" for z
    using that xs nb by (auto simp: absorb_block_def upd_def upd_opt_def split: option.split dest!: first_ref_in)
  then have "lists_ok (t\<lparr>tm_blocks := ?m', tm_lists := tm_lists t\<rparr>) (fl(r := pre @ x # post))"
    by (intro lists_other [where r = r and ls' = "tm_lists t" and m' = ?m', OF ok _ _ _ ch' ord frb]) (auto simp: xs)
  then show "lists_ok (t\<lparr>tm_blocks := ?m'\<rparr>) (fl(r := pre @ x # post))" by simp
qed

lemma bytes_simps [simp]:
  "bytes m [] = 0" "bytes m (x # xs) = mb_size (m x) + bytes m xs" "bytes m (xs @ ys) = bytes m xs + bytes m ys"
  by (simp_all add: bytes_def)

lemma bytes_core:
  assumes "\<And>x. x \<in> set xs \<Longrightarrow> core (m' x) = core (m x)"
  shows "bytes m' xs = bytes m xs"
proof -
  have "mb_size (m' x) = mb_size (m x)" if "x \<in> set xs" for x
    using core_fields [OF assms [OF that]] by simp
  then show ?thesis unfolding bytes_def by (metis (mono_tags, lifting) map_cong)
qed

lemma separated_core:
  assumes "\<And>x. x \<in> set xs \<Longrightarrow> core (m' x) = core (m x)"
  shows "separated m' xs = separated m xs"
proof -
  have "bend m' x = bend m x \<and> mb_base (m' x) = mb_base (m x)" if "x \<in> set xs" for x
    using bend_core core_fields assms [OF that] by blast
  then show ?thesis unfolding separated_def by (auto intro!: successively_cong)
qed

lemma separated_coreI:
  "separated m xs \<Longrightarrow> (\<And>x. x \<in> set xs \<Longrightarrow> core (m' x) = core (m x)) \<Longrightarrow> separated m' xs"
  using separated_core by blast

lemma separated_simps [simp]: "separated m []" "separated m [x]"
  by (simp_all add: separated_def)

lemma separated_append:
  "separated m (xs @ ys) \<longleftrightarrow> separated m xs \<and> separated m ys
     \<and> (xs = [] \<or> ys = [] \<or> bend m (last xs) < unat (mb_base (m (hd ys))))"
  by (auto simp: separated_def successively_append_iff)

lemma separated_Cons:
  "separated m (x # xs) \<longleftrightarrow> separated m xs \<and> (xs = [] \<or> bend m x < unat (mb_base (m (hd xs))))"
  by (auto simp: separated_def successively_Cons)

lemma same_store_refl: "same_store m xs m xs"
  by (simp add: same_store_def)

lemma same_store_trans: "same_store m xs m' ys \<Longrightarrow> same_store m' ys m'' zs \<Longrightarrow> same_store m xs m'' zs"
  unfolding same_store_def by (auto dest: subsetD)

lemma absorb_step:
  assumes ok: "lists_ok t fl" and xs: "fl r = pre @ x # y # post"
    and adj: "mb_base (tm_blocks t x) + mb_size (tm_blocks t x) = mb_base (tm_blocks t y)"
    and bnd: "\<forall>z \<in> set (fl r). bend (tm_blocks t) z < 2 ^ 64"
  defines "m' \<equiv> absorb_block x y (tm_blocks t)"
  shows "lists_ok (t\<lparr>tm_blocks := m'\<rparr>) (fl(r := pre @ x # post))"
    and "same_store (tm_blocks t) (fl r) m' (pre @ x # post)"
    and "\<forall>z \<in> set (pre @ x # post). bend m' z < 2 ^ 64"
    and "\<And>z. z \<in> set (pre @ post) \<Longrightarrow> core (m' z) = core (tm_blocks t z)"
    and "mb_base (m' x) = mb_base (tm_blocks t x)" and "bend m' x = bend (tm_blocks t) y"
proof -
  let ?m = "tm_blocks t"
  have bx: "bend ?m x < 2 ^ 64" "bend ?m y < 2 ^ 64" using bnd xs by auto
  have adj': "bend ?m x = unat (mb_base (?m y))"
    using bx(1) unat_add_no_wrap [of "mb_base (?m x)" "mb_size (?m x)"] adj by (simp add: bend_def)
  note ab = lists_absorb [OF ok xs adj' bx(2), folded m'_def]
  show "lists_ok (t\<lparr>tm_blocks := m'\<rparr>) (fl(r := pre @ x # post))" by (rule ab(1))
  have dist: "distinct (pre @ x # y # post)"
    using ok xs mb.chain_distinct by (metis list_okD(1) lists_ok_def)
  show same: "core (m' z) = core (?m z)" if "z \<in> set (pre @ post)" for z
    using ab(2) [of z] that dist by auto
  have x': "mb_base (m' x) = mb_base (?m x)" "mb_size (m' x) = mb_size (?m x) + mb_size (?m y)"
    using core_fields [OF ab(2) [of x]] by simp_all
  then show bx': "mb_base (m' x) = mb_base (?m x)" "bend m' x = bend ?m y"
    using ab(3) adj' by (simp_all add: bend_def)
  have "bend m' z < 2 ^ 64" if "z \<in> set (pre @ post)" for z
    using bnd xs that bend_core [of m' z ?m] same [OF that] by auto
  with bx'(2) bx(2) show "\<forall>z \<in> set (pre @ x # post). bend m' z < 2 ^ 64" by auto
  have "free_cover m' pre a = free_cover ?m pre a" "free_cover m' post a = free_cover ?m post a" for a
    using same by (auto intro!: free_cover_core)
  moreover have "bytes m' pre = bytes ?m pre" "bytes m' post = bytes ?m post"
    using same by (auto intro!: bytes_core)
  ultimately show "same_store ?m (fl r) m' (pre @ x # post)"
    using ab(2,3) x' adj' dist
    by (auto simp: same_store_def xs rng_split bend_def)
qed

lemma merge_next_ok:
  assumes ok: "lists_ok t fl" and xs: "fl r = pre @ b # post"
    and bnd: "\<forall>z \<in> set (fl r). bend (tm_blocks t) z < 2 ^ 64"
  defines "m' \<equiv> coalesce_block_next b (tm_blocks t)"
  obtains post' where "lists_ok (t\<lparr>tm_blocks := m'\<rparr>) (fl(r := pre @ b # post'))"
    "same_store (tm_blocks t) (fl r) m' (pre @ b # post')" "\<forall>z \<in> set (pre @ b # post'). bend m' z < 2 ^ 64"
    "\<And>z. z \<in> set pre \<Longrightarrow> core (m' z) = core (tm_blocks t z)" "mb_base (m' b) = mb_base (tm_blocks t b)"
    "separated (tm_blocks t) post \<Longrightarrow> separated m' (b # post')"
proof (cases "post \<noteq> [] \<and> mb_base (tm_blocks t b) + mb_size (tm_blocks t b) = mb_base (tm_blocks t (hd post))")
  case True
  let ?m = "tm_blocks t"
  obtain nx ys where post: "post = nx # ys" using True by (cases post) auto
  have lr: "list_ok t fl r" "ordered ?m (fl r)" using ok by (simp_all add: lists_ok_def)
  have ch: "mb.chain ?m (tm_lists t r) (pre @ b # nx # ys)" using list_okD(1) [OF lr(1)] xs post by simp
  have m': "m' = absorb_block b nx ?m"
    using mb.chain_neighbours(1) [OF ch] list_okD(2) [OF lr(1), of nx] True xs post
    by (simp add: m'_def coalesce_block_next_absorb)
  have adj: "mb_base (?m b) + mb_size (?m b) = mb_base (?m nx)" using True post by simp
  note st = absorb_step [OF ok xs [unfolded post] adj bnd, folded m']
  have sep: "separated m' (b # ys)" if "separated ?m post"
    using that st(4,6) separated_core [of ys m' ?m] core_fields [OF st(4)] post
    by (cases ys) (auto simp: separated_Cons)
  show ?thesis
    by (rule that [OF st(1,2,3) _ st(5) sep]) (use st(4) in auto)
next
  case False
  let ?m = "tm_blocks t"
  have lr: "list_ok t fl r" "ordered ?m (fl r)" using ok by (simp_all add: lists_ok_def)
  have ch: "mb.chain ?m (tm_lists t r) (pre @ b # post)" using list_okD(1) [OF lr(1)] xs by simp
  have m': "m' = ?m"
    using mb.chain_neighbours(1) [OF ch] False
    by (cases post) (auto simp: m'_def coalesce_block_next_absorb)
  have "fl(r := pre @ b # post) = fl" using xs by auto
  moreover have "separated ?m (b # post)" if "separated ?m post"
  proof (cases post)
    case (Cons nx ys)
    have "bend ?m b \<le> unat (mb_base (?m nx))" using lr(2) xs Cons by (simp add: ordered_append ordered_Cons)
    moreover have "bend ?m b \<noteq> unat (mb_base (?m nx))"
    proof
      assume "bend ?m b = unat (mb_base (?m nx))"
      then have "unat (mb_base (?m b) + mb_size (?m b)) = unat (mb_base (?m nx))"
        using bnd xs unat_add_no_wrap [of "mb_base (?m b)" "mb_size (?m b)"] by (simp add: bend_def)
      then show False using False Cons unat_eqI by auto
    qed
    ultimately show ?thesis using that Cons by (simp add: separated_Cons)
  qed (simp add: separated_def)
  ultimately show ?thesis
    using that [of post] ok xs bnd by (simp add: m' same_store_refl)
qed

lemma merge_prev_ok:
  assumes ok: "lists_ok t fl" and xs: "fl r = pre @ b # post"
    and bnd: "\<forall>z \<in> set (fl r). bend (tm_blocks t) z < 2 ^ 64"
  defines "m' \<equiv> coalesce_block_prev b (tm_blocks t)"
  obtains xs' where "lists_ok (t\<lparr>tm_blocks := m'\<rparr>) (fl(r := xs'))"
    "same_store (tm_blocks t) (fl r) m' xs'"
    "separated (tm_blocks t) pre \<Longrightarrow> separated (tm_blocks t) (b # post) \<Longrightarrow> separated m' xs'"
proof (cases "pre \<noteq> [] \<and> mb_base (tm_blocks t (last pre)) + mb_size (tm_blocks t (last pre)) = mb_base (tm_blocks t b)")
  case True
  let ?m = "tm_blocks t"
  obtain ys pv where pre: "pre = ys @ [pv]" using True by (cases pre rule: rev_cases) auto
  have lr: "list_ok t fl r" "ordered ?m (fl r)" using ok by (simp_all add: lists_ok_def)
  have ch: "mb.chain ?m (tm_lists t r) ((ys @ [pv]) @ b # post)" using list_okD(1) [OF lr(1)] xs pre by simp
  have m': "m' = absorb_block pv b ?m"
    using mb.chain_neighbours(2) [OF ch] list_okD(2) [OF lr(1), of pv] True xs pre
    by (simp add: m'_def coalesce_block_prev_absorb)
  have adj: "mb_base (?m pv) + mb_size (?m pv) = mb_base (?m b)" using True pre by simp
  have xs': "fl r = ys @ pv # b # post" using xs pre by simp
  note st = absorb_step [OF ok xs' adj bnd, folded m']
  have fl: "mb_base (m' z) = mb_base (?m z) \<and> bend m' z = bend ?m z" if "z \<in> set (ys @ post)" for z
    using core_fields [OF st(4) [OF that]] bend_core [of m' z ?m] st(4) [OF that] by simp
  have sep: "separated m' (ys @ pv # post)" if "separated ?m pre" "separated ?m (b # post)"
    using that fl st(5,6) separated_core [of ys m' ?m] separated_core [of post m' ?m] st(4) pre
    by (cases post; cases ys rule: rev_cases) (auto simp: separated_Cons separated_append)
  show ?thesis by (rule that [OF st(1,2) sep])
next
  case False
  let ?m = "tm_blocks t"
  have lr: "list_ok t fl r" "ordered ?m (fl r)" using ok by (simp_all add: lists_ok_def)
  have ch: "mb.chain ?m (tm_lists t r) (pre @ b # post)" using list_okD(1) [OF lr(1)] xs by simp
  have m': "m' = ?m"
    using mb.chain_neighbours(2) [OF ch] False
    by (cases pre rule: rev_cases) (auto simp: m'_def coalesce_block_prev_absorb)
  have "fl(r := pre @ b # post) = fl" using xs by auto
  moreover have "separated ?m (pre @ b # post)" if "separated ?m pre" "separated ?m (b # post)"
  proof (cases pre rule: rev_cases)
    case (snoc ys pv)
    have "bend ?m pv \<le> unat (mb_base (?m b))" using lr(2) xs snoc by (simp add: ordered_append ordered_Cons)
    moreover have "bend ?m pv \<noteq> unat (mb_base (?m b))"
    proof
      assume "bend ?m pv = unat (mb_base (?m b))"
      then have "unat (mb_base (?m pv) + mb_size (?m pv)) = unat (mb_base (?m b))"
        using bnd xs snoc unat_add_no_wrap [of "mb_base (?m pv)" "mb_size (?m pv)"] by (simp add: bend_def)
      then show False using False snoc unat_eqI by auto
    qed
    ultimately show ?thesis using that snoc by (simp add: separated_append separated_Cons [of _ pv])
  qed (use that in simp)
  ultimately show ?thesis
    using that [of "pre @ b # post"] ok xs by (simp add: m' same_store_refl)
qed

lemma merge_ok:
  assumes ok: "lists_ok t fl" and xs: "fl r = pre @ b # post"
    and bnd: "\<forall>z \<in> set (fl r). bend (tm_blocks t) z < 2 ^ 64"
  obtains m' xs' where "coalesce_blocks b t = t\<lparr>tm_blocks := m'\<rparr>"
    "lists_ok (t\<lparr>tm_blocks := m'\<rparr>) (fl(r := xs'))" "same_store (tm_blocks t) (fl r) m' xs'"
    "separated (tm_blocks t) pre \<Longrightarrow> separated (tm_blocks t) post \<Longrightarrow> separated m' xs'"
proof -
  let ?m1 = "coalesce_block_next b (tm_blocks t)" let ?t1 = "t\<lparr>tm_blocks := ?m1\<rparr>"
  from merge_next_ok [OF assms] obtain post' where
    s1: "lists_ok ?t1 (fl(r := pre @ b # post'))" "same_store (tm_blocks t) (fl r) ?m1 (pre @ b # post')"
      "\<forall>z \<in> set (pre @ b # post'). bend ?m1 z < 2 ^ 64"
    and same: "\<And>z. z \<in> set pre \<Longrightarrow> core (?m1 z) = core (tm_blocks t z)"
    and sep1: "separated (tm_blocks t) post \<Longrightarrow> separated ?m1 (b # post')" by metis
  let ?m2 = "coalesce_block_prev b ?m1"
  obtain xs' where s2: "lists_ok (?t1\<lparr>tm_blocks := ?m2\<rparr>) ((fl(r := pre @ b # post'))(r := xs'))"
      "same_store ?m1 (pre @ b # post') ?m2 xs'"
      "separated ?m1 pre \<Longrightarrow> separated ?m1 (b # post') \<Longrightarrow> separated ?m2 xs'"
    using merge_prev_ok [OF s1(1), of r pre b post'] s1(3) by auto
  have "separated ?m2 xs'" if "separated (tm_blocks t) pre" "separated (tm_blocks t) post"
    using s2(3) sep1 that separated_core [of pre ?m1 "tm_blocks t"] same by blast
  with s2(1) same_store_trans [OF s1(2) s2(2)] show ?thesis
    by (intro that [of ?m2 xs']) (simp_all add: coalesce_blocks_def)
qed

section \<open>The invariant under changes of the block store\<close>

lemma tmm_okD:
  assumes "tmm_ok M t fl"
  shows "managed_ok M" and "lists_ok t fl" and "tensors_ok t" and "budget_ok t fl" and "mstats_ok t fl"
    and "free_cover (tm_blocks t) (fl r) a + live_cover (mset (live t)) r a = (if a \<in> M r then 1 else 0)"
  using assms by (simp_all add: tmm_ok_def)

lemma lists_okD:
  assumes "lists_ok t fl"
  shows "list_ok t fl r" and "ordered (tm_blocks t) (fl r)"
  using assms by (simp_all add: lists_ok_def)

lemma free_cover_mem:
  "x \<in> set xs \<Longrightarrow> rng (unat (mb_base (m x))) (unat (mb_size (m x))) a \<le> free_cover m xs a"
  by (auto simp: free_cover_def intro: member_le_sum_list)

lemma live_cover_mem:
  assumes "ta \<in># lv"
  shows "rng (unat (ta_phys_addr ta)) (unat (ta_size ta)) a \<le> live_cover lv (ta_region ta) a"
proof -
  from assms obtain lv' where "lv = add_mset ta lv'" by (meson multi_member_split)
  then show ?thesis by simp
qed

lemma free_block_managed:
  assumes ok: "tmm_ok M t fl" and x: "x \<in> set (fl r)"
  shows "{unat (mb_base (tm_blocks t x))..<bend (tm_blocks t) x} \<subseteq> M r"
proof
  fix a assume "a \<in> {unat (mb_base (tm_blocks t x))..<bend (tm_blocks t) x}"
  then have "rng (unat (mb_base (tm_blocks t x))) (unat (mb_size (tm_blocks t x))) a = 1"
    by (simp add: rng_def bend_def)
  with free_cover_mem [OF x, of "tm_blocks t" a] have "1 \<le> free_cover (tm_blocks t) (fl r) a" by simp
  with tmm_okD(6) [OF ok, of r a] show "a \<in> M r" by (auto split: if_splits)
qed

lemma live_managed:
  assumes ok: "tmm_ok M t fl" and ta: "ta \<in> set (live t)"
  shows "{unat (ta_phys_addr ta)..<unat (ta_phys_addr ta) + unat (ta_size ta)} \<subseteq> M (ta_region ta)"
proof
  fix a assume "a \<in> {unat (ta_phys_addr ta)..<unat (ta_phys_addr ta) + unat (ta_size ta)}"
  then have "rng (unat (ta_phys_addr ta)) (unat (ta_size ta)) a = 1" by (simp add: rng_def)
  with live_cover_mem [of ta "mset (live t)" a] ta have "1 \<le> live_cover (mset (live t)) (ta_region ta) a" by simp
  with tmm_okD(6) [OF ok, of "ta_region ta" a] show "a \<in> M (ta_region ta)" by (auto split: if_splits)
qed

lemma range_below:
  assumes "managed_ok M" and "{b..<b + s} \<subseteq> M r" and "0 < s"
  shows "b + s \<le> 2 ^ 32"
proof -
  have "b + s - 1 \<in> {b..<b + s}" using assms(3) by auto
  then have "b + s - 1 < 2 ^ 32" using assms(1,2) unfolding managed_ok_def by blast
  then show ?thesis by simp
qed

lemma bend_bound:
  assumes ok: "tmm_ok M t fl" and x: "x \<in> set (fl r)"
  shows "bend (tm_blocks t) x \<le> 2 ^ 32" and "bend (tm_blocks t) x < 2 ^ 64"
proof -
  have "mb_size (tm_blocks t x) \<noteq> 0"
    using list_okD(2) [OF lists_okD(1) [OF tmm_okD(2) [OF ok]] x] by simp
  then show le: "bend (tm_blocks t) x \<le> 2 ^ 32"
    using range_below [OF tmm_okD(1) [OF ok]] free_block_managed [OF ok x]
    by (simp add: bend_def unat_gt_0)
  then show "bend (tm_blocks t) x < 2 ^ 64" by (rule le_less_trans) simp
qed

lemma region_managed:
  assumes ok: "tmm_ok M t fl" and "x \<in> set (fl r)"
  shows "r \<in> {1, 2, 3, 4}"
proof (rule ccontr)
  assume "r \<notin> {1, 2, 3, 4}"
  then have "M r = {}" using tmm_okD(1) [OF ok] unfolding managed_ok_def by blast
  moreover have "mb_size (tm_blocks t x) \<noteq> 0"
    using list_okD(2) [OF lists_okD(1) [OF tmm_okD(2) [OF ok]] assms(2)] by simp
  ultimately show False
    using free_block_managed [OF ok assms(2)] base_less_bend [of "tm_blocks t" x] by auto
qed

lemma tmm_ok_store:
  assumes ok: "tmm_ok M t fl" and lists: "lists_ok t' fl'"
    and cov: "\<And>r a. free_cover (tm_blocks t') (fl' r) a = free_cover (tm_blocks t) (fl r) a"
    and byt: "\<And>r. bytes (tm_blocks t') (fl' r) = bytes (tm_blocks t) (fl r)"
    and bud: "tm_next t' \<le> MAX_BLOCKS"
      "region_sum (\<lambda>r. length (fl' r)) + unat (tm_next t) \<le> region_sum (\<lambda>r. length (fl r)) + unat (tm_next t')"
    and same: "tm_table t' = tm_table t" "tm_count t' = tm_count t" "tm_next_id t' = tm_next_id t"
      "tm_stats t' = tm_stats t"
  shows "tmm_ok M t' fl'"
proof -
  have live: "live t' = live t" by (simp add: live_def same)
  have "mstats_ok t' fl'" using tmm_okD(5) [OF ok] unfolding mstats_ok_def live same byt .
  moreover have "tensors_ok t'" using tmm_okD(3) [OF ok] by (simp add: tensors_ok_def live same)
  moreover have "budget_ok t' fl'" using tmm_okD(4) [OF ok] bud by (simp add: budget_ok_def same)
  ultimately show ?thesis using ok lists cov live by (simp add: tmm_ok_def)
qed

lemma region_sum_add:
  assumes "r \<in> {1, 2, 3, 4}" and "\<And>q. q \<noteq> r \<Longrightarrow> f q = g q" and "f r + d = g r"
  shows "region_sum f + d = region_sum g"
proof -
  have eq: "g r = f r + d" using assms(3) by simp
  show ?thesis
    using assms(1) assms(2) [of 1] assms(2) [of 2] assms(2) [of 3] assms(2) [of 4] eq
    by (auto simp: region_sum_def) (simp_all add: ac_simps)
qed

section \<open>Splitting a free block\<close>

lemma alloc_block_eq:
  assumes "tm_next t < MAX_BLOCKS"
  shows "alloc_block t = (Some (unat (tm_next t)), t\<lparr>tm_next := tm_next t + 1,
     tm_blocks := upd (tm_blocks t) (unat (tm_next t))
       (\<lambda>n. n\<lparr>mb_next := None, mb_prev := None, mb_is_free := True, mb_tensor_id := 0\<rparr>)\<rparr>)"
  and "unat (tm_next t + 1) = Suc (unat (tm_next t))" and "tm_next t + 1 \<le> MAX_BLOCKS"
proof -
  have lt: "unat (tm_next t) < 4096" using assms by (simp add: word_less_nat_alt)
  then show suc: "unat (tm_next t + 1) = Suc (unat (tm_next t))" by (simp add: unat_add_no_wrap)
  then show "tm_next t + 1 \<le> MAX_BLOCKS" using lt by (simp add: word_le_nat_alt)
  show "alloc_block t = (Some (unat (tm_next t)), t\<lparr>tm_next := tm_next t + 1,
     tm_blocks := upd (tm_blocks t) (unat (tm_next t))
       (\<lambda>n. n\<lparr>mb_next := None, mb_prev := None, mb_is_free := True, mb_tensor_id := 0\<rparr>)\<rparr>)"
    using assms by (simp add: alloc_block_def Let_def not_le [symmetric])
qed

text \<open>Shrinking one block of a list to a part of its range, while a fresh descriptor is set up.\<close>

lemma lists_shrink:
  assumes ok: "lists_ok t fl" and xs: "fl r = pre @ b # post"
    and n: "n = unat (tm_next t)" "unat nx = Suc n"
    and m': "\<And>x. x \<noteq> b \<Longrightarrow> x \<noteq> n \<Longrightarrow> m' x = tm_blocks t x"
      "mb_next (m' b) = mb_next (tm_blocks t b)" "mb_prev (m' b) = mb_prev (tm_blocks t b)"
      "mb_is_free (m' b) = mb_is_free (tm_blocks t b)" "mb_size (m' b) \<noteq> 0"
      "unat (mb_base (tm_blocks t b)) \<le> unat (mb_base (m' b))" "bend m' b \<le> bend (tm_blocks t) b"
  shows "lists_ok (t\<lparr>tm_next := nx, tm_blocks := m'\<rparr>) fl" and "\<And>q. n \<notin> set (fl q)"
proof -
  let ?m = "tm_blocks t" and ?t' = "t\<lparr>tm_next := nx, tm_blocks := m'\<rparr>"
  note l = lists_okD [OF ok]
  show fresh: "n \<notin> set (fl q)" for q using list_okD(2) [OF l(1), of n q] n(1) by auto
  have same: "m' x = ?m x" if "x \<in> set (fl q)" "x \<noteq> b" for x q
    using m'(1) [OF that(2)] that(1) fresh by metis
  have "list_ok ?t' fl q" for q
  proof (rule list_ok_frame [OF l(1) [of q]])
    fix x assume x: "x \<in> set (fl q)"
    show "mb_next (tm_blocks ?t' x) = mb_next (?m x) \<and> mb_prev (tm_blocks ?t' x) = mb_prev (?m x)
        \<and> mb_is_free (tm_blocks ?t' x) \<and> mb_size (tm_blocks ?t' x) \<noteq> 0"
      using list_okD(2) [OF l(1) x] same [OF x] m'(2-5) by (cases "x = b") auto
  qed (use n in auto)
  moreover have "ordered m' (fl q)" for q
  proof -
    have "bend m' x \<le> unat (mb_base (m' y))"
      if "x \<in> set (fl q)" "y \<in> set (fl q)" "bend ?m x \<le> unat (mb_base (?m y))" for x y
      using same that m'(6,7) by (cases "x = b"; cases "y = b") (fastforce simp: bend_def)+
    then show ?thesis using l(2) [of q] unfolding ordered_def by (auto elim!: sorted_wrt_mono_rel [rotated 1])
  qed
  ultimately show "lists_ok ?t' fl" by (simp add: lists_ok_def)
qed

text \<open>
  Splitting: block \<open>b\<close> keeps one part of its range, a fresh descriptor \<open>n\<close> gets the other
  and is inserted before or behind it.
\<close>

lemma split_insert:
  assumes ok: "tmm_ok M t fl" and xs: "fl r = pre @ b # post" and room: "tm_next t < MAX_BLOCKS"
    and n: "n = unat (tm_next t)"
    and m': "\<And>x. x \<noteq> b \<Longrightarrow> x \<noteq> n \<Longrightarrow> m' x = tm_blocks t x"
      "mb_next (m' b) = mb_next (tm_blocks t b)" "mb_prev (m' b) = mb_prev (tm_blocks t b)"
      "mb_is_free (m' b) = mb_is_free (tm_blocks t b)" "mb_size (m' b) \<noteq> 0" "mb_size (m' n) \<noteq> 0"
      "mb_is_free (m' n)"
    and cut: "front = unat (mb_base (tm_blocks t b))" "front + k + l = bend (tm_blocks t) b"
      "if low then unat (mb_base (m' n)) = front \<and> unat (mb_size (m' n)) = k
                 \<and> unat (mb_base (m' b)) = front + k \<and> unat (mb_size (m' b)) = l
       else unat (mb_base (m' b)) = front \<and> unat (mb_size (m' b)) = k
                 \<and> unat (mb_base (m' n)) = front + k \<and> unat (mb_size (m' n)) = l"
  defines "xs' \<equiv> (if low then pre @ n # b # post else pre @ b # n # post)"
  obtains m'' ls' where
    "free_list_insert n r (t\<lparr>tm_next := tm_next t + 1, tm_blocks := m'\<rparr>) =
       Some (t\<lparr>tm_next := tm_next t + 1, tm_blocks := m'', tm_lists := ls'\<rparr>)"
    "tmm_ok M (t\<lparr>tm_next := tm_next t + 1, tm_blocks := m'', tm_lists := ls'\<rparr>) (fl(r := xs'))"
    "\<And>x. core (m'' x) = core (m' x)"
proof -
  let ?m = "tm_blocks t" and ?t1 = "t\<lparr>tm_next := tm_next t + 1, tm_blocks := m'\<rparr>"
  note nx = alloc_block_eq(2,3) [OF room]
  note lk = lists_okD [OF tmm_okD(2) [OF ok]]
  have kl: "0 < k" "0 < l" using cut(3) m'(5,6) by (auto simp: unat_gt_0 split: if_splits)
  have sz: "unat (mb_size (?m b)) = k + l" using cut(1,2) by (simp add: bend_def)
  have bb: "unat (mb_base (?m b)) \<le> unat (mb_base (m' b))" "bend m' b \<le> bend ?m b"
    using cut by (auto simp: bend_def split: if_splits)
  note sh = lists_shrink [OF tmm_okD(2) [OF ok] xs n nx(1) [folded n] m'(1-5) bb]
  have bn: "b \<noteq> n" using sh(2) [of r] xs by auto
  have same: "m' x = ?m x" if "x \<in> set (pre @ post)" for x
  proof -
    have "distinct (pre @ b # post)" using mb.chain_distinct list_okD(1) [OF lk(1)] xs by metis
    then have "x \<noteq> b" "x \<noteq> n" using that sh(2) [of r] xs by auto
    then show ?thesis by (rule m'(1))
  qed
  have pre: "bend m' x \<le> front \<and> mb_size (m' x) \<noteq> 0" if "x \<in> set pre" for x
    using that lk(2) [of r] list_okD(2) [OF lk(1), of x r] same [of x] cut(1) xs
    by (auto simp: ordered_append ordered_Cons bend_def)
  have post: "front + k + l \<le> unat (mb_base (m' x))" if "x \<in> set post" for x
    using that lk(2) [of r] same [of x] cut(2) xs by (auto simp: ordered_append ordered_Cons)
  have ap: "\<forall>x \<in> set (fl r). apart m' x n"
    using pre post cut(3) by (fastforce simp: xs apart_def bend_def split: if_splits)
  let ?P = "\<lambda>x. mb_base (m' x) < mb_base (m' n)"
  have pos: "takeWhile ?P (fl r) @ n # dropWhile ?P (fl r) = xs'"
  proof (cases low)
    case True
    have "\<forall>x \<in> set pre. ?P x" using pre base_less_bend [of m'] cut(3) True by (fastforce simp: word_less_nat_alt)
    moreover have "\<forall>x \<in> set (b # post). \<not> ?P x" using post cut(3) True kl by (fastforce simp: word_less_nat_alt)
    ultimately show ?thesis
      using takeWhile_between [of pre ?P "b # post"] True by (simp add: xs xs'_def)
  next
    case False
    have "\<forall>x \<in> set (pre @ [b]). ?P x"
      using pre base_less_bend [of m'] cut(3) False kl by (fastforce simp: word_less_nat_alt)
    moreover have "\<forall>x \<in> set post. \<not> ?P x" using post cut(3) False by (fastforce simp: word_less_nat_alt)
    ultimately show ?thesis
      using takeWhile_between [of "pre @ [b]" ?P post] False by (simp add: xs xs'_def)
  qed
  obtain m'' ls' where
    ins: "free_list_insert n r ?t1 = Some (?t1\<lparr>tm_blocks := m'', tm_lists := ls'\<rparr>)"
    and lists: "lists_ok (?t1\<lparr>tm_blocks := m'', tm_lists := ls'\<rparr>) (fl(r := xs'))"
    and co: "\<And>x. core (m'' x) = core (if x = n then (m' n)\<lparr>mb_is_free := True\<rparr> else m' x)"
    using lists_insert [OF sh(1) sh(2), of r] ap m'(6) nx(1) n pos by auto
  let ?t2 = "t\<lparr>tm_next := tm_next t + 1, tm_blocks := m'', tm_lists := ls'\<rparr>"
  have co': "core (m'' x) = core (m' x)" for x
    using co [of x] m'(7) by (auto simp: core_def)
  have eq: "free_cover m'' ys a = free_cover ?m ys a" "bytes m'' ys = bytes ?m ys"
    if "\<And>x. x \<in> set ys \<Longrightarrow> m' x = ?m x" for ys a
    using that co' by (intro free_cover_core bytes_core; simp)+
  have flds: "mb_base (m'' x) = mb_base (m' x)" "mb_size (m'' x) = mb_size (m' x)" for x
    using core_fields [OF co' [of x]] by simp_all
  have "unat (mb_size (m' n) + mb_size (m' b)) = unat (mb_size (?m b))"
    using cut(3) sz word_bounds(1) [of "mb_size (?m b)"]
    by (subst unat_add_no_wrap) (auto split: if_splits)
  then have szw: "mb_size (m' n) + mb_size (m' b) = mb_size (?m b)" by (rule unat_eqI)
  have other: "m' x = ?m x" if "x \<in> set (fl q)" "q \<noteq> r" for x q
  proof (rule m'(1))
    show "x \<noteq> b" using list_okD(3) [OF lk(1) that(2)] that(1) xs by auto
    show "x \<noteq> n" using sh(2) that(1) by metis
  qed
  have fc: "free_cover m'' (if q = r then xs' else fl q) a = free_cover ?m (fl q) a" for q a
  proof (cases "q = r")
    case True
    have "rng (unat (mb_base (m' n))) (unat (mb_size (m' n))) a + rng (unat (mb_base (m' b))) (unat (mb_size (m' b))) a
        = rng (unat (mb_base (?m b))) (unat (mb_size (?m b))) a"
      using cut(1,3) sz rng_split [of front k l a] by (auto split: if_splits)
    with True eq [of pre] eq [of post] same show ?thesis by (simp add: xs xs'_def flds)
  next
    case False
    then show ?thesis using eq [of "fl q"] other by simp
  qed
  have by': "bytes m'' (if q = r then xs' else fl q) = bytes ?m (fl q)" for q
  proof (cases "q = r")
    case True
    with szw szw [unfolded add.commute [of "mb_size (m' n)"]] eq [of pre] eq [of post] same show ?thesis
      by (simp add: xs xs'_def flds)
  next
    case False
    then show ?thesis using eq [of "fl q"] other by simp
  qed
  have "tmm_ok M ?t2 (fl(r := xs'))"
  proof (rule tmm_ok_store [OF ok])
    have "r \<in> {1, 2, 3, 4}" using region_managed [OF ok, of b r] xs by simp
    then have "region_sum (\<lambda>q. length (fl q)) + 1 = region_sum (\<lambda>q. length ((fl(r := xs')) q))"
      by (rule region_sum_add) (simp_all add: xs xs'_def)
    then show "region_sum (\<lambda>q. length ((fl(r := xs')) q)) + unat (tm_next t) \<le>
       region_sum (\<lambda>q. length (fl q)) + unat (tm_next ?t2)"
      using nx(1) by simp
  qed (use lists fc by' nx in \<open>simp_all add: fun_upd_def\<close>)
  then show thesis using that ins co' by simp
qed

end
