(* ===== verification/Tensor_MM_Ops.thy ===== *)
theory Tensor_MM_Ops
  imports Tensor_MM_Lists
begin

text \<open>
  The operations of the tensor memory manager keep its invariant: allocation, release,
  reference counting and pinning, and the release of all model tensors.
\<close>

section \<open>Alignment\<close>

lemma alignment_pow2:
  fixes a :: u32
  assumes "(if a0 < 64 then 64 else a0) = a" and "a AND (a - 1) = 0"
  obtains k where "a = 2 ^ k" "6 \<le> k" "k < 32" "unat a = 2 ^ k"
proof -
  have ge: "64 \<le> unat a" using assms(1) by (auto simp: word_le_nat_alt not_less split: if_splits)
  then have "a \<noteq> 0" by auto
  with word_pow2_test [OF assms(2)] obtain k where k: "k < 32" "a = 2 ^ k" by auto
  then have u: "unat a = 2 ^ k" by (simp add: unat_pow2)
  have "6 \<le> k"
  proof (rule ccontr)
    assume "\<not> 6 \<le> k"
    then have "(2::nat) ^ k \<le> 2 ^ 5" by (intro power_increasing) auto
    with u ge show False by simp
  qed
  with k u show thesis by (intro that)
qed

lemma excludes_hole:
  "allocation_excludes_bootstrap_user_hole base sz \<longleftrightarrow>
     sz \<noteq> 0 \<and> unat base + unat sz < 2 ^ 64 \<and> {unat base..<unat base + unat sz} \<inter> {unat USER_BASE..<unat USER_END} = {}"
proof (cases "sz \<noteq> 0 \<and> unat base + unat sz < 2 ^ 64")
  case True
  then have "unat (base + sz) = unat base + unat sz" by (simp add: unat_add_no_wrap)
  moreover have "0 < unat sz" using True by (simp add: unat_gt_0)
  ultimately show ?thesis
    using True overflow_guard [of sz base]
    by (auto simp: allocation_excludes_bootstrap_user_hole_def ranges_overlap_def word_less_nat_alt)
next
  case False
  then show ?thesis
    using overflow_guard [of sz base] by (auto simp: allocation_excludes_bootstrap_user_hole_def)
qed

text \<open>
  What \<open>fits\<close> guarantees for a block below 4 GiB: the aligned base does not wrap, and the
  allocation lies inside the block.
\<close>

lemma fits_arith:
  assumes fit: "fits sz a n" and a: "a = 2 ^ k" "k < 32" and below: "unat (mb_base n) + unat (mb_size n) \<le> 2 ^ 32"
  defines "ab \<equiv> ALIGN_UP_u32 (mb_base n) a"
  shows "unat (mb_base n) \<le> unat ab" and "2 ^ k dvd unat ab"
    and "unat ab + unat sz \<le> unat (mb_base n) + unat (mb_size n)" and "sz \<noteq> 0"
    and "unat (ab - mb_base n) = unat ab - unat (mb_base n)"
    and "\<not> UINT64_MAX - (ucast a - 1) < mb_base n"
    and "allocation_excludes_bootstrap_user_hole ab sz"
proof -
  let ?b = "unat (mb_base n)"
  have f: "sz \<le> mb_size n" "ab - mb_base n \<le> mb_size n" "sz \<le> mb_size n - (ab - mb_base n)"
    "\<not> UINT64_MAX - (ucast a - 1) < mb_base n" "allocation_excludes_bootstrap_user_hole ab sz"
    using fit by (auto simp: fits_def ab_def Let_def)
  have ua: "unat a = 2 ^ k" using a by (simp add: unat_pow2)
  then have "?b + (2 ^ k - 1) < 2 ^ 64"
    using f(4) unfolding overflow_guard by (simp add: unat_ucast_minus_one)
  with a have ab: "unat ab = (?b + (2 ^ k - 1)) div 2 ^ k * 2 ^ k mod 2 ^ 32"
    by (simp add: ab_def unat_ALIGN_UP_u32)
  obtain A where Adef: "(?b + (2 ^ k - 1)) div 2 ^ k * 2 ^ k = A" by blast
  have A: "?b \<le> A" "A < ?b + 2 ^ k" "2 ^ k dvd A"
    using div_mult_round_up [of "2 ^ k" ?b] unfolding Adef by simp_all
  note ab = ab [unfolded Adef]
  have k31: "(2::nat) ^ k \<le> 2 ^ 31" using a(2) by (intro power_increasing) auto
  have le: "?b \<le> unat ab"
  proof (rule ccontr)
    assume "\<not> ?b \<le> unat ab"
    then have "unat (ab - mb_base n) = 2 ^ 64 + unat ab - ?b"
      by (simp add: unat_sub_if' word_bounds)
    then show False using f(2) below by (simp add: word_le_nat_alt)
  qed
  have lt: "A < 2 ^ 32"
  proof (rule ccontr)
    assume nlt: "\<not> A < 2 ^ 32"
    then have "A mod 2 ^ 32 = A - 2 ^ 32" using A(2) k31 below by (simp add: mod_if)
    moreover have "(2::nat) ^ 31 < 2 ^ 32" by simp
    ultimately show False using nlt le ab A(2) k31 by linarith
  qed
  then have abA: "unat ab = A" using ab by simp
  show "?b \<le> unat ab" by (rule le)
  show "2 ^ k dvd unat ab" using A(3) by (simp add: abA)
  show w: "unat (ab - mb_base n) = unat ab - ?b" using le by (simp add: unat_sub word_le_nat_alt)
  have "unat (mb_size n - (ab - mb_base n)) = unat (mb_size n) - (unat ab - ?b)"
    using f(2) w by (simp add: unat_sub word_le_nat_alt)
  then show "unat ab + unat sz \<le> ?b + unat (mb_size n)"
    using f(2,3) w le by (simp add: word_le_nat_alt)
  show "sz \<noteq> 0" using f(5) by (simp add: excludes_hole)
  show "\<not> UINT64_MAX - (ucast a - 1) < mb_base n" "allocation_excludes_bootstrap_user_hole ab sz" by fact+
qed

section \<open>Best fit\<close>

lemma best_fold:
  fixes F :: "nat \<Rightarrow> bool" and S :: "nat \<Rightarrow> u64"
  assumes "fold (\<lambda>r (best, bs). if F r \<and> S r < bs then (Some r, S r) else (best, bs)) xs (b0, s0) = (b, s)"
  shows "(b = b0 \<and> s = s0 \<or> (\<exists>x \<in> set xs. b = Some x \<and> s = S x \<and> F x)) \<and> s \<le> s0
    \<and> (\<forall>y \<in> set xs. F y \<longrightarrow> s \<le> S y)"
  using assms
proof (induction xs arbitrary: b0 s0)
  case (Cons x xs)
  show ?case
  proof (cases "F x \<and> S x < s0")
    case True
    with Cons.IH [of "Some x" "S x"] Cons.prems show ?thesis by auto
  next
    case False
    with Cons.IH [of b0 s0] Cons.prems show ?thesis by (auto simp: not_less)
  qed
qed simp

lemma find_best_fit_spec:
  assumes ok: "tmm_ok M t fl"
  shows "\<exists>res. find_best_fit r sz a t = Some res \<and>
    (case res of
       None \<Rightarrow> \<forall>x \<in> set (fl r). \<not> fits sz a (tm_blocks t x)
     | Some b \<Rightarrow> b \<in> set (fl r) \<and> fits sz a (tm_blocks t b)
         \<and> (\<forall>x \<in> set (fl r). fits sz a (tm_blocks t x) \<longrightarrow> mb_size (tm_blocks t b) \<le> mb_size (tm_blocks t x)))"
proof -
  let ?F = "\<lambda>x. fits sz a (tm_blocks t x)" and ?S = "\<lambda>x. mb_size (tm_blocks t x)"
  let ?g = "\<lambda>x (best, bs). if ?F x \<and> ?S x < bs then (Some x, ?S x) else (best, bs)"
  have ch: "mb.chain (tm_blocks t) (tm_lists t r) (fl r)"
    by (rule list_okD(1) [OF lists_okD(1) [OF tmm_okD(2) [OF ok]]])
  obtain b s where bs: "fold ?g (fl r) (None, UINT64_MAX) = (b, s)" by (cases "fold ?g (fl r) (None, UINT64_MAX)")
  have "sfold (\<lambda>x p. (?g x p, False)) (fl r) (None, UINT64_MAX) = (b, s)"
    using sfold_no_stop [where f = "\<lambda>x p. (?g x p, False)" and g = ?g] bs by simp
  with mb.chain_scan [OF ch, of "\<lambda>x p. (?g x p, False)" "(None, UINT64_MAX)"]
  have "find_best_fit r sz a t = Some b"
    by (simp add: find_best_fit_def split_def)
  moreover have "?S x < UINT64_MAX" if "x \<in> set (fl r)" for x
  proof -
    have "unat (?S x) \<le> 2 ^ 32" using bend_bound(1) [OF ok that] by (simp add: bend_def)
    then show ?thesis by (simp add: word_less_nat_alt unsigned_minus_1_eq_mask mask_eq_exp_minus_1)
  qed
  ultimately show ?thesis using best_fold [OF bs] by (fastforce split: option.split)
qed

section \<open>Allocation\<close>

lemma same_tables_refl [simp]: "same_tables t t"
  by (simp add: same_tables_def)

lemma list_distinct:
  assumes "tmm_ok M t fl"
  shows "distinct (fl r)"
  using mb.chain_distinct [OF list_okD(1) [OF lists_okD(1) [OF tmm_okD(2) [OF assms]]]] .

lemma split_prefix_ok:
  assumes ok: "tmm_ok M t fl" and xs: "fl r = pre @ b # post"
    and ab: "unat (mb_base (tm_blocks t b)) \<le> unat ab" "unat ab < bend (tm_blocks t) b"
    and sep: "separated (tm_blocks t) (pre @ b # post)"
  shows "\<exists>res. split_prefix b ab r t = Some res \<and> (res = None \<longrightarrow> MAX_BLOCKS \<le> tm_next t) \<and> (\<forall>t'. res = Some t' \<longrightarrow>
     (\<exists>pre'. tmm_ok M t' (fl(r := pre' @ b # post)) \<and> same_tables t t'
       \<and> mb_base (tm_blocks t' b) = ab \<and> bend (tm_blocks t') b = bend (tm_blocks t) b
       \<and> separated (tm_blocks t') pre' \<and> separated (tm_blocks t') (b # post)
       \<and> (\<forall>q. q \<noteq> r \<longrightarrow> (\<forall>x \<in> set (fl q). core (tm_blocks t' x) = core (tm_blocks t x)))))"
proof -
  let ?m = "tm_blocks t" let ?k = "ab - mb_base (?m b)"
  have k: "unat ?k = unat ab - unat (mb_base (?m b))" using ab(1) by (simp add: unat_sub word_le_nat_alt)
  have sep': "separated ?m pre" "separated ?m (b # post)" using sep by (auto simp: separated_append)
  consider "?k = 0" | "?k \<noteq> 0" "MAX_BLOCKS \<le> tm_next t" | "?k \<noteq> 0" "tm_next t < MAX_BLOCKS" by fastforce
  then show ?thesis
  proof cases
    case 1
    then have "split_prefix b ab r t = Some (Some t)" by (simp add: split_prefix_def)
    moreover have "fl(r := pre @ b # post) = fl" using xs by auto
    ultimately show ?thesis using ok sep' 1 by (auto intro!: exI [of _ pre])
  next
    case 2
    then show ?thesis by (auto simp: split_prefix_def alloc_block_def Let_def word_gt_0)
  next
    case 3
    let ?n = "unat (tm_next t)"
    let ?m1 = "upd ?m ?n (\<lambda>n. n\<lparr>mb_next := None, mb_prev := None, mb_is_free := True, mb_tensor_id := 0\<rparr>)"
    let ?m2 = "upd (upd ?m1 ?n (\<lambda>n. n\<lparr>mb_base := mb_base (?m1 b), mb_size := ?k, mb_type := r, mb_is_free := True\<rparr>))
      b (\<lambda>n. n\<lparr>mb_base := ab, mb_size := mb_size n - ?k\<rparr>)"
    have bn: "b \<noteq> ?n"
      using list_okD(2) [OF lists_okD(1) [OF tmm_okD(2) [OF ok]], of b r] xs by auto
    have kb: "unat (mb_size (?m b) - ?k) = bend ?m b - unat ab"
      using ab k by (simp add: unat_sub word_le_nat_alt bend_def)
    have v: "mb_base (?m2 b) = ab" "mb_size (?m2 b) = mb_size (?m b) - ?k" "mb_base (?m2 ?n) = mb_base (?m b)"
      "mb_size (?m2 ?n) = ?k"
      using bn by (simp_all add: upd_def)
    have kb0: "mb_size (?m2 b) \<noteq> 0" using kb ab v by (auto simp: unat_gt_0 [symmetric])
    obtain m'' ls' where
      ins: "free_list_insert ?n r (t\<lparr>tm_next := tm_next t + 1, tm_blocks := ?m2\<rparr>) =
         Some (t\<lparr>tm_next := tm_next t + 1, tm_blocks := m'', tm_lists := ls'\<rparr>)"
      and ok': "tmm_ok M (t\<lparr>tm_next := tm_next t + 1, tm_blocks := m'', tm_lists := ls'\<rparr>) (fl(r := pre @ ?n # b # post))"
      and co: "\<And>x. core (m'' x) = core (?m2 x)"
    proof (rule split_insert [OF ok xs 3(2) refl, where m' = ?m2 and low = True and k = "unat ?k"
        and l = "bend ?m b - unat ab" and front = "unat (mb_base (?m b))"])
      show "unat (mb_base (?m b)) + unat ?k + (bend ?m b - unat ab) = bend ?m b" using ab k by simp
    qed (use bn 3 kb k ab v kb0 in \<open>auto simp: upd_def\<close>)
    let ?t' = "t\<lparr>tm_next := tm_next t + 1, tm_blocks := m'', tm_lists := ls'\<rparr>"
    have sp: "split_prefix b ab r t = Some (Some ?t')"
      using 3 alloc_block_eq(1) [OF 3(2)] ins bn
      by (simp add: split_prefix_def Let_def word_gt_0)
    have d: "distinct (pre @ ?n # b # post)" using list_distinct [OF ok', of r] by simp
    have same: "core (m'' x) = core (?m x)" if "x \<noteq> b" "x \<noteq> ?n" for x
      using co [of x] that by (simp add: upd_def)
    have b': "mb_base (m'' b) = ab" "bend m'' b = bend ?m b"
      using core_fields [OF co [of b]] v kb ab by (simp_all add: bend_def)
    have n': "mb_base (m'' ?n) = mb_base (?m b)"
      using core_fields [OF co [of ?n]] v by simp
    have same': "core (m'' x) = core (?m x)" if "x \<in> set (pre @ post)" for x
      by (rule same) (use that d in auto)
    have "separated m'' pre" by (rule separated_coreI [OF sep'(1)]) (simp add: same')
    moreover have "separated m'' post"
      by (rule separated_coreI [where m = ?m]) (use sep'(2) same' in \<open>auto simp: separated_Cons\<close>)
    then have "separated m'' (b # post)"
      using sep'(2) b'(2) core_fields [OF same', of "hd post"] by (cases post) (auto simp: separated_Cons)
    moreover have "pre = [] \<or> bend m'' (last pre) < unat (mb_base (m'' ?n))"
      using sep d same [of "last pre"] bend_core [of m'' "last pre" ?m] n'
      by (cases pre rule: rev_cases) (auto simp: separated_append separated_Cons)
    ultimately have "separated m'' (pre @ [?n])" "separated m'' (b # post)"
      by (auto simp: separated_append)
    moreover have "core (m'' x) = core (?m x)" if "q \<noteq> r" "x \<in> set (fl q)" for x q
    proof (rule same)
      note l = lists_okD(1) [OF tmm_okD(2) [OF ok]]
      show "x \<noteq> b" using list_okD(3) [OF l that(1)] that(2) xs by auto
      show "x \<noteq> ?n" using list_okD(2) [OF l that(2)] by auto
    qed
    ultimately show ?thesis
      using sp ok' b' by (auto simp: same_tables_def intro!: exI [of _ "pre @ [?n]"])
  qed
qed

lemma split_remainder_ok:
  assumes ok: "tmm_ok M t fl" and xs: "fl r = pre @ b # post"
    and sz: "0 < unat sz" "sz \<le> mb_size (tm_blocks t b)"
    and sep: "separated (tm_blocks t) pre" "separated (tm_blocks t) (b # post)"
  shows "\<exists>t' post'. split_remainder b sz r t = Some t' \<and> tmm_ok M t' (fl(r := pre @ b # post'))
       \<and> same_tables t t' \<and> mb_base (tm_blocks t' b) = mb_base (tm_blocks t b)
       \<and> sz \<le> mb_size (tm_blocks t' b) \<and> bend (tm_blocks t') b \<le> bend (tm_blocks t) b
       \<and> separated (tm_blocks t') pre \<and> separated (tm_blocks t') post'
       \<and> (\<forall>q. q \<noteq> r \<longrightarrow> (\<forall>x \<in> set (fl q). core (tm_blocks t' x) = core (tm_blocks t x)))"
proof -
  let ?m = "tm_blocks t" let ?k = "mb_size (?m b) - sz"
  have k: "unat ?k = unat (mb_size (?m b)) - unat sz" using sz(2) by (simp add: unat_sub word_le_nat_alt)
  have trivial: ?thesis if "split_remainder b sz r t = Some t"
  proof -
    have "fl(r := pre @ b # post) = fl" using xs by auto
    with that ok sz sep show ?thesis by (intro exI [of _ t] exI [of _ post]) (auto simp: separated_Cons)
  qed
  consider "\<not> TENSOR_ALIGN < ?k" | "TENSOR_ALIGN < ?k" "MAX_BLOCKS \<le> tm_next t"
    | "TENSOR_ALIGN < ?k" "tm_next t < MAX_BLOCKS" by fastforce
  then show ?thesis
  proof cases
    case 3
    let ?n = "unat (tm_next t)"
    let ?m1 = "upd ?m ?n (\<lambda>n. n\<lparr>mb_next := None, mb_prev := None, mb_is_free := True, mb_tensor_id := 0\<rparr>)"
    let ?m2 = "upd (upd ?m1 ?n (\<lambda>n. n\<lparr>mb_base := mb_base (?m1 b) + sz, mb_size := mb_size (?m1 b) - sz,
      mb_type := r, mb_is_free := True\<rparr>)) b (\<lambda>n. n\<lparr>mb_size := sz\<rparr>)"
    have bn: "b \<noteq> ?n"
      using list_okD(2) [OF lists_okD(1) [OF tmm_okD(2) [OF ok]], of b r] xs by auto
    have bb: "bend ?m b < 2 ^ 64" using bend_bound(2) [OF ok, of b r] xs by simp
    have ub: "unat (mb_base (?m b) + sz) = unat (mb_base (?m b)) + unat sz"
      using bb sz(2) by (simp add: unat_add_no_wrap bend_def word_le_nat_alt)
    have k0: "?k \<noteq> 0" using 3(1) by (auto simp: word_less_nat_alt)
    have v: "mb_base (?m2 b) = mb_base (?m b)" "mb_size (?m2 b) = sz" "mb_base (?m2 ?n) = mb_base (?m b) + sz"
      "mb_size (?m2 ?n) = ?k"
      using bn by (simp_all add: upd_def)
    obtain m'' ls' where
      ins: "free_list_insert ?n r (t\<lparr>tm_next := tm_next t + 1, tm_blocks := ?m2\<rparr>) =
         Some (t\<lparr>tm_next := tm_next t + 1, tm_blocks := m'', tm_lists := ls'\<rparr>)"
      and ok': "tmm_ok M (t\<lparr>tm_next := tm_next t + 1, tm_blocks := m'', tm_lists := ls'\<rparr>) (fl(r := pre @ b # ?n # post))"
      and co: "\<And>x. core (m'' x) = core (?m2 x)"
    proof (rule split_insert [OF ok xs 3(2) refl, where m' = ?m2 and low = False and k = "unat sz"
        and l = "unat ?k" and front = "unat (mb_base (?m b))"])
      show "unat (mb_base (?m b)) + unat sz + unat ?k = bend ?m b"
        using k sz(2) by (simp add: bend_def word_le_nat_alt)
    qed (use bn k ub sz v k0 in \<open>auto simp: upd_def\<close>)
    let ?t' = "t\<lparr>tm_next := tm_next t + 1, tm_blocks := m'', tm_lists := ls'\<rparr>"
    have sp: "split_remainder b sz r t = Some ?t'"
      using 3 alloc_block_eq(1) [OF 3(2)] ins bn by (simp add: split_remainder_def Let_def)
    have d: "distinct (pre @ b # ?n # post)" using list_distinct [OF ok', of r] by simp
    have same: "core (m'' x) = core (?m x)" if "x \<noteq> b" "x \<noteq> ?n" for x
      using co [of x] that by (simp add: upd_def)
    have same': "core (m'' x) = core (?m x)" if "x \<in> set (pre @ post)" for x
      by (rule same) (use that d in auto)
    have b': "mb_base (m'' b) = mb_base (?m b)" "mb_size (m'' b) = sz"
      using core_fields [OF co [of b]] v by simp_all
    have bb': "bend m'' b \<le> bend ?m b" using b' sz(2) by (simp add: bend_def word_le_nat_alt)
    have n': "bend m'' ?n = bend ?m b"
      using core_fields [OF co [of ?n]] v ub k sz(2) by (simp add: bend_def word_le_nat_alt)
    have "separated m'' pre" by (rule separated_coreI [OF sep(1)]) (simp add: same')
    moreover have "separated m'' post"
      by (rule separated_coreI [where m = ?m]) (use sep(2) same' in \<open>auto simp: separated_Cons\<close>)
    then have "separated m'' (?n # post)"
      using sep(2) n' core_fields [OF same', of "hd post"] by (cases post) (auto simp: separated_Cons)
    moreover have "core (m'' x) = core (?m x)" if "q \<noteq> r" "x \<in> set (fl q)" for x q
    proof (rule same)
      note l = lists_okD(1) [OF tmm_okD(2) [OF ok]]
      show "x \<noteq> b" using list_okD(3) [OF l that(1)] that(2) xs by auto
      show "x \<noteq> ?n" using list_okD(2) [OF l that(2)] by auto
    qed
    ultimately show ?thesis
      using sp ok' b' bb' by (intro exI [of _ ?t'] exI [of _ "?n # post"]) (auto simp: same_tables_def)
  qed (use trivial in \<open>simp_all add: split_remainder_def alloc_block_def\<close>)
qed

lemma live_append:
  assumes "unat (tm_count t') = Suc (unat (tm_count t))"
    and "tm_table t' = (tm_table t)(unat (tm_count t) := ta)"
  shows "live t' = live t @ [ta]"
  using assms by (auto simp: live_def)

lemma sum_list_snoc_word: "sum_list (map f (xs @ [x])) = sum_list (map f xs) + (f x :: u64)"
  by simp

lemma lifetime_bytes_snoc:
  "lifetime_bytes (tas @ [ta]) k = lifetime_bytes tas k + (if ta_lifetime ta = k then ta_size ta else 0)"
  by (simp add: lifetime_bytes_def)

text \<open>The statistics follow the table when a tensor is added.\<close>

lemma stats_on_alloc_fields:
  fixes st ta sz
  defines "st' \<equiv> stats_on_alloc sz ta st"
  shows "ms_used_memory st' = ms_used_memory st + sz" "ms_free_memory st' = ms_free_memory st - sz"
    "ms_tensor_count st' = ms_tensor_count st + 1" "ms_total_memory st' = ms_total_memory st"
    "ms_short_term_memory st' = ms_short_term_memory st + (if ta_lifetime ta = MEM_LIFETIME_SHORT_TERM then ta_size ta else 0)"
    "ms_long_term_memory st' = ms_long_term_memory st + (if ta_lifetime ta = MEM_LIFETIME_LONG_TERM then ta_size ta else 0)"
    "ms_realtime_memory st' = ms_realtime_memory st + (if ta_lifetime ta = MEM_LIFETIME_REALTIME then ta_size ta else 0)"
    "ms_random_memory st' = ms_random_memory st + (if ta_lifetime ta = MEM_LIFETIME_RANDOM then ta_size ta else 0)"
    "ms_used_memory st' \<le> ms_peak_usage st'" "ms_alloc_count st' = ms_alloc_count st + 1"
  by (simp_all add: st'_def stats_on_alloc_def stats_add_allocation_profile_def Let_def not_less)

lemma next_id_bound:
  assumes "tmm_ok M t fl"
  shows "unat (tm_next_id t) \<le> 4097" and "unat (tm_next_id t + 1) = Suc (unat (tm_next_id t))"
proof -
  have "unat (tm_next t) \<le> 4096" using tmm_okD(4) [OF assms] by (simp add: budget_ok_def word_le_nat_alt)
  then show le: "unat (tm_next_id t) \<le> 4097" using tmm_okD(4) [OF assms] unfolding budget_ok_def by linarith
  then show "unat (tm_next_id t + 1) = Suc (unat (tm_next_id t))" by (simp add: unat_add_no_wrap)
qed

lemma lists_ok_cong:
  assumes ok: "lists_ok t fl" and "tm_lists t' = tm_lists t" and "tm_next t' = tm_next t"
    and same: "\<And>q x. x \<in> set (fl q) \<Longrightarrow> tm_blocks t' x = tm_blocks t x"
  shows "lists_ok t' fl"
proof -
  have "list_ok t' fl r" for r
    by (rule list_ok_frame [OF lists_okD(1) [OF ok]])
      (use assms list_okD(2) [OF lists_okD(1) [OF ok]] in auto)
  moreover have "ordered (tm_blocks t') (fl r)" for r
    by (rule ordered_core [OF _ lists_okD(2) [OF ok]]) (simp add: same)
  ultimately show ?thesis by (simp add: lists_ok_def)
qed

lemma record_tensor_ok:
  assumes ok: "tmm_ok M t fl" and xs: "fl r = pre @ b # post" and room: "tm_count t < MAX_TENSORS"
    and rec: "record_tensor b r lifetime rtc sto t = (ta, t')"
  shows "tmm_ok M t' (fl(r := pre @ post))" and "entered t r lifetime ta t'"
    and "ta_phys_addr ta = mb_base (tm_blocks t b)" and "ta_size ta = mb_size (tm_blocks t b)"
    and "\<And>x. x \<noteq> b \<Longrightarrow> core (tm_blocks t' x) = core (tm_blocks t x)"
proof -
  let ?m = "tm_blocks t"
  obtain m1 ls' where rm: "free_list_remove b r t = t\<lparr>tm_blocks := m1, tm_lists := ls'\<rparr>"
    and lists: "lists_ok (t\<lparr>tm_blocks := m1, tm_lists := ls'\<rparr>) (fl(r := pre @ post))"
    and co: "\<And>x. core (m1 x) = core (if x = b then (?m b)\<lparr>mb_is_free := False\<rparr> else ?m x)"
    using lists_remove [OF tmm_okD(2) [OF ok] xs] by metis
  have mb: "mb_base (m1 b) = mb_base (?m b)" "mb_size (m1 b) = mb_size (?m b)"
    using core_fields [OF co [of b]] by simp_all
  let ?m2 = "upd m1 b (\<lambda>n. n\<lparr>mb_tensor_id := tm_next_id t, mb_is_free := False\<rparr>)"
  have flds: "ta_phys_addr ta = mb_base (?m b)" "ta_virt_addr ta = mb_base (?m b)" "ta_size ta = mb_size (?m b)"
    "ta_region ta = r" "ta_ref_count ta = 1" "ta_id ta = tm_next_id t" "ta_lifetime ta = lifetime"
    using rec by (auto simp: record_tensor_def Let_def rm mb)
  have t': "tm_blocks t' = ?m2" "tm_lists t' = ls'" "tm_next t' = tm_next t" "tm_next_id t' = tm_next_id t + 1"
    "tm_count t' = tm_count t + 1" "tm_table t' = (tm_table t)(unat (tm_count t) := ta)"
    "tm_stats t' = stats_on_alloc (mb_size (?m b)) ta (tm_stats t)"
    "tm_pools t' = tm_pools t" "tm_ready t' = tm_ready t" "tm_excluded t' = tm_excluded t"
    using rec by (auto simp: record_tensor_def Let_def rm mb)
  show "ta_phys_addr ta = mb_base (?m b)" "ta_size ta = mb_size (?m b)" by fact+
  have cnt: "unat (tm_count t + 1) = Suc (unat (tm_count t))" "tm_count t + 1 \<le> MAX_TENSORS"
    using room by (simp_all add: unat_add_no_wrap word_less_nat_alt word_le_nat_alt)
  have live: "live t' = live t @ [ta]" by (rule live_append) (simp_all add: t' cnt)
  then show "entered t r lifetime ta t'" by (simp add: entered_def t' flds stats_on_alloc_fields)
  show co': "core (tm_blocks t' x) = core (?m x)" if "x \<noteq> b" for x
    using co [of x] that by (simp add: t' upd_def)
  have d: "distinct (pre @ b # post)" using list_distinct [OF ok, of r] xs by simp
  have off: "x \<noteq> b" if "x \<in> set ((fl(r := pre @ post)) q)" for x q
    using that d list_okD(3) [OF lists_okD(1) [OF tmm_okD(2) [OF ok]], of q r] xs by (auto split: if_splits)
  let ?fl = "fl(r := pre @ post)"
  have lists': "lists_ok t' ?fl"
    by (rule lists_ok_cong [OF lists]) (use off in \<open>auto simp: t' upd_def\<close>)
  have cov: "free_cover (tm_blocks t') (?fl q) a + (if q = r then rng (unat (mb_base (?m b))) (unat (mb_size (?m b))) a else 0)
     = free_cover ?m (fl q) a" for q a
    using free_cover_core [of "?fl q" "tm_blocks t'" ?m a] co' off [of _ q] by (auto simp: xs)
  have byt: "bytes (tm_blocks t') (?fl q) + (if q = r then mb_size (?m b) else 0) = bytes ?m (fl q)" for q
    using bytes_core [of "?fl q" "tm_blocks t'" ?m] co' off [of _ q] by (auto simp: xs)
  have r: "r \<in> {1, 2, 3, 4}" using region_managed [OF ok, of b r] xs by simp
  have "free_cover (tm_blocks t') (?fl q) a + live_cover (mset (live t')) q a = (if a \<in> M q then 1 else 0)" for q a
    using cov [of q a] tmm_okD(6) [OF ok, of q a] by (simp add: live flds split: if_splits)
  moreover have "tensors_ok t'"
    using tmm_okD(3) [OF ok] cnt next_id_bound(2) [OF ok] list_okD(2) [OF lists_okD(1) [OF tmm_okD(2) [OF ok]], of b r] xs
    by (auto simp: tensors_ok_def live flds t' word_less_nat_alt word_le_nat_alt)
  moreover have "budget_ok t' ?fl"
    using tmm_okD(3,4) [OF ok] region_sum_add [OF r, of "\<lambda>q. length (?fl q)" "\<lambda>q. length (fl q)" 1]
      next_id_bound(2) [OF ok] by (simp add: budget_ok_def tensors_ok_def t' xs word_le_nat_alt) linarith
  moreover have "mstats_ok t' ?fl"
  proof -
    have "region_sum (\<lambda>q. bytes (tm_blocks t') (?fl q)) + mb_size (?m b) = region_sum (\<lambda>q. bytes ?m (fl q))"
    proof (rule region_sum_add [OF r])
      show "bytes (tm_blocks t') (?fl q) = bytes ?m (fl q)" if "q \<noteq> r" for q using byt [of q] that by simp
      show "bytes (tm_blocks t') (?fl r) + mb_size (?m b) = bytes ?m (fl r)" using byt [of r] by simp
    qed
    then have "region_sum (\<lambda>q. bytes (tm_blocks t') (?fl q)) = region_sum (\<lambda>q. bytes ?m (fl q)) - mb_size (?m b)"
      by (simp only: eq_diff_eq)
    then show ?thesis
      using tmm_okD(5) [OF ok] unfolding mstats_ok_def t'(7) stats_on_alloc_fields live sum_list_snoc_word lifetime_bytes_snoc
      by (auto simp: flds)
  qed
  ultimately show "tmm_ok M t' ?fl" using lists' tmm_okD(1) [OF ok] by (simp add: tmm_ok_def)
qed

text \<open>The last three steps of an allocation from a block that fits.\<close>

lemma carve_ok:
  assumes inv: "tmm_inv M t fl" and xs: "fl r = pre @ b # post" and room: "tm_count t < MAX_TENSORS"
    and ab: "unat (mb_base (tm_blocks t b)) \<le> unat ab" "0 < unat sz" "unat ab + unat sz \<le> bend (tm_blocks t) b"
  shows "\<exists>res. split_prefix b ab r t = Some res \<and> (res = None \<longrightarrow> MAX_BLOCKS \<le> tm_next t) \<and> (\<forall>t1. res = Some t1 \<longrightarrow>
    (\<exists>t2 ta t3 fl'. split_remainder b sz r t1 = Some t2 \<and> record_tensor b r lifetime rtc sto t2 = (ta, t3)
      \<and> tmm_inv M t3 fl' \<and> entered t r lifetime ta t3 \<and> ta_phys_addr ta = ab \<and> sz \<le> ta_size ta
      \<and> unat ab + unat (ta_size ta) \<le> bend (tm_blocks t) b))"
proof -
  have ok: "tmm_ok M t fl" and sep: "\<And>q. separated (tm_blocks t) (fl q)" using inv by (simp_all add: tmm_inv_def)
  obtain res where sp: "split_prefix b ab r t = Some res" and full: "res = None \<longrightarrow> MAX_BLOCKS \<le> tm_next t"
    and pre_ok: "\<forall>t'. res = Some t' \<longrightarrow>
     (\<exists>pre'. tmm_ok M t' (fl(r := pre' @ b # post)) \<and> same_tables t t'
       \<and> mb_base (tm_blocks t' b) = ab \<and> bend (tm_blocks t') b = bend (tm_blocks t) b
       \<and> separated (tm_blocks t') pre' \<and> separated (tm_blocks t') (b # post)
       \<and> (\<forall>q. q \<noteq> r \<longrightarrow> (\<forall>x \<in> set (fl q). core (tm_blocks t' x) = core (tm_blocks t x))))"
    using split_prefix_ok [OF ok xs ab(1)] ab(2,3) sep [of r] xs by fastforce
  show ?thesis
  proof (intro exI [of _ res] conjI sp full allI impI)
    fix t1 assume "res = Some t1"
    with pre_ok obtain pre' where
      ok1: "tmm_ok M t1 (fl(r := pre' @ b # post))" and st1: "same_tables t t1"
      and b1: "mb_base (tm_blocks t1 b) = ab" "bend (tm_blocks t1) b = bend (tm_blocks t) b"
      and sep1: "separated (tm_blocks t1) pre'" "separated (tm_blocks t1) (b # post)"
      and co1: "\<And>q x. q \<noteq> r \<Longrightarrow> x \<in> set (fl q) \<Longrightarrow> core (tm_blocks t1 x) = core (tm_blocks t x)" by blast
    have "sz \<le> mb_size (tm_blocks t1 b)"
      using b1 ab(3) by (simp add: bend_def word_le_nat_alt)
    with split_remainder_ok [OF ok1, of r pre' b post sz] ab(2) sep1 obtain t2 post' where
      rem: "split_remainder b sz r t1 = Some t2" and ok2: "tmm_ok M t2 (fl(r := pre' @ b # post'))"
      and st2: "same_tables t1 t2" and b2: "mb_base (tm_blocks t2 b) = ab" "sz \<le> mb_size (tm_blocks t2 b)"
        "unat ab + unat (mb_size (tm_blocks t2 b)) \<le> bend (tm_blocks t) b"
      and sep2: "separated (tm_blocks t2) pre'" "separated (tm_blocks t2) post'"
      and co2: "\<And>q x. q \<noteq> r \<Longrightarrow> x \<in> set (fl q) \<Longrightarrow> core (tm_blocks t2 x) = core (tm_blocks t1 x)"
      using b1 by (auto simp: bend_def)
    obtain ta t3 where rec: "record_tensor b r lifetime rtc sto t2 = (ta, t3)"
      by (cases "record_tensor b r lifetime rtc sto t2")
    have st: "same_tables t t2" using st1 st2 by (simp add: same_tables_def)
    then have cnt: "tm_count t2 < MAX_TENSORS" using room by (simp add: same_tables_def)
    note rt = record_tensor_ok [OF ok2 _ cnt rec, of pre' post', simplified fun_upd_same fun_upd_upd, OF refl]
    have ent: "entered t r lifetime ta t3" using rt(2) st by (simp add: entered_def same_tables_def live_def)
    let ?fl = "fl(r := pre' @ post')"
    have d: "distinct (pre' @ b # post')" using list_distinct [OF ok2, of r] by simp
    have sepr: "separated (tm_blocks t3) (pre' @ post')"
    proof -
      have ord: "ordered (tm_blocks t2) (pre' @ b # post')"
        using lists_okD(2) [OF tmm_okD(2) [OF ok2], of r] by simp
      have bb: "unat (mb_base (tm_blocks t2 b)) < bend (tm_blocks t2) b"
        using base_less_bend list_okD(2) [OF lists_okD(1) [OF tmm_okD(2) [OF ok2]], of b r] by simp
      have "separated (tm_blocks t2) (pre' @ post')"
        using sep2 ord bb by (cases post'; cases pre' rule: rev_cases)
          (auto simp: separated_append separated_Cons ordered_append ordered_Cons)
      then show ?thesis by (rule separated_coreI) (rule rt(5), use d in auto)
    qed
    have "separated (tm_blocks t3) (?fl q)" for q
    proof (cases "q = r")
      case False
      have "b \<notin> set (fl q)" using list_okD(3) [OF lists_okD(1) [OF tmm_okD(2) [OF ok]] False] xs by auto
      then have "core (tm_blocks t3 x) = core (tm_blocks t x)" if "x \<in> set (fl q)" for x
        using rt(5) [of x] co2 [OF False that] co1 [OF False that] that by auto
      then show ?thesis using False separated_coreI [OF sep [of q]] by simp
    qed (simp add: sepr)
    then have "tmm_inv M t3 ?fl" using rt(1) by (simp add: tmm_inv_def)
    with rem rec ent rt(3,4) b2 show "\<exists>t2 ta t3 fl'. split_remainder b sz r t1 = Some t2 \<and> record_tensor b r lifetime rtc sto t2 = (ta, t3)
      \<and> tmm_inv M t3 fl' \<and> entered t r lifetime ta t3 \<and> ta_phys_addr ta = ab \<and> sz \<le> ta_size ta
      \<and> unat ab + unat (ta_size ta) \<le> bend (tm_blocks t) b"
      by (intro exI [of _ t2] exI [of _ ta] exI [of _ t3] exI [of _ ?fl]) simp
  qed
qed

lemma alloc_refused:
  assumes "\<not> (alloc_args_ok sz0 align0 r has_out \<and> tm_count t < MAX_TENSORS)"
  shows "\<exists>st. tensor_alloc_aligned_profiled sz0 align0 r lifetime rtc sto has_out t = Some (st, None, t) \<and> st \<noteq> AIOS_OK
    \<and> (st = AIOS_ERR_NOMEM \<longrightarrow> MAX_TENSORS \<le> tm_count t)
    \<and> (st \<noteq> AIOS_ERR_NOMEM \<longrightarrow> \<not> alloc_args_ok sz0 align0 r has_out)"
proof -
  define a where "a = eff_align align0"
  define sz where "sz = ALIGN_UP_u32 sz0 a"
  note defs = a_def [unfolded eff_align_def, symmetric] sz_def [symmetric] a_def [symmetric]
  show ?thesis
    using assms
    by (intro exI [of _ "if \<not> has_out \<or> sz0 = 0 \<or> NUM_REGIONS \<le> r then AIOS_ERR_INVAL
        else if MAX_TENSORS \<le> tm_count t then AIOS_ERR_NOMEM
        else if a AND (a - 1) \<noteq> 0 then AIOS_ERR_INVAL else AIOS_ERR_OVERFLOW"])
      (auto simp: tensor_alloc_aligned_profiled_def alloc_args_ok_def defs Let_def not_less split: if_splits)
qed

lemma alloc_call:
  assumes "alloc_args_ok sz0 align0 r has_out" and "tm_count t < MAX_TENSORS"
    and "find_best_fit r (ALIGN_UP_u32 sz0 (eff_align align0)) (eff_align align0) t = Some res"
    and "\<And>b. res = Some b \<Longrightarrow> \<not> UINT64_MAX - (ucast (eff_align align0) - 1) < mb_base (tm_blocks t b)
       \<and> allocation_excludes_bootstrap_user_hole (ALIGN_UP_u32 (mb_base (tm_blocks t b)) (eff_align align0))
           (ALIGN_UP_u32 sz0 (eff_align align0))"
  shows "tensor_alloc_aligned_profiled sz0 align0 r lifetime rtc sto has_out t =
    (case res of None \<Rightarrow> Some (AIOS_ERR_NOMEM, None, t) | Some b \<Rightarrow>
      Option.bind (split_prefix b (ALIGN_UP_u32 (mb_base (tm_blocks t b)) (eff_align align0)) r t) (\<lambda>res1. 
        case res1 of None \<Rightarrow> Some (AIOS_ERR_NOMEM, None, t) | Some t1 \<Rightarrow>
          Option.bind (split_remainder b (ALIGN_UP_u32 sz0 (eff_align align0)) r t1) (\<lambda>t2.
            case record_tensor b r lifetime rtc sto t2 of (ta, t3) \<Rightarrow> Some (AIOS_OK, Some ta, t3))))"
proof -
  define a where "a = eff_align align0"
  define sz where "sz = ALIGN_UP_u32 sz0 a"
  note defs = a_def [unfolded eff_align_def, symmetric] sz_def [symmetric] a_def [symmetric]
  have "\<not> NUM_REGIONS \<le> r" "\<not> MAX_TENSORS \<le> tm_count t"
    using assms(1,2) by (simp_all add: alloc_args_ok_def not_le)
  with assms show ?thesis
    by (cases res) (simp_all add: tensor_alloc_aligned_profiled_def alloc_args_ok_def defs Let_def)
qed

text \<open>
  Every call of the allocation entry point returns; it fails without touching the state, or
  succeeds with a fresh descriptor at the end of the table.
\<close>

lemma alloc_ok:
  fixes align0 sz0
  defines "a \<equiv> eff_align align0"
  defines "sz \<equiv> ALIGN_UP_u32 sz0 a"
  assumes inv: "tmm_inv M t fl"
  shows "\<exists>st out t'. tensor_alloc_aligned_profiled sz0 align0 r lifetime rtc sto has_out t = Some (st, out, t')
    \<and> (st \<noteq> AIOS_OK \<and> out = None \<and> t' = t
         \<and> (if st = AIOS_ERR_NOMEM then no_room t (fl r) sz a else \<not> alloc_args_ok sz0 align0 r has_out)
       \<or> st = AIOS_OK \<and> (\<exists>ta fl' k. out = Some ta \<and> tmm_inv M t' fl' \<and> entered t r lifetime ta t'
           \<and> placed t (fl r) sz a ta
           \<and> a = 2 ^ k \<and> k < 32 \<and> 2 ^ k dvd unat (ta_phys_addr ta) \<and> unat sz0 + (2 ^ k - 1) < 2 ^ 64))"
proof (cases "alloc_args_ok sz0 align0 r has_out \<and> tm_count t < MAX_TENSORS")
  case False
  from alloc_refused [OF this] show ?thesis by (fastforce simp: no_room_def)
next
  case guards: True
  have ok: "tmm_ok M t fl" using inv by (simp add: tmm_inv_def)
  from alignment_pow2 [of align0 a] guards obtain k where
    k: "a = 2 ^ k" "6 \<le> k" "k < 32" "unat a = 2 ^ k" unfolding a_def eff_align_def alloc_args_ok_def by metis
  obtain res where best: "find_best_fit r sz a t = Some res" and spec: "case res of
       None \<Rightarrow> \<forall>x \<in> set (fl r). \<not> fits sz a (tm_blocks t x) | Some b \<Rightarrow> best_block t (fl r) sz a b"
    using find_best_fit_spec [OF ok] unfolding best_block_def by blast
  note call = alloc_call [OF conjunct1 [OF guards] conjunct2 [OF guards], folded a_def, folded sz_def, OF best, of lifetime rtc sto]
  show ?thesis
  proof (cases res)
    case None
    then show ?thesis using call spec by (simp add: no_room_def)
  next
    case (Some b)
    with spec have bb: "best_block t (fl r) sz a b" by simp
    then have b: "b \<in> set (fl r)" "fits sz a (tm_blocks t b)" by (simp_all add: best_block_def)
    then obtain pre post where xs: "fl r = pre @ b # post" by (meson split_list)
    let ?ab = "ALIGN_UP_u32 (mb_base (tm_blocks t b)) a"
    have below: "unat (mb_base (tm_blocks t b)) + unat (mb_size (tm_blocks t b)) \<le> 2 ^ 32"
      using bend_bound(1) [OF ok b(1)] by (simp add: bend_def)
    note fa = fits_arith [OF b(2) k(1,3) below]
    have sz0: "0 < unat sz" using fa(4) by (simp add: unat_gt_0)
    from carve_ok [OF inv xs conjunct2 [OF guards] fa(1) sz0, of lifetime rtc sto] fa(3) obtain res1 where
      sp: "split_prefix b ?ab r t = Some res1" and full: "res1 = None \<longrightarrow> MAX_BLOCKS \<le> tm_next t"
      and rest: "\<forall>t1. res1 = Some t1 \<longrightarrow> (\<exists>t2 ta t3 fl'. split_remainder b sz r t1 = Some t2
        \<and> record_tensor b r lifetime rtc sto t2 = (ta, t3) \<and> tmm_inv M t3 fl' \<and> entered t r lifetime ta t3
        \<and> ta_phys_addr ta = ?ab \<and> sz \<le> ta_size ta \<and> unat ?ab + unat (ta_size ta) \<le> bend (tm_blocks t) b)"
      by (auto simp: bend_def)
    show ?thesis
    proof (cases res1)
      case None
      with call Some sp full fa(6,7) show ?thesis by (simp add: no_room_def)
    next
      case (Some t1)
      from rest [rule_format, OF this] obtain t2 ta t3 fl' where fin: "split_remainder b sz r t1 = Some t2"
        "record_tensor b r lifetime rtc sto t2 = (ta, t3)" "tmm_inv M t3 fl'" "entered t r lifetime ta t3"
        "ta_phys_addr ta = ?ab" "sz \<le> ta_size ta" "unat ?ab + unat (ta_size ta) \<le> bend (tm_blocks t) b" by blast
      have "tensor_alloc_aligned_profiled sz0 align0 r lifetime rtc sto has_out t = Some (AIOS_OK, Some ta, t3)"
        using call Some fin(1,2) sp \<open>res = Some b\<close> fa(6,7) by simp
      moreover have "placed t (fl r) sz a ta" using bb fin(5,6,7) by (auto simp: placed_def)
      moreover have "2 ^ k dvd unat (ta_phys_addr ta)" using fa(2) fin(5) by simp
      moreover have "unat sz0 + (2 ^ k - 1) < 2 ^ 64"
        using guards k(4) overflow_guard [of "ucast a - 1" sz0] unfolding alloc_args_ok_def a_def [symmetric]
        by (simp add: unat_ucast_minus_one)
      ultimately show ?thesis using fin(3,4) k(1,3) by blast
    qed
  qed
qed

section \<open>Release\<close>

lemma find_tensor_spec:
  "find_tensor tid t = None \<longleftrightarrow> tid \<notin> ta_id ` set (live t)"
  "find_tensor tid t = Some i \<Longrightarrow> i < unat (tm_count t) \<and> ta_id (tm_table t i) = tid \<and> tm_table t i \<in> set (live t)"
proof -
  show "find_tensor tid t = None \<longleftrightarrow> tid \<notin> ta_id ` set (live t)"
    by (auto simp: find_tensor_def find_None_iff live_def)
  show "find_tensor tid t = Some i \<Longrightarrow> i < unat (tm_count t) \<and> ta_id (tm_table t i) = tid \<and> tm_table t i \<in> set (live t)"
    by (auto simp: find_tensor_def find_Some_iff live_def)
qed

lemma table_remove_live:
  assumes i: "i < unat (tm_count t)"
  shows "mset (live t) = add_mset (tm_table t i) (mset (live (table_remove i t)))"
    and "unat (tm_count (table_remove i t)) = unat (tm_count t) - 1"
proof -
  let ?f = "tm_table t"
  obtain l where l: "unat (tm_count t) = Suc l" using i by (cases "unat (tm_count t)") auto
  then have "tm_count t \<noteq> 0" by (metis unat_eq_zero nat.distinct(1))
  then have lst: "unat (tm_count t - 1) = l" using unat_minus_one [of "tm_count t"] l by simp
  then show "unat (tm_count (table_remove i t)) = unat (tm_count t) - 1" by (simp add: table_remove_def Let_def l)
  show "mset (live t) = add_mset (?f i) (mset (live (table_remove i t)))"
  proof (cases "i < l")
    case True
    have "map (?f(i := ?f l)) [0..<l] = (map ?f [0..<l])[i := ?f l]"
      by (rule nth_equalityI) (auto simp: nth_list_update)
    then have "mset (map (?f(i := ?f l)) [0..<l]) = add_mset (?f l) (mset (map ?f [0..<l]) - {#?f i#})"
      using True by (simp only: mset_update length_map length_upt nth_map) simp
    moreover have "?f i \<in># mset (map ?f [0..<l])" using True by auto
    ultimately show ?thesis
      using True lst l by (simp add: live_def table_remove_def Let_def add_mset_commute)
  next
    case False
    then have "i = l" using i l by simp
    then show ?thesis using lst l by (simp add: live_def table_remove_def Let_def)
  qed
qed

lemma sum_list_mset:
  assumes "mset xs = add_mset a (mset ys)"
  shows "sum_list (map f xs) = f a + (sum_list (map f ys) :: 'b::comm_monoid_add)"
    and "sum_list (map f (filter P xs)) = (if P a then f a else 0) + sum_list (map f (filter P ys))"
proof -
  have "mset (map f xs) = mset (f a # map f ys)" using assms by simp
  then show "sum_list (map f xs) = f a + sum_list (map f ys)" by (metis sum_mset_sum_list sum_list.Cons)
  have "mset (map f (filter P xs)) = mset (map f (filter P (a # ys)))" using assms by simp
  then have "sum_list (map f (filter P xs)) = sum_list (map f (filter P (a # ys)))" by (metis sum_mset_sum_list)
  then show "sum_list (map f (filter P xs)) = (if P a then f a else 0) + sum_list (map f (filter P ys))" by simp
qed

lemma stats_on_free_fields:
  fixes st ta
  defines "st' \<equiv> stats_on_free ta st"
  shows "ms_used_memory st' = ms_used_memory st - ta_size ta" "ms_free_memory st' = ms_free_memory st + ta_size ta"
    "ms_tensor_count st' = ms_tensor_count st - 1" "ms_total_memory st' = ms_total_memory st"
    "ms_short_term_memory st' = ms_short_term_memory st - (if ta_lifetime ta = MEM_LIFETIME_SHORT_TERM then ta_size ta else 0)"
    "ms_long_term_memory st' = ms_long_term_memory st - (if ta_lifetime ta = MEM_LIFETIME_LONG_TERM then ta_size ta else 0)"
    "ms_realtime_memory st' = ms_realtime_memory st - (if ta_lifetime ta = MEM_LIFETIME_REALTIME then ta_size ta else 0)"
    "ms_random_memory st' = ms_random_memory st - (if ta_lifetime ta = MEM_LIFETIME_RANDOM then ta_size ta else 0)"
  by (simp_all add: st'_def stats_on_free_def stats_remove_allocation_profile_def)

lemma live_free_disjoint:
  assumes ok: "tmm_ok M t fl" and ta: "ta \<in> set (live t)" and x: "x \<in> set (fl (ta_region ta))"
  shows "bend (tm_blocks t) x \<le> unat (ta_phys_addr ta)
    \<or> unat (ta_phys_addr ta) + unat (ta_size ta) \<le> unat (mb_base (tm_blocks t x))"
proof (rule ccontr)
  let ?a = "max (unat (ta_phys_addr ta)) (unat (mb_base (tm_blocks t x)))"
  assume "\<not> ?thesis"
  moreover have "unat (mb_base (tm_blocks t x)) < bend (tm_blocks t) x" "0 < unat (ta_size ta)"
    using base_less_bend list_okD(2) [OF lists_okD(1) [OF tmm_okD(2) [OF ok]] x] tmm_okD(3) [OF ok] ta
    by (auto simp: tensors_ok_def unat_gt_0)
  ultimately have "rng (unat (ta_phys_addr ta)) (unat (ta_size ta)) ?a = 1"
    "rng (unat (mb_base (tm_blocks t x))) (unat (mb_size (tm_blocks t x))) ?a = 1"
    by (auto simp: rng_def bend_def)
  with free_cover_mem [OF x, of "tm_blocks t" ?a] live_cover_mem [of ta "mset (live t)" ?a] ta
    tmm_okD(6) [OF ok, of "ta_region ta" ?a] show False by (auto split: if_splits)
qed

text \<open>A descriptor fresh from the pool goes on a free list.\<close>

lemma insert_new:
  assumes ok: "tmm_ok M t fl" and room: "tm_next t < MAX_BLOCKS" and n: "n = unat (tm_next t)"
    and m1: "\<And>x. x \<noteq> n \<Longrightarrow> m1 x = tm_blocks t x" "mb_size (m1 n) \<noteq> 0" "mb_is_free (m1 n)"
    and ap: "\<And>x. x \<in> set (fl r) \<Longrightarrow> apart m1 x n"
  shows "\<exists>m2 ls2 pre post. free_list_insert n r (t\<lparr>tm_next := tm_next t + 1, tm_blocks := m1\<rparr>)
        = Some (t\<lparr>tm_next := tm_next t + 1, tm_blocks := m2, tm_lists := ls2\<rparr>)
    \<and> lists_ok (t\<lparr>tm_next := tm_next t + 1, tm_blocks := m2, tm_lists := ls2\<rparr>) (fl(r := pre @ n # post))
    \<and> fl r = pre @ post \<and> (\<forall>x \<in> set pre. mb_base (tm_blocks t x) < mb_base (m1 n))
    \<and> core (m2 n) = core (m1 n) \<and> (\<forall>q. n \<notin> set (fl q))
    \<and> (\<forall>q. \<forall>x \<in> set (fl q). core (m2 x) = core (tm_blocks t x))"
proof -
  let ?m = "tm_blocks t" and ?t1 = "t\<lparr>tm_next := tm_next t + 1, tm_blocks := m1\<rparr>"
  note nx = alloc_block_eq(2,3) [OF room] note l = lists_okD [OF tmm_okD(2) [OF ok]]
  have fresh: "n \<notin> set (fl q)" for q using list_okD(2) [OF l(1), of n q] n by auto
  have same: "m1 x = ?m x" if "x \<in> set (fl q)" for x q using m1(1) fresh that by metis
  have lists1: "lists_ok ?t1 fl"
  proof -
    have "list_ok ?t1 fl q" for q
      by (rule list_ok_frame [OF l(1) [of q]]) (use same [of _ q] list_okD(2) [OF l(1), of _ q] nx in auto)
    moreover have "ordered m1 (fl q)" for q by (rule ordered_core [OF _ l(2)]) (simp add: same)
    ultimately show ?thesis by (simp add: lists_ok_def)
  qed
  let ?P = "\<lambda>x. mb_base (m1 x) < mb_base (m1 n)"
  obtain pre post where tw: "takeWhile ?P (fl r) = pre" "dropWhile ?P (fl r) = post" by blast
  have flr: "fl r = pre @ post" using takeWhile_dropWhile_id [of ?P "fl r"] tw by simp
  from lists_insert [OF lists1 fresh, of r] ap nx n m1 tw obtain m2 ls2 where r:
    "free_list_insert n r ?t1 = Some (?t1\<lparr>tm_blocks := m2, tm_lists := ls2\<rparr>)"
    "lists_ok (?t1\<lparr>tm_blocks := m2, tm_lists := ls2\<rparr>) (fl(r := pre @ n # post))"
    "\<forall>x. core (m2 x) = core (if x = n then (m1 n)\<lparr>mb_is_free := True\<rparr> else m1 x)" by auto
  have co: "core (m2 x) = core (m1 x)" for x
    using r(3) [rule_format, of x] m1(3) by (cases "x = n") (simp_all add: core_def)
  have "\<forall>x \<in> set pre. mb_base (?m x) < mb_base (m1 n)"
    using takeWhile_split(2) [of ?P "fl r"] same [of _ r] tw(1) flr by auto
  moreover have "\<forall>q. \<forall>x \<in> set (fl q). core (m2 x) = core (?m x)" using co same by simp
  moreover have "?t1\<lparr>tm_blocks := m2, tm_lists := ls2\<rparr> = t\<lparr>tm_next := tm_next t + 1, tm_blocks := m2, tm_lists := ls2\<rparr>"
    by (cases t) simp
  ultimately show ?thesis using r(1,2) flr co [of n] fresh
    by (intro exI [of _ m2] exI [of _ ls2] exI [of _ pre] exI [of _ post]) simp
qed

text \<open>Returning the range of a live tensor to the free list of its region.\<close>

lemma give_back:
  assumes inv: "tmm_inv M t fl" and ta: "ta \<in> set (live t)" and room: "tm_next t < MAX_BLOCKS"
    and n: "n = unat (tm_next t)"
    and m1: "\<And>x. x \<noteq> n \<Longrightarrow> m1 x = tm_blocks t x" "mb_base (m1 n) = ta_phys_addr ta" "mb_size (m1 n) = ta_size ta"
      "mb_is_free (m1 n)"
  shows "\<exists>t2 m' ls' xs'. free_list_insert n (ta_region ta) (t\<lparr>tm_next := tm_next t + 1, tm_blocks := m1\<rparr>) = Some t2
    \<and> coalesce_blocks n t2 = t\<lparr>tm_next := tm_next t + 1, tm_blocks := m', tm_lists := ls'\<rparr>
    \<and> lists_ok (t\<lparr>tm_next := tm_next t + 1, tm_blocks := m', tm_lists := ls'\<rparr>) (fl(ta_region ta := xs'))
    \<and> (\<forall>a. free_cover m' xs' a = free_cover (tm_blocks t) (fl (ta_region ta)) a
         + rng (unat (ta_phys_addr ta)) (unat (ta_size ta)) a)
    \<and> bytes m' xs' = bytes (tm_blocks t) (fl (ta_region ta)) + ta_size ta
    \<and> length xs' \<le> Suc (length (fl (ta_region ta)))
    \<and> separated m' xs' \<and> (\<forall>q x. q \<noteq> ta_region ta \<longrightarrow> x \<in> set (fl q) \<longrightarrow> core (m' x) = core (tm_blocks t x))"
proof -
  let ?r = "ta_region ta" and ?m = "tm_blocks t" and ?t1 = "t\<lparr>tm_next := tm_next t + 1, tm_blocks := m1\<rparr>"
  have ok: "tmm_ok M t fl" and sep: "separated ?m (fl ?r)" using inv by (simp_all add: tmm_inv_def)
  note l = lists_okD [OF tmm_okD(2) [OF ok]]
  have szn: "ta_size ta \<noteq> 0" using tmm_okD(3) [OF ok] ta by (simp add: tensors_ok_def)
  have "n \<notin> set (fl ?r)" using list_okD(2) [OF l(1), of n ?r] n by auto
  then have ap: "apart m1 x n" if "x \<in> set (fl ?r)" for x
    using live_free_disjoint [OF ok ta that] m1(1) [of x] that by (cases "x = n") (auto simp: apart_def bend_def m1)
  obtain m2 ls2 pre post where
    ins: "free_list_insert n ?r ?t1 = Some (t\<lparr>tm_next := tm_next t + 1, tm_blocks := m2, tm_lists := ls2\<rparr>)"
    and lists2: "lists_ok (t\<lparr>tm_next := tm_next t + 1, tm_blocks := m2, tm_lists := ls2\<rparr>) (fl(?r := pre @ n # post))"
    and flr: "fl ?r = pre @ post" and con: "core (m2 n) = core (m1 n)" and fresh: "\<And>q. n \<notin> set (fl q)"
    and cm: "\<And>q x. x \<in> set (fl q) \<Longrightarrow> core (m2 x) = core (?m x)"
    using insert_new [of M t fl n m1 ?r, OF ok room n m1(1) _ m1(4) ap] m1(3) szn by auto
  let ?t2 = "t\<lparr>tm_next := tm_next t + 1, tm_blocks := m2, tm_lists := ls2\<rparr>"
  have n2: "mb_base (m2 n) = ta_phys_addr ta" "mb_size (m2 n) = ta_size ta" "bend m2 n = unat (ta_phys_addr ta) + unat (ta_size ta)"
    using core_fields [OF con] m1 by (simp_all add: bend_def)
  have "unat (ta_phys_addr ta) + unat (ta_size ta) \<le> 2 ^ 32"
    using range_below [OF tmm_okD(1) [OF ok] live_managed [OF ok ta]] szn by (simp add: unat_gt_0)
  then have "bend m2 n < 2 ^ 64" by (simp add: n2)
  moreover have "bend m2 x < 2 ^ 64" if "x \<in> set (fl ?r)" for x
    using bend_bound(2) [OF ok that] bend_core [of m2 x ?m] cm [OF that] by simp
  ultimately have bnd: "\<forall>z \<in> set (pre @ n # post). bend m2 z < 2 ^ 64"
    by (auto simp: flr)
  obtain m3 xs' where co: "coalesce_blocks n ?t2 = ?t2\<lparr>tm_blocks := m3\<rparr>"
    and lists3: "lists_ok (?t2\<lparr>tm_blocks := m3\<rparr>) ((fl(?r := pre @ n # post))(?r := xs'))"
    and st: "same_store m2 (pre @ n # post) m3 xs'"
    and sep3: "separated m2 pre \<Longrightarrow> separated m2 post \<Longrightarrow> separated m3 xs'"
    using merge_ok [OF lists2, of ?r pre n post] bnd by auto
  have upd_eq: "?t2\<lparr>tm_blocks := m3\<rparr> = t\<lparr>tm_next := tm_next t + 1, tm_blocks := m3, tm_lists := ls2\<rparr>" by (cases t) simp
  note co = co [unfolded upd_eq] note lists3 = lists3 [unfolded upd_eq fun_upd_upd]
  have "separated m2 (pre @ post)" by (rule separated_coreI [where m = ?m]) (use sep cm [of _ ?r] flr in auto)
  then have s3: "separated m3 xs'" using sep3 by (simp only: separated_append)
  have fcr: "free_cover m2 (pre @ post) a = free_cover ?m (fl ?r) a" for a
    using free_cover_core [of "fl ?r" m2 ?m] cm flr by metis
  have byr: "bytes m2 (pre @ post) = bytes ?m (fl ?r)" using bytes_core [of "fl ?r" m2 ?m] cm flr by metis
  have "free_cover m3 xs' a = free_cover ?m (fl ?r) a + rng (unat (ta_phys_addr ta)) (unat (ta_size ta)) a" for a
    using st fcr [of a] n2 by (simp add: same_store_def flr)
  moreover have "bytes m3 xs' = bytes ?m (fl ?r) + ta_size ta"
    using st byr n2 by (simp add: same_store_def algebra_simps flr)
  moreover have "length xs' \<le> Suc (length (fl ?r))" using st by (simp add: same_store_def flr)
  moreover have "core (m3 x) = core (?m x)" if "q \<noteq> ?r" "x \<in> set (fl q)" for q x
  proof -
    have "x \<notin> set (pre @ n # post)"
      using list_okD(3) [OF l(1) that(1)] that(2) fresh [of q] by (auto simp: flr)
    then show ?thesis using st cm [OF that(2)] by (simp add: same_store_def)
  qed
  ultimately show ?thesis
    using ins co lists3 s3 by (intro exI [of _ ?t2] exI [of _ m3] exI [of _ ls2] exI [of _ xs']) simp
qed

lemma tensors_ok_remove:
  assumes "tensors_ok t" and "mset (live t) = add_mset ta (mset (live t'))" and "tm_next_id t' = tm_next_id t"
    and "unat (tm_count t') \<le> unat (tm_count t)"
  shows "tensors_ok t'"
proof -
  have "mset (map ta_id (live t)) = mset (ta_id ta # map ta_id (live t'))" using assms(2) by simp
  then have "distinct (map ta_id (live t')) " using assms(1) mset_eq_imp_distinct_iff
    by (fastforce simp: tensors_ok_def)
  moreover have "set (live t') \<subseteq> set (live t)" using assms(2) by (metis set_mset_mset subset_insertI set_mset_add_mset_insert)
  ultimately show ?thesis using assms(1,3,4) by (auto simp: tensors_ok_def word_le_nat_alt)
qed

lemma mstats_ok_remove:
  assumes ok: "mstats_ok t fl" and lv: "mset (live t) = add_mset ta (mset (live t'))"
    and st: "tm_stats t' = stats_on_free ta (tm_stats t)"
    and byt: "region_sum (\<lambda>r. bytes (tm_blocks t') (fl' r)) = region_sum (\<lambda>r. bytes (tm_blocks t) (fl r)) + ta_size ta"
  shows "mstats_ok t' fl'"
proof -
  have len: "length (live t) = Suc (length (live t'))" using lv by (metis size_add_mset size_mset)
  have sums: "sum_list (map ta_size (live t)) = ta_size ta + sum_list (map ta_size (live t'))"
    "\<And>k. lifetime_bytes (live t) k = (if ta_lifetime ta = k then ta_size ta else 0) + lifetime_bytes (live t') k"
    by (simp add: sum_list_mset(1) [OF lv]) (simp only: lifetime_bytes_def sum_list_mset(2) [OF lv])
  show ?thesis
    using ok unfolding mstats_ok_def st stats_on_free_fields byt len sums
    by auto (simp add: algebra_simps)
qed

lemma free_entry_ok:
  assumes inv: "tmm_inv M t fl" and i: "find_tensor tid t = Some i" and ref: "\<not> 1 < ta_ref_count (tm_table t i)"
    and room: "tm_next t < MAX_BLOCKS"
  shows "\<exists>t' fl'. tensor_free tid t = Some (AIOS_OK, t') \<and> tmm_inv M t' fl' \<and> left_table t i t'"
proof -
  let ?ta = "tm_table t i" and ?n = "unat (tm_next t)"
  let ?r = "ta_region ?ta"
  have ok: "tmm_ok M t fl" using inv by (simp add: tmm_inv_def)
  note fi = find_tensor_spec(2) [OF i]
  let ?m0 = "upd (tm_blocks t) ?n (\<lambda>n. n\<lparr>mb_next := None, mb_prev := None, mb_is_free := True, mb_tensor_id := 0\<rparr>)"
  let ?m1 = "upd ?m0 ?n (\<lambda>n. n\<lparr>mb_base := ta_phys_addr ?ta, mb_size := ta_size ?ta, mb_type := ?r,
     mb_is_free := True, mb_tensor_id := 0\<rparr>)"
  obtain t2 m' ls' xs' where
    ins: "free_list_insert ?n ?r (t\<lparr>tm_next := tm_next t + 1, tm_blocks := ?m1\<rparr>) = Some t2"
    and co: "coalesce_blocks ?n t2 = t\<lparr>tm_next := tm_next t + 1, tm_blocks := m', tm_lists := ls'\<rparr>"
    and lists: "lists_ok (t\<lparr>tm_next := tm_next t + 1, tm_blocks := m', tm_lists := ls'\<rparr>) (fl(?r := xs'))"
    and cov: "\<forall>a. free_cover m' xs' a = free_cover (tm_blocks t) (fl ?r) a + rng (unat (ta_phys_addr ?ta)) (unat (ta_size ?ta)) a"
    and byt: "bytes m' xs' = bytes (tm_blocks t) (fl ?r) + ta_size ?ta"
    and len: "length xs' \<le> Suc (length (fl ?r))" and sep: "separated m' xs'"
    and other: "\<forall>q x. q \<noteq> ?r \<longrightarrow> x \<in> set (fl q) \<longrightarrow> core (m' x) = core (tm_blocks t x)"
    using give_back [OF inv, of ?ta ?n ?m1] fi room by (auto simp: upd_def)
  let ?t3 = "t\<lparr>tm_next := tm_next t + 1, tm_blocks := m', tm_lists := ls'\<rparr>"
  define t' where "t' = table_remove i (?t3\<lparr>tm_stats := stats_on_free ?ta (tm_stats t)\<rparr>)"
  have run: "tensor_free tid t = Some (AIOS_OK, t')"
    using i ref alloc_block_eq(1) [OF room] ins by (simp add: tensor_free_def Let_def co t'_def)
  have t': "tm_blocks t' = m'" "tm_lists t' = ls'" "tm_next t' = tm_next t + 1" "tm_next_id t' = tm_next_id t"
    "tm_stats t' = stats_on_free ?ta (tm_stats t)" "tm_pools t' = tm_pools t" "tm_ready t' = tm_ready t"
    "tm_excluded t' = tm_excluded t" "\<forall>j < i. tm_table t' j = tm_table t j"
    by (simp_all add: t'_def table_remove_def Let_def)
  have live3: "live (?t3\<lparr>tm_stats := s\<rparr>) = live t" for s by (simp add: live_def)
  have lv: "mset (live t) = add_mset ?ta (mset (live t'))" and cnt: "unat (tm_count t') = unat (tm_count t) - 1"
    using table_remove_live [of i "?t3\<lparr>tm_stats := stats_on_free ?ta (tm_stats t)\<rparr>"] fi by (simp_all add: t'_def live3)
  let ?fl = "fl(?r := xs')"
  have r: "?r \<in> {1, 2, 3, 4}"
  proof (rule ccontr)
    assume "?r \<notin> {1, 2, 3, 4}"
    then have "M ?r = {}" using tmm_okD(1) [OF ok] unfolding managed_ok_def by blast
    moreover have "ta_size ?ta \<noteq> 0" using tmm_okD(3) [OF ok] fi by (simp add: tensors_ok_def)
    ultimately show False using live_managed [OF ok] fi by (fastforce simp: unat_gt_0)
  qed
  have covq: "free_cover m' (?fl q) a = free_cover (tm_blocks t) (fl q) a
      + (if q = ?r then rng (unat (ta_phys_addr ?ta)) (unat (ta_size ?ta)) a else 0)" for q a
    using cov free_cover_core [of "fl q" m' "tm_blocks t" a] other by auto
  have "lists_ok t' ?fl" by (rule lists_ok_cong [OF lists]) (simp_all add: t')
  moreover have "free_cover (tm_blocks t') (?fl q) a + live_cover (mset (live t')) q a = (if a \<in> M q then 1 else 0)" for q a
    using covq [of q a] tmm_okD(6) [OF ok, of q a] by (simp add: t' lv split: if_splits)
  moreover have "tensors_ok t'"
    by (rule tensors_ok_remove [OF tmm_okD(3) [OF ok] lv]) (simp_all add: t' cnt)
  moreover have "region_sum (\<lambda>q. length (fl q)) + (length xs' - length (fl ?r)) \<ge> region_sum (\<lambda>q. length (?fl q))"
    using r by (auto simp: region_sum_def)
  then have "budget_ok t' ?fl"
    using tmm_okD(4) [OF ok] alloc_block_eq(2,3) [OF room] len by (simp add: budget_ok_def t') linarith
  moreover have "region_sum (\<lambda>q. bytes (tm_blocks t) (fl q)) + ta_size ?ta = region_sum (\<lambda>q. bytes m' (?fl q))"
  proof (rule region_sum_add [OF r])
    show "bytes (tm_blocks t) (fl q) = bytes m' (?fl q)" if "q \<noteq> ?r" for q
      using that bytes_core [of "fl q" m' "tm_blocks t"] other by simp
  qed (simp add: byt)
  then have "mstats_ok t' ?fl"
    by (intro mstats_ok_remove [OF tmm_okD(5) [OF ok] lv]) (simp_all add: t')
  ultimately have "tmm_ok M t' ?fl" using tmm_okD(1) [OF ok] by (simp add: tmm_ok_def)
  moreover have "separated m' (?fl q)" for q
    using sep inv other separated_coreI [of "tm_blocks t" "fl q" m'] by (auto simp: tmm_inv_def)
  ultimately have "tmm_inv M t' ?fl" by (simp add: tmm_inv_def t')
  with run lv show ?thesis by (auto simp: left_table_def t' stats_on_free_fields)
qed

section \<open>References, pins and the free operation\<close>

lemma live_cover_list:
  "live_cover (mset tas) r a =
     sum_list (map (\<lambda>ta. if ta_region ta = r then rng (unat (ta_phys_addr ta)) (unat (ta_size ta)) a else 0) tas)"
  by (induction tas) auto

lemma same_range_updates [simp]:
  "same_range ta (ta_ref_count_update f ta)" "same_range ta (ta_pinned_update g ta)"
  by (simp_all add: same_range_def)

lemma live_set_entry:
  assumes "i < unat (tm_count t)"
  shows "live (set_entry i f t) = (live t)[i := f (tm_table t i)]" and "live t ! i = tm_table t i" and "i < length (live t)"
  using assms by (auto simp: live_def set_entry_def upd_def intro!: nth_equalityI simp: nth_list_update)

lemma set_entry_map:
  assumes "i < unat (tm_count t)" and "g (f (tm_table t i)) = g (tm_table t i)"
  shows "map g (live (set_entry i f t)) = map g (live t)"
  using map_update_same [of i "live t" g "f (tm_table t i)"] live_set_entry [OF assms(1)] assms(2) by metis

lemma set_entry_tensors_ok:
  assumes ok: "tensors_ok t" and i: "i < unat (tm_count t)" and f: "same_range (tm_table t i) (f (tm_table t i))"
  shows "tensors_ok (set_entry i f t)"
proof -
  let ?t' = "set_entry i f t" and ?ta = "tm_table t i"
  have "map ta_id (live ?t') = map ta_id (live t)"
    by (rule set_entry_map [OF i]) (use f in \<open>simp add: same_range_def\<close>)
  moreover have "ta_size ta \<noteq> 0 \<and> ta_id ta < tm_next_id t \<and> ta_virt_addr ta = ta_phys_addr ta"
    if "ta \<in> set (live ?t')" for ta
  proof -
    from that have "ta \<in> set (live t) \<or> ta = f ?ta"
      using live_set_entry(1) [OF i, of f] set_update_subset_insert by fastforce
    moreover have "?ta \<in> set (live t)" using live_set_entry(2,3) [OF i] by (metis nth_mem)
    ultimately show ?thesis using ok f by (auto simp: tensors_ok_def same_range_def)
  qed
  ultimately show ?thesis using ok by (simp add: tensors_ok_def set_entry_def)
qed

lemma set_entry_inv:
  assumes inv: "tmm_inv M t fl" and i: "i < unat (tm_count t)" and f: "same_range (tm_table t i) (f (tm_table t i))"
  shows "tmm_inv M (set_entry i f t) fl"
proof -
  let ?t' = "set_entry i f t" and ?ta = "tm_table t i"
  have ok: "tmm_ok M t fl" using inv by (simp add: tmm_inv_def)
  note lv = live_set_entry(1) [OF i, of f] live_set_entry(2,3) [OF i]
  have t': "tm_blocks ?t' = tm_blocks t" "tm_lists ?t' = tm_lists t" "tm_next ?t' = tm_next t" "tm_count ?t' = tm_count t"
    "tm_next_id ?t' = tm_next_id t" "tm_stats ?t' = tm_stats t" by (simp_all add: set_entry_def)
  note same = set_entry_map [OF i, where f = f]
  have "live_cover (mset (live ?t')) r a = live_cover (mset (live t)) r a" for r a
    unfolding live_cover_list by (subst same) (use f in \<open>simp_all add: same_range_def\<close>)
  moreover have "lists_ok ?t' fl" by (rule lists_ok_cong [OF tmm_okD(2) [OF ok]]) (simp_all add: t')
  moreover have "tensors_ok ?t'" by (rule set_entry_tensors_ok [OF tmm_okD(3) [OF ok] i]) (rule f)
  moreover have "mstats_ok ?t' fl"
  proof -
    have "lifetime_bytes (live ?t') k = lifetime_bytes (live t) k" for k
    proof -
      have lb: "lifetime_bytes tas k = sum_list (map (\<lambda>ta. if ta_lifetime ta = k then ta_size ta else 0) tas)" for tas
        by (induction tas) (auto simp: lifetime_bytes_def)
      show ?thesis unfolding lb by (subst same) (use f in \<open>simp_all add: same_range_def\<close>)
    qed
    moreover have "map ta_size (live ?t') = map ta_size (live t)" by (rule same) (use f in \<open>simp add: same_range_def\<close>)
    moreover have "length (live ?t') = length (live t)" using lv(1) by simp
    ultimately show ?thesis using tmm_okD(5) [OF ok] unfolding mstats_ok_def t' by auto
  qed
  moreover have "budget_ok ?t' fl" using tmm_okD(4) [OF ok] by (simp add: budget_ok_def t')
  ultimately have "tmm_ok M ?t' fl" using ok by (simp add: tmm_ok_def t')
  then show ?thesis using inv by (simp add: tmm_inv_def t')
qed

text \<open>Every call of \<open>tensor_free\<close> returns, in one of four ways.\<close>

lemma tensor_free_cases:
  assumes inv: "tmm_inv M t fl"
  obtains (unknown) "tensor_free tid t = Some (AIOS_ERR_INVAL, t)" "tid \<notin> ta_id ` set (live t)"
  | (shared) i t' where "find_tensor tid t = Some i" "1 < ta_ref_count (tm_table t i)"
      "t' = set_entry i (ta_ref_count_update (\<lambda>c. c - 1)) t"
      "tensor_free tid t = Some (AIOS_OK, t')" "tmm_inv M t' fl"
  | (full) i where "find_tensor tid t = Some i" "\<not> 1 < ta_ref_count (tm_table t i)" "MAX_BLOCKS \<le> tm_next t"
      "tensor_free tid t = Some (AIOS_ERR_NOMEM, t)"
  | (freed) i t' fl' where "find_tensor tid t = Some i" "\<not> 1 < ta_ref_count (tm_table t i)" "tm_next t < MAX_BLOCKS"
      "tensor_free tid t = Some (AIOS_OK, t')" "tmm_inv M t' fl'" "left_table t i t'"
proof (cases "find_tensor tid t")
  case None
  then have "tensor_free tid t = Some (AIOS_ERR_INVAL, t)" by (simp add: tensor_free_def)
  with None show thesis using unknown find_tensor_spec(1) by blast
next
  case (Some i)
  note fi = find_tensor_spec(2) [OF Some]
  show thesis
  proof (cases "1 < ta_ref_count (tm_table t i)")
    case True
    have "tensor_free tid t = Some (AIOS_OK, set_entry i (ta_ref_count_update (\<lambda>c. c - 1)) t)"
      using Some True by (simp add: tensor_free_def Let_def set_entry_def)
    then show thesis using shared [OF Some True refl] set_entry_inv [OF inv] fi by simp
  next
    case ref: False
    show thesis
    proof (cases "MAX_BLOCKS \<le> tm_next t")
      case True
      then have "tensor_free tid t = Some (AIOS_ERR_NOMEM, t)"
        using Some ref by (simp add: tensor_free_def Let_def alloc_block_def)
      then show thesis by (rule full [OF Some ref True])
    next
      case False
      then have "tm_next t < MAX_BLOCKS" by simp
      from free_entry_ok [OF inv Some ref this] freed [OF Some ref this] show thesis by blast
    qed
  qed
qed

section \<open>Releasing all model tensors\<close>

lemma find_tensor_self:
  assumes "tensors_ok t" and "i < unat (tm_count t)"
  shows "find_tensor (ta_id (tm_table t i)) t = Some i"
proof -
  have d: "distinct (map (\<lambda>j. ta_id (tm_table t j)) [0..<unat (tm_count t)])"
    using assms(1) by (simp add: tensors_ok_def live_def comp_def)
  have "ta_id (tm_table t j) \<noteq> ta_id (tm_table t i)" if "j < i" for j
    using d that assms(2) by (fastforce simp: distinct_map inj_on_def)
  then show ?thesis
    using assms(2) by (auto simp: find_tensor_def find_Some_iff intro!: exI [of _ i])
qed

lemma live_set_entry_mset:
  assumes "i < unat (tm_count t)"
  shows "mset (live t) = add_mset (tm_table t i) (mset (live t) - {#tm_table t i#})"
    and "mset (live (set_entry i f t)) = add_mset (f (tm_table t i)) (mset (live t) - {#tm_table t i#})"
proof -
  note l = live_set_entry [OF assms]
  have "tm_table t i \<in># mset (live t)" using l(2,3) by (metis nth_mem set_mset_mset)
  then show "mset (live t) = add_mset (tm_table t i) (mset (live t) - {#tm_table t i#})" by simp
  show "mset (live (set_entry i f t)) = add_mset (f (tm_table t i)) (mset (live t) - {#tm_table t i#})"
    using l by (simp add: mset_update)
qed

lemma left_table_models:
  assumes "left_table t i t'" and "ta_region (tm_table t i) = MEM_REGION_MODEL"
  shows "models t = add_mset (tm_table t i) (models t')" and "others t' = others t"
  using assms by (simp_all add: left_table_def models_def others_def)

lemma model_free_from_ok:
  assumes "tmm_inv M t fl" and "\<forall>j < unat i. ta_region (tm_table t j) \<noteq> MEM_REGION_MODEL"
    and "unat i \<le> unat (tm_count t)"
    and "size (models t) + unat (tm_next t) \<le> 4096"
  shows "\<exists>t' fl'. model_free_from i t = Some t' \<and> tmm_inv M t' fl' \<and> models t' = {#} \<and> others t' = others t"
  using assms
proof (induction "weight t + (unat (tm_count t) - unat i)" arbitrary: t fl i rule: less_induct)
  case less
  note inv = less.prems(1)
  have ok: "tmm_ok M t fl" using inv by (simp add: tmm_inv_def)
  show ?case
  proof (cases "i < tm_count t")
    case False
    then have "unat i = unat (tm_count t)" using less.prems(3) by (simp add: word_less_nat_alt)
    then have "filter (\<lambda>ta. ta_region ta = MEM_REGION_MODEL) (live t) = []"
      using less.prems(2) by (auto simp: live_def filter_empty_conv)
    then have "models t = {#}" by (metis models_def mset_filter mset.simps(1))
    with False inv show ?thesis by (auto simp: model_free_from.simps)
  next
    case True
    then have i: "unat i < unat (tm_count t)" by (simp add: word_less_nat_alt)
    let ?ta = "tm_table t (unat i)"
    have cnt: "unat (tm_count t) \<le> 2048" using tmm_okD(3) [OF ok] by (simp add: tensors_ok_def word_le_nat_alt)
    have suc: "unat (i + 1) = Suc (unat i)" using i cnt by (simp add: unat_add_no_wrap)
    show ?thesis
    proof (cases "ta_region ?ta = MEM_REGION_MODEL")
      case False
      have step: "model_free_from i t = model_free_from (i + 1) t"
        using True False by (simp add: model_free_from.simps [of i])
      have "\<forall>j < unat (i + 1). ta_region (tm_table t j) \<noteq> MEM_REGION_MODEL"
        using less.prems(2) False suc by (auto simp: less_Suc_eq)
      then show ?thesis
        unfolding step using less.hyps [of t "i + 1" fl] inv i suc less.prems(4) by simp
    next
      case model: True
      have self: "find_tensor (ta_id ?ta) t = Some (unat i)" using find_tensor_self [OF tmm_okD(3) [OF ok] i] .
      have in_m: "?ta \<in># models t" using find_tensor_spec(2) [OF self] model by (simp add: models_def)
      have step: "model_free_from i t = model_free_from i t1" if "tensor_free (ta_id ?ta) t = Some (st, t1)" for st t1
        using True model that by (simp add: model_free_from.simps [of i t])
      from inv show ?thesis
      proof (cases rule: tensor_free_cases [where tid = "ta_id ?ta"])
        case unknown
        with find_tensor_spec(2) [OF self] show ?thesis by auto
      next
        case (shared k t1)
        then have k: "k = unat i" using self by simp
        let ?f = "ta_ref_count_update (\<lambda>c. c - 1)"
        note ms = live_set_entry_mset(1) [OF i] live_set_entry_mset(2) [OF i, of ?f]
        have mod: "models t = add_mset ?ta (filter_mset (\<lambda>ta. ta_region ta = MEM_REGION_MODEL) (mset (live t) - {#?ta#}))"
          "models t1 = add_mset (?f ?ta) (filter_mset (\<lambda>ta. ta_region ta = MEM_REGION_MODEL) (mset (live t) - {#?ta#}))"
          unfolding models_def using ms model shared(3) k by (metis (mono_tags, lifting) filter_mset_add_mset, simp)
        have oth: "others t1 = others t" unfolding others_def using ms model shared(3) k
          by (metis (mono_tags, lifting) filter_mset_add_mset same_range_updates(1) same_range_def)
        have ref: "unat (ta_ref_count ?ta - 1) < unat (ta_ref_count ?ta)"
        proof -
          have "ta_ref_count ?ta \<noteq> 0" using shared(2) k by auto
          then show ?thesis by (simp add: unat_minus_one unat_gt_0)
        qed
        have "weight t1 < weight t" using mod ref by (simp add: weight_def)
        moreover have same: "tm_count t1 = tm_count t" "tm_next t1 = tm_next t"
          "\<forall>j < unat i. ta_region (tm_table t1 j) = ta_region (tm_table t j)"
          using shared(3) k by (simp_all add: set_entry_def upd_def)
        moreover have "size (models t1) = size (models t)" using mod by simp
        ultimately show ?thesis
          using less.hyps [of t1 i fl] shared(5) less.prems(2-4) step [OF shared(4)] oth by simp
      next
        case (full k)
        with less.prems(4) in_m show ?thesis
          by (auto simp: word_le_nat_alt dest!: multi_member_split)
      next
        case (freed k t1 fl1)
        then have k: "k = unat i" using self by simp
        note lm = left_table_models [OF freed(6) [unfolded k] model]
        have nx: "unat (tm_next t1) = Suc (unat (tm_next t))"
          using freed(3,6) alloc_block_eq(2) by (simp add: left_table_def)
        have "weight t1 < weight t" using lm(1) by (simp add: weight_def)
        moreover have len: "unat (tm_count t1) = unat (tm_count t) - 1"
        proof -
          have "length (live t) = Suc (length (live t1))"
            using freed(6) by (metis left_table_def size_add_mset size_mset)
          then show ?thesis by (simp add: live_def)
        qed
        moreover have "\<forall>j < unat i. ta_region (tm_table t1 j) \<noteq> MEM_REGION_MODEL"
          using freed(6) k less.prems(2) by (simp add: left_table_def)
        ultimately show ?thesis
          using less.hyps [of t1 i fl1] freed(5) i less.prems(4) lm nx step [OF freed(4)] by simp
      qed
    qed
  qed
qed

text \<open>A model tensor that cannot be released keeps the loop at its index forever.\<close>

lemma model_free_from_stuck:
  assumes "model_free_from i t = Some t'" and "tensors_ok t" and "MAX_BLOCKS \<le> tm_next t"
    and "\<exists>j. unat i \<le> j \<and> j < unat (tm_count t) \<and> ta_region (tm_table t j) = MEM_REGION_MODEL"
  shows False
  using assms
proof (induction arbitrary: rule: model_free_from.raw_induct [rotated 1, consumes 1])
  case (1 rec i t t')
  then obtain j where j: "unat i \<le> j" "j < unat (tm_count t)" "ta_region (tm_table t j) = MEM_REGION_MODEL" by blast
  have lt: "i < tm_count t" using j by (simp add: word_less_nat_alt)
  show ?case
  proof (cases "ta_region (tm_table t (unat i)) = MEM_REGION_MODEL")
    case True
    have i: "unat i < unat (tm_count t)" using lt by (simp add: word_less_nat_alt)
    let ?ta = "tm_table t (unat i)"
    have self: "find_tensor (ta_id ?ta) t = Some (unat i)" by (rule find_tensor_self [OF 1(3) i])
    show ?thesis
    proof (cases "1 < ta_ref_count ?ta")
      case shared: True
      let ?t1 = "set_entry (unat i) (ta_ref_count_update (\<lambda>c. c - 1)) t"
      have "tensor_free (ta_id ?ta) t = Some (AIOS_OK, ?t1)"
        using self shared by (simp add: tensor_free_def Let_def set_entry_def)
      then have "rec i ?t1 = Some t'" using 1(2) lt True by simp
      moreover have "tensors_ok ?t1" by (rule set_entry_tensors_ok [OF 1(3) i]) simp
      moreover have "MAX_BLOCKS \<le> tm_next ?t1" using 1(4) by (simp add: set_entry_def)
      moreover have "\<exists>j. unat i \<le> j \<and> j < unat (tm_count ?t1) \<and> ta_region (tm_table ?t1 j) = MEM_REGION_MODEL"
        using i True by (intro exI [of _ "unat i"]) (simp add: set_entry_def upd_def)
      ultimately show ?thesis by (rule 1(1))
    next
      case False
      then have "tensor_free (ta_id ?ta) t = Some (AIOS_ERR_NOMEM, t)"
        using self 1(4) by (simp add: tensor_free_def Let_def alloc_block_def)
      then have "rec i t = Some t'" using 1(2) lt True by simp
      then show ?thesis using 1(1) 1(3,4,5) by blast
    qed
  next
    case False
    then have "rec (i + 1) t = Some t'" using 1(2) lt by simp
    moreover have "unat i \<noteq> j" using j(3) False by auto
    then have "unat (i + 1) \<le> j"
      using j(1,2) word_bounds(2) [of "tm_count t"] by (simp add: unat_add_no_wrap)
    ultimately show ?thesis using 1(1) 1(3,4) j by blast
  qed
qed

end
