(* ===== verification/Tensor_MM_Init.thy ===== *)
theory Tensor_MM_Init
  imports Tensor_MM_Ops
begin

text \<open>
  Initialisation of the tensor memory manager: laying out the pools around the user window,
  the exclusion check and the boundary probe, and the invariant of every reachable state.
\<close>

lemma pool_start_aligned:
  assumes "start \<le> USER_BASE"
  shows "unat start \<le> unat (ALIGN_UP start HUGE_PAGE_SIZE)" and "ALIGN_UP start HUGE_PAGE_SIZE \<le> USER_BASE"
    and "2 ^ 21 dvd unat (ALIGN_UP start HUGE_PAGE_SIZE)"
proof -
  have s: "unat start \<le> 67108864" using assms by (simp add: word_le_nat_alt)
  have e: "unat (ALIGN_UP start HUGE_PAGE_SIZE) = (unat start + 2097151) div 2097152 * 2097152"
    using unat_ALIGN_UP [of 21 start] s by simp
  show "unat start \<le> unat (ALIGN_UP start HUGE_PAGE_SIZE)"
    using e by linarith
  have "(unat start + 2097151) div 2097152 \<le> 32" using s by linarith
  then show "ALIGN_UP start HUGE_PAGE_SIZE \<le> USER_BASE" by (simp add: word_le_nat_alt e)
  show "2 ^ 21 dvd unat (ALIGN_UP start HUGE_PAGE_SIZE)" by (simp add: e)
qed

lemma pool_offset_aligned:
  assumes "2 ^ 21 dvd unat p" and "p \<le> USER_BASE" and "2 ^ 21 dvd unat d" and "d \<le> 0x80000000"
  shows "ALIGN_UP (p + d) HUGE_PAGE_SIZE = p + d" and "unat (p + d) = unat p + unat d"
proof -
  have b: "unat p \<le> 67108864" "unat d \<le> 2147483648" using assms(2,4) by (simp_all add: word_le_nat_alt)
  show e: "unat (p + d) = unat p + unat d"
    using b by (intro unat_add_no_wrap) simp
  have "(2::nat) ^ 21 dvd unat (p + d)" using assms(1,3) e by simp
  then show "ALIGN_UP (p + d) HUGE_PAGE_SIZE = p + d"
    using ALIGN_UP_aligned [of 21 "p + d"] b e by simp
qed

text \<open>One initial block: the region grows by the range of the block.\<close>

lemma add_pool:
  assumes inv: "tmm_inv M t fl" and empty: "tm_count t = 0" and room: "tm_next t < MAX_BLOCKS"
    and r: "r \<in> {1, 2, 3, 4}" and sz: "sz \<noteq> 0"
    and R: "R = {unat base..<unat base + unat sz}" "R \<subseteq> {..<2 ^ 32} - {unat USER_BASE..<unat USER_END}"
    and dis: "\<And>q. M q \<inter> R = {}" and above: "\<And>a. a \<in> M r \<Longrightarrow> Suc a < unat base"
  shows "\<exists>t' fl'. add_initial_pool_block base sz r t = Some (AIOS_OK, t') \<and> tmm_inv (M(r := M r \<union> R)) t' fl'
    \<and> tm_count t' = 0 \<and> tm_next t' = tm_next t + 1 \<and> tm_next_id t' = tm_next_id t
    \<and> tm_ready t' = tm_ready t \<and> tm_excluded t' = tm_excluded t \<and> tm_pools t' = tm_pools t
    \<and> ms_total_memory (tm_stats t') = ms_total_memory (tm_stats t) + sz"
proof -
  have ok: "tmm_ok M t fl" and sep: "\<And>q. separated (tm_blocks t) (fl q)" using inv by (simp_all add: tmm_inv_def)
  let ?n = "unat (tm_next t)" and ?m = "tm_blocks t"
  define m1 where "m1 = upd (upd ?m ?n (\<lambda>n. n\<lparr>mb_next := None, mb_prev := None, mb_is_free := True, mb_tensor_id := 0\<rparr>)) ?n
     (\<lambda>n. n\<lparr>mb_base := base, mb_size := sz, mb_type := r, mb_is_free := True, mb_is_huge := HUGE_PAGE_SIZE \<le> sz, mb_align := 64\<rparr>)"
  have m1: "\<And>x. x \<noteq> ?n \<Longrightarrow> m1 x = ?m x" "mb_base (m1 ?n) = base" "mb_size (m1 ?n) = sz" "mb_is_free (m1 ?n)"
    by (simp_all add: m1_def upd_def)
  have low: "bend ?m x < unat base" if x: "x \<in> set (fl r)" for x
  proof -
    have "mb_size (?m x) \<noteq> 0" using list_okD(2) [OF lists_okD(1) [OF tmm_okD(2) [OF ok]] x] by simp
    then have "0 < unat (mb_size (?m x))" by (simp add: unat_gt_0)
    then have "bend ?m x - 1 \<in> {unat (mb_base (?m x))..<bend ?m x}" by (auto simp: bend_def)
    then show ?thesis using above free_block_managed [OF ok x] by fastforce
  qed
  have old: "x \<noteq> ?n" if "x \<in> set (fl q)" for x q
    using list_okD(2) [OF lists_okD(1) [OF tmm_okD(2) [OF ok]] that] by auto
  have ap: "apart m1 x ?n" if "x \<in> set (fl r)" for x
    using low [OF that] m1(1) [OF old [OF that]] by (simp add: apart_def bend_def m1)
  obtain m2 ls2 pre post where
    ins: "free_list_insert ?n r (t\<lparr>tm_next := tm_next t + 1, tm_blocks := m1\<rparr>)
        = Some (t\<lparr>tm_next := tm_next t + 1, tm_blocks := m2, tm_lists := ls2\<rparr>)"
    and lists2: "lists_ok (t\<lparr>tm_next := tm_next t + 1, tm_blocks := m2, tm_lists := ls2\<rparr>) (fl(r := pre @ ?n # post))" and flr: "fl r = pre @ post"
    and con: "core (m2 ?n) = core (m1 ?n)" and cm: "\<And>q x. x \<in> set (fl q) \<Longrightarrow> core (m2 x) = core (?m x)"
    using insert_new [of M t fl ?n m1 r, OF ok room refl m1(1) _ m1(4) ap] m1(3) sz by auto
  have m2n: "mb_base (m2 ?n) = base" "mb_size (m2 ?n) = sz" using core_fields [OF con] m1 by simp_all
  have "post = []"
  proof (cases post)
    case (Cons y ys)
    have y: "y \<in> set (fl r)" using flr Cons by simp
    have "bend m2 ?n \<le> unat (mb_base (m2 y))"
      using lists_okD(2) [OF lists2, of r] Cons by (simp add: ordered_append ordered_Cons)
    moreover have "mb_base (m2 y) = mb_base (?m y)" using core_fields [OF cm [OF y]] by simp
    ultimately show ?thesis using low [OF y] by (simp add: bend_def m2n)
  qed simp
  then have fl': "fl(r := pre @ ?n # post) = fl(r := fl r @ [?n])" using flr by simp
  define t' where "t' = t\<lparr>tm_next := tm_next t + 1, tm_blocks := m2, tm_lists := ls2, tm_stats := (tm_stats t)\<lparr>ms_total_memory := ms_total_memory (tm_stats t) + sz,
     ms_free_memory := ms_free_memory (tm_stats t) + sz\<rparr>\<rparr>"
  have call: "add_initial_pool_block base sz r t = Some (AIOS_OK, t')"
    using sz alloc_block_eq(1) [OF room] ins by (simp add: add_initial_pool_block_def m1_def t'_def)
  let ?fl = "fl(r := fl r @ [?n])" and ?M = "M(r := M r \<union> R)"
  have t': "tm_blocks t' = m2" "tm_next t' = tm_next t + 1" "tm_count t' = 0" "tm_next_id t' = tm_next_id t"
    "live t' = []" "live t = []" "tm_table t' = tm_table t"
    using empty by (simp_all add: t'_def live_def)
  have "managed_ok ?M"
    using tmm_okD(1) [OF ok] R(2) dis r unfolding managed_ok_def by (auto; blast)
  moreover have "lists_ok t' ?fl" by (rule lists_ok_cong [OF lists2 [unfolded fl']]) (simp_all add: t'_def)
  moreover have "free_cover m2 (?fl q) a = (if a \<in> ?M q then 1 else 0)" for q a
  proof -
    have "free_cover m2 (fl q) a = (if a \<in> M q then 1 else 0)"
      using free_cover_core [of "fl q" m2 ?m] cm tmm_okD(6) [OF ok, of q a] by (simp add: t')
    moreover have "rng (unat base) (unat sz) a = (if a \<in> R then 1 else 0)" by (simp add: rng_def R(1))
    ultimately show ?thesis using dis [of r] by (auto simp: m2n)
  qed
  moreover have "tensors_ok t'" using tmm_okD(3) [OF ok] by (simp add: tensors_ok_def t')
  moreover have "budget_ok t' ?fl"
  proof -
    have "region_sum (\<lambda>q. length (fl q)) + 1 = region_sum (\<lambda>q. length (?fl q))"
      by (rule region_sum_add [OF r]) simp_all
    then show ?thesis
      using tmm_okD(4) [OF ok] alloc_block_eq(2,3) [OF room] by (simp add: budget_ok_def t')
  qed
  moreover have "mstats_ok t' ?fl"
  proof -
    have "region_sum (\<lambda>q. bytes ?m (fl q)) + sz = region_sum (\<lambda>q. bytes m2 (?fl q))"
      by (rule region_sum_add [OF r]) (use bytes_core [of _ m2 ?m] cm in \<open>auto simp: m2n\<close>)
    then have byt: "region_sum (\<lambda>q. bytes m2 (?fl q)) = region_sum (\<lambda>q. bytes ?m (fl q)) + sz" by simp
    show ?thesis
      using tmm_okD(5) [OF ok] unfolding mstats_ok_def t' byt by (auto simp: t'_def lifetime_bytes_def algebra_simps)
  qed
  moreover have "separated m2 (?fl q)" for q
  proof -
    have s: "separated m2 (fl q)" by (rule separated_coreI [OF sep]) (rule cm)
    moreover have "bend m2 (last (fl r)) < unat base" if "fl r \<noteq> []"
      using low [of "last (fl r)"] bend_core [of m2 "last (fl r)" ?m] cm [of "last (fl r)" r] that by simp
    ultimately show ?thesis by (auto simp: separated_append m2n)
  qed
  ultimately have "tmm_inv ?M t' ?fl" using t' by (simp add: tmm_inv_def tmm_ok_def)
  then show ?thesis using call t' by (auto simp: t'_def)
qed

lemma staged_boot:
  "staged (\<lambda>_. {}) 0 0 0 (tm_pools tmm_boot) (tmm_boot\<lparr>tm_stats := zero_stats, tm_ready := False, tm_excluded := 0\<rparr>)"
proof -
  have "tmm_inv (\<lambda>_. {}) (tmm_boot\<lparr>tm_stats := zero_stats, tm_ready := False, tm_excluded := 0\<rparr>) (\<lambda>_. [])"
    by (simp add: tmm_inv_def tmm_ok_def managed_ok_def lists_ok_def list_ok_def ordered_def tensors_ok_def
        budget_ok_def mstats_ok_def live_def region_sum_def lifetime_bytes_def tmm_boot_def zero_stats_def mb.chain_def)
  then show ?thesis by (auto simp: staged_def tmm_boot_def zero_stats_def)
qed

lemma staged_pools:
  "staged M k ex tot pools t \<Longrightarrow> staged M k ex tot pools' (t\<lparr>tm_pools := pools'\<rparr>)"
  "staged M k ex tot pools t \<Longrightarrow> staged M k ex' tot pools (t\<lparr>tm_excluded := ex'\<rparr>)"
proof -
  have "tmm_inv M (t\<lparr>tm_pools := pools'\<rparr>) fl = tmm_inv M t fl" "tmm_inv M (t\<lparr>tm_excluded := ex'\<rparr>) fl = tmm_inv M t fl" for fl
    by (simp_all add: tmm_inv_def tmm_ok_def lists_ok_def list_ok_def tensors_ok_def budget_ok_def mstats_ok_def live_def)
  then show "staged M k ex tot pools t \<Longrightarrow> staged M k ex tot pools' (t\<lparr>tm_pools := pools'\<rparr>)"
    "staged M k ex tot pools t \<Longrightarrow> staged M k ex' tot pools (t\<lparr>tm_excluded := ex'\<rparr>)"
    by (simp_all add: staged_def)
qed

lemma staged_add:
  assumes st: "staged M k ex tot pools t" and k: "k < 4096" and r: "r \<in> {1, 2, 3, 4}"
    and M': "M' = M(r := M r \<union> {unat base..<unat base + unat sz})"
    and R: "{unat base..<unat base + unat sz} \<subseteq> {..<2 ^ 32} - {unat USER_BASE..<unat USER_END}"
    and dis: "\<And>q. M q \<inter> {unat base..<unat base + unat sz} = {}" and above: "\<And>a. a \<in> M r \<Longrightarrow> Suc a < unat base"
  shows "\<exists>t'. add_initial_pool_block base sz r t = Some (AIOS_OK, t') \<and> staged M' (Suc k) ex (tot + sz) pools t'"
proof (cases "sz = 0")
  case True
  then show ?thesis using st M' by (simp add: add_initial_pool_block_def staged_def)
next
  case False
  from st obtain fl where inv: "tmm_inv M t fl" and t: "tm_count t = 0" "unat (tm_next t) \<le> k" "tm_next_id t = 1"
    "\<not> tm_ready t" "tm_excluded t = ex" "tm_pools t = pools" "ms_total_memory (tm_stats t) = tot"
    by (auto simp: staged_def)
  have room: "tm_next t < MAX_BLOCKS" using t(2) k by (simp add: word_less_nat_alt)
  from add_pool [OF inv t(1) room r False refl R dis above] obtain t' fl' where
    "add_initial_pool_block base sz r t = Some (AIOS_OK, t')" "tmm_inv M' t' fl'"
    "tm_count t' = 0" "tm_next t' = tm_next t + 1" "tm_next_id t' = tm_next_id t" "tm_ready t' = tm_ready t"
    "tm_excluded t' = tm_excluded t" "tm_pools t' = tm_pools t"
    "ms_total_memory (tm_stats t') = ms_total_memory (tm_stats t) + sz"
    unfolding M' by auto
  moreover have "unat (tm_next t') \<le> Suc k" using alloc_block_eq(2) [OF room] t(2) calculation(4) by simp
  ultimately show ?thesis using t by (auto simp: staged_def)
qed

text \<open>A pool away from the user window becomes one block, the one around it becomes two.\<close>

lemma init_pool_away:
  assumes "staged M k ex tot pools t" and "k < 4096" and "r \<in> {1, 2, 3, 4}"
    and "USER_END \<le> base" and "unat base + unat sz \<le> 2 ^ 32"
    and "\<And>q a. a \<in> M q \<Longrightarrow> a < unat base" and "M r = {}"
  shows "\<exists>t'. init_pool base sz (base + sz) r t = Some (AIOS_OK, t')
    \<and> staged (M(r := {unat base..<unat base + unat sz})) (Suc k) ex (tot + sz) pools t'"
proof -
  have "unat USER_END \<le> unat base" using assms(4) by (simp add: word_le_nat_alt)
  then have R: "{unat base..<unat base + unat sz} \<subseteq> {..<2 ^ 32} - {unat USER_BASE..<unat USER_END}"
    using assms(5) by auto
  have dis: "M q \<inter> {unat base..<unat base + unat sz} = {}" for q using assms(6) [of _ q] by fastforce
  have "init_pool base sz (base + sz) r t = add_initial_pool_block base sz r t"
    using assms(4) by (simp add: init_pool_def ranges_overlap_def leD)
  then show ?thesis
    using staged_add [OF assms(1-3) refl R dis] assms(7) by simp
qed

lemma init_pool_around:
  assumes st: "staged (\<lambda>_. {}) 0 0 0 pools t" and p: "p \<le> USER_BASE"
  shows "\<exists>t'. init_pool p 0x10000000 (p + 0x10000000) MEM_REGION_TENSOR t = Some (AIOS_OK, t')
    \<and> staged ((\<lambda>_. {})(1 := managed (unat p) 1)) 2 USER_SIZE 0xFE00000 pools t'"
proof -
  have b: "unat p \<le> 67108864" using p by (simp add: word_le_nat_alt)
  have e: "unat (p + 0x10000000) = unat p + 0x10000000" using b by (simp add: unat_add_no_wrap)
  have ge: "\<not> p + 0x10000000 < USER_BASE" "\<not> USER_END < p" "\<not> USER_BASE < p" "\<not> p + 0x10000000 < USER_END"
    "USER_END < p + 0x10000000" "p < USER_END" "USER_BASE < p + 0x10000000" "p < USER_BASE \<longleftrightarrow> p \<noteq> USER_BASE"
    using b e by (auto simp: word_less_nat_alt intro: unat_eqI)
  let ?s1 = "USER_BASE - p" and ?s2 = "p + 0x10000000 - USER_END" and ?t = "t\<lparr>tm_excluded := USER_SIZE\<rparr>"
  have u: "unat ?s1 = 67108864 - unat p" "unat ?s2 = unat p + 0x10000000 - 69206016"
    using b p by (simp_all add: unat_sub unat_add_no_wrap)
  let ?M1 = "(\<lambda>_. {})(1 := {unat p..<unat USER_BASE})"
  have M1: "?M1 = (\<lambda>_. {})(1 := {} \<union> {unat p..<unat p + unat ?s1})" using b u by simp
  have "\<exists>t'. add_initial_pool_block p ?s1 1 ?t = Some (AIOS_OK, t') \<and> staged ?M1 (Suc 0) USER_SIZE (0 + ?s1) pools t'"
    by (rule staged_add [OF staged_pools(2) [OF st] _ _ M1]) (use b u in auto)
  then obtain t1 where t1: "add_initial_pool_block p ?s1 1 ?t = Some (AIOS_OK, t1)"
    "staged ?M1 (Suc 0) USER_SIZE (0 + ?s1) pools t1" by blast
  let ?M2 = "(\<lambda>_. {})(1 := managed (unat p) 1)"
  have M2: "?M2 = ?M1(1 := ?M1 1 \<union> {unat USER_END..<unat USER_END + unat ?s2})"
  proof -
    have "managed (unat p) 1 = {unat p..<unat USER_BASE} \<union> {unat USER_END..<unat USER_END + unat ?s2}"
      using b u(2) by (auto simp: managed_def)
    then show ?thesis by simp
  qed
  have "\<exists>t'. add_initial_pool_block USER_END ?s2 1 t1 = Some (AIOS_OK, t')
      \<and> staged ?M2 (Suc (Suc 0)) USER_SIZE (0 + ?s1 + ?s2) pools t'"
    by (rule staged_add [OF t1(2) _ _ M2]) (use b u in \<open>auto split: if_splits\<close>)
  then obtain t2 where t2: "add_initial_pool_block USER_END ?s2 1 t1 = Some (AIOS_OK, t2)"
    "staged ?M2 2 USER_SIZE 0xFE00000 pools t2" by (auto simp: numeral_2_eq_2)
  have "(if p < USER_BASE then USER_BASE - p else 0) = ?s1" using ge(8) by simp
  moreover have "tm_excluded t = 0" using st by (simp add: staged_def)
  ultimately show ?thesis
    using t1(1) t2 ge by (simp add: init_pool_def ranges_overlap_def Let_def)
qed

lemma init_pools_away:
  assumes st: "staged M k ex tot pools t" and k: "k < 4096"
    and pool: "mp_type (pools ! i) = r" "mp_size (pools ! i) = sz" "r \<in> {1, 2, 3, 4}"
    and base: "ALIGN_UP base HUGE_PAGE_SIZE = base" "USER_END \<le> base" "unat base + unat sz \<le> 2 ^ 32"
    and M: "\<And>q a. a \<in> M q \<Longrightarrow> a < unat base" "M r = {}"
    and res: "M' = M(r := {unat base..<unat base + unat sz})" "k' = Suc k" "base' = base + sz" "tot' = tot + sz"
      "pools' = pools[i := (pools ! i)\<lparr>mp_base := base\<rparr>]"
  shows "\<exists>t'. init_pools (i # is) base t = init_pools is base' t' \<and> staged M' k' ex tot' pools' t'"
proof -
  have p: "tm_pools t = pools" using st by (simp add: staged_def)
  have lim: "\<not> UINT64_MAX - (HUGE_PAGE_SIZE - 1) < base" "\<not> UINT64_MAX - sz < base"
    using base(3) by (auto simp: word_less_nat_alt unat_sub unsigned_minus_1_eq_mask mask_eq_exp_minus_1)
  have "\<exists>t'. init_pool base sz (base + sz) r (t\<lparr>tm_pools := pools'\<rparr>) = Some (AIOS_OK, t')
    \<and> staged (M(r := {unat base..<unat base + unat sz})) (Suc k) ex (tot + sz) pools' t'"
    by (rule init_pool_away [OF staged_pools(1) [OF st] k pool(3) base(2,3) M])
  then show ?thesis using lim base(1) pool(1,2) res by (auto simp: Let_def p)
qed

lemma init_pools_ok:
  assumes start: "start \<le> USER_BASE"
  defines "p \<equiv> ALIGN_UP start HUGE_PAGE_SIZE"
  defines "t0 \<equiv> tmm_boot\<lparr>tm_stats := zero_stats, tm_ready := False, tm_excluded := 0\<rparr>"
  shows "\<exists>t' pools. init_pools [0, 1, 2, 3] start t0 = Some (AIOS_OK, t')
    \<and> staged (managed (unat p)) 5 USER_SIZE 0x3BE00000 pools t' \<and> mp_base (pools ! 0) = p \<and> mp_type (pools ! 0) = MEM_REGION_TENSOR"
proof -
  have p: "p \<le> USER_BASE" "2 ^ 21 dvd unat p" using pool_start_aligned [OF start] by (simp_all add: p_def)
  have b: "unat p \<le> 67108864" using p(1) by (simp add: word_le_nat_alt)
  note al = pool_offset_aligned [OF p(2,1)]
  have us: "unat (p + 0x10000000) = unat p + 0x10000000" "unat (p + 0x30000000) = unat p + 0x30000000"
    "unat (p + 0x38000000) = unat p + 0x38000000"
    using al(2) [of "0x10000000"] al(2) [of "0x30000000"] al(2) [of "0x38000000"] by simp_all
  have ups: "ALIGN_UP (p + 0x10000000) HUGE_PAGE_SIZE = p + 0x10000000"
    "ALIGN_UP (p + 0x30000000) HUGE_PAGE_SIZE = p + 0x30000000" "ALIGN_UP (p + 0x38000000) HUGE_PAGE_SIZE = p + 0x38000000"
    using al(1) [of "0x10000000"] al(1) [of "0x30000000"] al(1) [of "0x38000000"] by simp_all
  have lim: "\<not> UINT64_MAX - 2097151 < start" "\<not> UINT64_MAX - 0x10000000 < p"
    using start b by (simp_all add: word_less_nat_alt word_le_nat_alt)
  define pools where "pools = tm_pools tmm_boot"
  define pools1 where "pools1 = pools[0 := (pools ! 0)\<lparr>mp_base := p\<rparr>]"
  have ps: "length pools1 = 4" "mp_size (pools1 ! 1) = 0x20000000" "mp_size (pools1 ! 2) = 0x8000000" "mp_size (pools1 ! 3) = 0x4000000"
    "mp_type (pools1 ! 1) = 2" "mp_type (pools1 ! 2) = 3" "mp_type (pools1 ! 3) = 4"
    "mp_base (pools1 ! 0) = p" "mp_type (pools1 ! 0) = 1"
    by (simp_all add: pools1_def pools_def tmm_boot_def MB_def)
  from init_pool_around [OF staged_pools(1) [OF staged_boot] p(1), of pools1] obtain t1 where
    t1: "init_pool p 0x10000000 (p + 0x10000000) MEM_REGION_TENSOR (t0\<lparr>tm_pools := pools1\<rparr>) = Some (AIOS_OK, t1)"
      "staged ((\<lambda>_. {})(1 := managed (unat p) 1)) 2 USER_SIZE 0xFE00000 pools1 t1"
    by (auto simp: t0_def)
  have s1: "init_pools [0, 1, 2, 3] start t0 = init_pools [1, 2, 3] (p + 0x10000000) t1"
  proof -
    have "tm_pools t0 = pools" "mp_size (pools ! 0) = 0x10000000" "mp_type (pools ! 0) = MEM_REGION_TENSOR"
      by (simp_all add: t0_def pools_def tmm_boot_def MB_def)
    then show ?thesis using t1(1) lim by (simp add: Let_def p_def [symmetric] pools1_def)
  qed
  let ?M1 = "(\<lambda>_. {})(1 := managed (unat p) 1)" and ?M = "managed (unat p)"
  define P2 where "P2 = pools1[1 := (pools1 ! 1)\<lparr>mp_base := p + 0x10000000\<rparr>]"
  define P3 where "P3 = P2[2 := (P2 ! 2)\<lparr>mp_base := p + 0x30000000\<rparr>]"
  define P4 where "P4 = P3[3 := (P3 ! 3)\<lparr>mp_base := p + 0x38000000\<rparr>]"
  note Pd = P2_def P3_def P4_def
  have "\<exists>t'. init_pools [1, 2, 3] (p + 0x10000000) t1 = init_pools [2, 3] (p + 0x30000000) t'
    \<and> staged (?M1(2 := ?M 2)) 3 USER_SIZE 0x2FE00000 P2 t'"
    by (rule init_pools_away [OF t1(2)]) (use b us ups ps in \<open>auto simp: Pd managed_def word_le_nat_alt split: if_splits\<close>)
  then obtain t2 where t2: "init_pools [1, 2, 3] (p + 0x10000000) t1 = init_pools [2, 3] (p + 0x30000000) t2"
    "staged (?M1(2 := ?M 2)) 3 USER_SIZE 0x2FE00000 P2 t2" by blast
  have "\<exists>t'. init_pools [2, 3] (p + 0x30000000) t2 = init_pools [3] (p + 0x38000000) t'
    \<and> staged (?M1(2 := ?M 2, 3 := ?M 3)) 4 USER_SIZE 0x37E00000 P3 t'"
    by (rule init_pools_away [OF t2(2)]) (use b us ups ps in \<open>auto simp: Pd managed_def word_le_nat_alt split: if_splits\<close>)
  then obtain t3 where t3: "init_pools [2, 3] (p + 0x30000000) t2 = init_pools [3] (p + 0x38000000) t3"
    "staged (?M1(2 := ?M 2, 3 := ?M 3)) 4 USER_SIZE 0x37E00000 P3 t3" by blast
  have "\<exists>t'. init_pools [3] (p + 0x38000000) t3 = init_pools [] (p + 0x3C000000) t'
    \<and> staged (?M1(2 := ?M 2, 3 := ?M 3, 4 := ?M 4)) 5 USER_SIZE 0x3BE00000 P4 t'"
    by (rule init_pools_away [OF t3(2)]) (use b us ups ps in \<open>auto simp: Pd managed_def word_le_nat_alt split: if_splits\<close>)
  moreover have "?M1(2 := ?M 2, 3 := ?M 3, 4 := ?M 4) = ?M"
    by (rule ext) (auto simp: managed_def)
  ultimately obtain t4 where t4: "init_pools [3] (p + 0x38000000) t3 = Some (AIOS_OK, t4)"
    "staged ?M 5 USER_SIZE 0x3BE00000 P4 t4" by auto
  show ?thesis using s1 t2(1) t3(1) t4 ps by (auto simp: Pd)
qed

section \<open>Free lists are fully coalesced\<close>

lemma free_cover_pos:
  "0 < free_cover m xs a \<longleftrightarrow> (\<exists>x \<in> set xs. unat (mb_base (m x)) \<le> a \<and> a < bend m x)"
  by (induction xs) (auto simp: bend_def)

lemma separated_pairs:
  assumes "separated m xs" and "\<forall>x \<in> set xs. mb_size (m x) \<noteq> 0"
  shows "sorted_wrt (\<lambda>x y. bend m x < unat (mb_base (m y))) xs"
  using assms
proof (induction xs)
  case (Cons x xs)
  show ?case
  proof (cases xs)
    case (Cons y ys)
    have "unat (mb_base (m z)) < bend m z" if "z \<in> set (x # xs)" for z
      using Cons.prems(2) that by (auto simp: bend_def unat_gt_0)
    then show ?thesis using Cons.IH Cons.prems Cons by (fastforce simp: separated_Cons)
  qed simp
qed simp

text \<open>A maximal run of free addresses is a single block.\<close>

lemma maximal_block:
  assumes inv: "tmm_inv M t fl" and lh: "lo < hi"
    and cov: "\<And>a. lo \<le> a \<Longrightarrow> a < hi \<Longrightarrow> 0 < free_cover (tm_blocks t) (fl r) a"
    and out: "\<And>a. Suc a = lo \<Longrightarrow> free_cover (tm_blocks t) (fl r) a = 0" "free_cover (tm_blocks t) (fl r) hi = 0"
  obtains x where "x \<in> set (fl r)" "unat (mb_base (tm_blocks t x)) = lo" "bend (tm_blocks t) x = hi"
proof -
  let ?m = "tm_blocks t" let ?b = "\<lambda>x. unat (mb_base (?m x))"
  have ok: "tmm_ok M t fl" using inv by (simp add: tmm_inv_def)
  have free: "\<exists>x \<in> set (fl r). ?b x \<le> a \<and> a < bend ?m x" if "lo \<le> a" "a < hi" for a
    using cov [OF that] by (simp add: free_cover_pos)
  have taken: "\<not> (?b x \<le> a \<and> a < bend ?m x)" if "free_cover ?m (fl r) a = 0" "x \<in> set (fl r)" for a x
    using that free_cover_pos [of ?m "fl r" a] by auto
  obtain x where x: "x \<in> set (fl r)" "?b x \<le> lo" "lo < bend ?m x" using free [of lo] lh by auto
  have base: "?b x = lo"
  proof (rule ccontr)
    assume "?b x \<noteq> lo"
    then have "?b x \<le> lo - 1" "Suc (lo - 1) = lo" "lo - 1 < bend ?m x" using x by simp_all
    then show False using taken [OF out(1) x(1)] by blast
  qed
  have le: "bend ?m x \<le> hi" using taken [OF out(2) x(1)] base lh by simp
  have "bend ?m x = hi"
  proof (rule ccontr)
    assume "bend ?m x \<noteq> hi"
    then obtain y where y: "y \<in> set (fl r)" "?b y \<le> bend ?m x" "bend ?m x < bend ?m y"
      using free [of "bend ?m x"] le x base by auto
    have srt: "sorted_wrt (\<lambda>x y. bend ?m x < ?b y) (fl r)"
      by (rule separated_pairs) (use inv list_okD(2) [OF lists_okD(1) [OF tmm_okD(2) [OF ok]]] in \<open>auto simp: tmm_inv_def\<close>)
    from sorted_wrt_pair [OF srt x(1) y(1)]
    show False using y x by auto
  qed
  with x(1) base show thesis by (rule that)
qed

section \<open>The user window stays out of reach\<close>

lemma range_excludes:
  assumes "managed_ok M" and "{unat b..<unat b + unat s} \<subseteq> M r" and "s \<noteq> 0"
  shows "allocation_excludes_bootstrap_user_hole b s"
proof -
  have "unat b + unat s \<le> 2 ^ 32" using range_below [OF assms(1,2)] assms(3) by (simp add: unat_gt_0)
  then show ?thesis using assms unfolding excludes_hole managed_ok_def by fastforce
qed

lemma block_outside_hole:
  assumes ok: "tmm_ok M t fl" and x: "x \<in> set (fl r)"
  shows "\<not> block_hits_hole (tm_blocks t x)"
proof -
  let ?n = "tm_blocks t x"
  have "mb_size ?n \<noteq> 0" using list_okD(2) [OF lists_okD(1) [OF tmm_okD(2) [OF ok]] x] by simp
  then have "allocation_excludes_bootstrap_user_hole (mb_base ?n) (mb_size ?n)"
    using range_excludes [OF tmm_okD(1) [OF ok]] free_block_managed [OF ok x] by (simp add: bend_def)
  moreover have "\<not> mb_base ?n + mb_size ?n < mb_base ?n"
    using bend_bound(2) [OF ok x] by (simp add: bend_def word_less_nat_alt unat_add_no_wrap)
  ultimately show ?thesis by (simp add: block_hits_hole_def allocation_excludes_bootstrap_user_hole_def Let_def)
qed

lemma range_excluded_ok:
  assumes ok: "tmm_ok M t fl" and ready: "tm_ready t"
  shows "tensor_mm_bootstrap_user_range_excluded t = Some True"
proof -
  have ls: "free_list_excludes t r = Some True" for r
  proof -
    have "sfold (\<lambda>r acc. if block_hits_hole (tm_blocks t r) then (False, True) else (acc, False)) xs True"
      if "set xs \<subseteq> set (fl r)" for xs
      using that block_outside_hole [OF ok] by (induction xs) auto
    from this [OF order_refl] show ?thesis
      by (simp only: free_list_excludes_def mb.chain_scan [OF list_okD(1) [OF lists_okD(1) [OF tmm_okD(2) [OF ok], of r]]])
  qed
  have "allocation_excludes_bootstrap_user_hole (ta_phys_addr ta) (ta_size ta)" if ta: "ta \<in> set (live t)" for ta
    by (rule range_excludes [OF tmm_okD(1) [OF ok] live_managed [OF ok ta]])
      (use ta tmm_okD(3) [OF ok] in \<open>simp add: tensors_ok_def\<close>)
  then have "active_tensors_exclude_bootstrap_user_hole t"
    by (auto simp: active_tensors_exclude_bootstrap_user_hole_def allocation_excludes_bootstrap_user_hole_def
        list_all_iff live_def Let_def)
  then show ?thesis
    using ready ls by (simp add: tensor_mm_bootstrap_user_range_excluded_def free_lists_exclude_bootstrap_user_hole_def)
qed

section \<open>Descriptor use\<close>

lemma free_list_insert_next: "free_list_insert b r t = Some t' \<Longrightarrow> tm_next t' = tm_next t"
  by (auto simp: free_list_insert_def Let_def bind_eq_Some_conv split: option.splits if_splits)

lemma alloc_block_next: "alloc_block t = (res, t') \<Longrightarrow> unat (tm_next t) \<le> unat (tm_next t') \<and> unat (tm_next t') \<le> Suc (unat (tm_next t))"
  using alloc_block_eq(2) [of t] by (auto simp: alloc_block_def Let_def not_le split: if_splits)

lemma split_next:
  "split_prefix b ab r t = Some (Some t') \<Longrightarrow> unat (tm_next t) \<le> unat (tm_next t') \<and> unat (tm_next t') \<le> Suc (unat (tm_next t))"
  "split_remainder b sz r t = Some t' \<Longrightarrow> unat (tm_next t) \<le> unat (tm_next t') \<and> unat (tm_next t') \<le> Suc (unat (tm_next t))"
  by (auto simp: split_prefix_def split_remainder_def Let_def split: if_splits prod.splits option.splits
      dest!: alloc_block_next free_list_insert_next)

lemma alloc_next:
  assumes "tensor_alloc_aligned_profiled sz0 align0 r lifetime rtc sto has_out t = Some (st, out, t')"
  shows "unat (tm_next t) \<le> unat (tm_next t') \<and> unat (tm_next t') \<le> unat (tm_next t) + 2"
proof (cases "out")
  case None
  then have "t' = t"
    using assms by (auto simp: tensor_alloc_aligned_profiled_def Let_def bind_eq_Some_conv split: if_splits option.splits prod.splits)
  then show ?thesis by simp
next
  case (Some ta)
  have "tm_next (snd (record_tensor b r lifetime rtc sto t2)) = tm_next t2" for b t2
    by (simp add: record_tensor_def free_list_remove_def Let_def split: option.split)
  then have rec: "record_tensor b r lifetime rtc sto t2 = (ta, t3) \<Longrightarrow> tm_next t3 = tm_next t2" for b t2 ta t3
    by (metis snd_conv)
  obtain b ab sz t1 t2 where "split_prefix b ab r t = Some (Some t1)" "split_remainder b sz r t1 = Some t2"
    "record_tensor b r lifetime rtc sto t2 = (ta, t')"
    using assms Some
    by (auto simp: tensor_alloc_aligned_profiled_def Let_def split: if_split_asm option.split_asm prod.split_asm Option.bind_split_asm)
  then show ?thesis using split_next(1) [of b ab r t t1] split_next(2) [of b sz r t1 t2] rec [of b t2 ta t'] by simp
qed

section \<open>The boundary probe of initialisation\<close>

text \<open>Freeing the only reference to a tensor while descriptors last.\<close>

lemma free_sole:
  assumes inv: "tmm_inv M t fl" and s: "s \<in> set (live t)" "ta_ref_count s = 1" and room: "tm_next t < MAX_BLOCKS"
  shows "\<exists>t' fl'. tensor_free (ta_id s) t = Some (AIOS_OK, t') \<and> tmm_inv M t' fl'
    \<and> mset (live t) = add_mset s (mset (live t')) \<and> tm_next t' = tm_next t + 1 \<and> tm_pools t' = tm_pools t
    \<and> tm_ready t' = tm_ready t \<and> tm_excluded t' = tm_excluded t \<and> tm_next_id t' = tm_next_id t
    \<and> ms_total_memory (tm_stats t') = ms_total_memory (tm_stats t)"
proof -
  have tok: "tensors_ok t" using inv tmm_okD(3) by (simp add: tmm_inv_def) blast
  from s(1) obtain i where i: "i < unat (tm_count t)" "tm_table t i = s" by (auto simp: live_def)
  have self: "find_tensor (ta_id s) t = Some i" using find_tensor_self [OF tok i(1)] i(2) by simp
  have ref: "\<not> 1 < ta_ref_count (tm_table t i)" using s(2) i(2) by simp
  from free_entry_ok [OF inv self ref room] show ?thesis using i(2) by (auto simp: left_table_def)
qed

text \<open>The free block behind the user window is there as long as tensors only lie in front of it.\<close>

lemma suffix_block:
  assumes inv: "tmm_inv (managed p) t fl" and p: "p \<le> 67108864"
    and lv: "\<And>a. 67108864 \<le> a \<Longrightarrow> live_cover (mset (live t)) 1 a = 0"
  obtains x where "x \<in> set (fl 1)" "mb_base (tm_blocks t x) = USER_END" "bend (tm_blocks t) x = p + 268435456"
proof -
  have fc: "free_cover (tm_blocks t) (fl 1) a = (if 69206016 \<le> a \<and> a < p + 268435456 then 1 else 0)" if "67108864 \<le> a" for a
    using inv tmm_okD(6) [of "managed p" t fl 1 a] lv [OF that] that p by (auto simp: tmm_inv_def managed_def)
  obtain x where "x \<in> set (fl 1)" "unat (mb_base (tm_blocks t x)) = 69206016" "bend (tm_blocks t) x = p + 268435456"
    by (rule maximal_block [OF inv, of 69206016 "p + 268435456" 1]) (use p fc in auto)
  then show thesis using that unat_eqI [of "mb_base (tm_blocks t x)" USER_END] by simp
qed

lemma prefix_block:
  assumes inv: "tmm_inv (managed p) t fl" and p: "p < 67108864" and lv: "live t = []"
  obtains x where "x \<in> set (fl 1)" "unat (mb_base (tm_blocks t x)) = p" "bend (tm_blocks t) x = 67108864"
proof -
  have fc: "free_cover (tm_blocks t) (fl 1) a = (if a \<in> managed p 1 then 1 else 0)" for a
    using inv tmm_okD(6) [of "managed p" t fl 1 a] lv by (auto simp: tmm_inv_def)
  show thesis
    by (rule maximal_block [OF inv, of p 67108864 1]) (use p fc that in \<open>auto simp: managed_def\<close>)
qed

lemma blocks_disjoint:
  assumes ok: "tmm_ok M t fl" and x: "x \<in> set (fl r)" and y: "y \<in> set (fl r)"
    and a: "unat (mb_base (tm_blocks t x)) \<le> a" "a < bend (tm_blocks t) x" "unat (mb_base (tm_blocks t y)) \<le> a" "a < bend (tm_blocks t) y"
  shows "x = y"
  using sorted_wrt_pair [OF lists_okD(2) [OF tmm_okD(2) [OF ok], of r, unfolded ordered_def] x y] a by auto

lemma fits_aligned:
  assumes "mb_is_free n" and "sz \<le> mb_size n" and "k < 32" and "2 ^ k dvd unat (mb_base n)" and "unat (mb_base n) < 2 ^ 32"
    and "allocation_excludes_bootstrap_user_hole (mb_base n) sz"
  shows "fits sz (2 ^ k) n"
proof -
  have k: "unat (2 ^ k :: u32) = 2 ^ k" using assms(3) by (simp add: unat_pow2)
  have "(2::nat) ^ k \<le> 2 ^ 31" using assms(3) by (intro power_increasing) simp_all
  then have "\<not> UINT64_MAX - (ucast (2 ^ k :: u32) - 1) < mb_base n"
    using assms(5) k overflow_guard [of "ucast (2 ^ k :: u32) - 1" "mb_base n"] by (simp add: unat_ucast_minus_one)
  then show ?thesis
    using assms ALIGN_UP_u32_aligned [OF assms(3,4,5)] by (simp add: fits_def Let_def)
qed

lemma alloc_args_pow2:
  assumes "6 \<le> k" and "k < 32" and "sz \<noteq> 0" and "r < NUM_REGIONS" and "2 ^ k dvd unat sz" and "unat sz < 2 ^ 32"
  shows "alloc_args_ok sz (2 ^ k) r True" and "eff_align (2 ^ k) = 2 ^ k" and "ALIGN_UP_u32 sz (2 ^ k) = sz"
proof -
  have k: "unat (2 ^ k :: u32) = 2 ^ k" using assms(2) by (simp add: unat_pow2)
  have le: "(2::nat) ^ k \<le> 2 ^ 31" using assms(2) by (intro power_increasing) simp_all
  have "(2::nat) ^ 6 \<le> 2 ^ k" using assms(1) by (intro power_increasing) simp_all
  then show e: "eff_align (2 ^ k) = 2 ^ k" using k by (simp add: eff_align_def word_less_nat_alt)
  show a: "ALIGN_UP_u32 sz (2 ^ k) = sz" by (rule ALIGN_UP_u32_aligned [OF assms(2,5,6)])
  have "\<not> UINT64_MAX - (ucast (2 ^ k :: u32) - 1) < sz"
    using assms(6) k le overflow_guard [of "ucast (2 ^ k :: u32) - 1" sz] by (simp add: unat_ucast_minus_one)
  moreover have "(2 ^ k :: u32) AND (2 ^ k - 1) = 0"
    by (rule bit_eqI) (auto simp: bit_and_iff bit_exp_iff mask_eq_exp_minus_1 [symmetric] bit_mask_iff)
  ultimately show "alloc_args_ok sz (2 ^ k) r True" using assms(3,4) e a by (simp add: alloc_args_ok_def)
qed

text \<open>An allocation with proper arguments succeeds when some block of the region fits.\<close>

lemma alloc_succeeds:
  assumes inv: "tmm_inv M t fl" and k: "6 \<le> k" "k < 32" and sz: "sz \<noteq> 0" "2 ^ k dvd unat sz" "unat sz < 2 ^ 32"
    and r: "r < NUM_REGIONS" and x: "x \<in> set (fl r)" "fits sz (2 ^ k) (tm_blocks t x)"
    and room: "tm_count t < MAX_TENSORS" "tm_next t < MAX_BLOCKS"
  shows "\<exists>ta t' fl'. tensor_alloc_aligned sz (2 ^ k) r True t = Some (AIOS_OK, Some ta, t') \<and> tmm_inv M t' fl'
    \<and> live t' = live t @ [ta] \<and> ta_region ta = r \<and> ta_ref_count ta = 1 \<and> placed t (fl r) sz (2 ^ k) ta
    \<and> same_frame t t' \<and> unat (tm_next t) \<le> unat (tm_next t') \<and> unat (tm_next t') \<le> unat (tm_next t) + 2"
proof -
  note ap = alloc_args_pow2 [OF k sz(1) r sz(2,3)]
  have "\<not> no_room t (fl r) sz (2 ^ k)" using x room by (auto simp: no_room_def)
  with alloc_ok [OF inv, of sz "2 ^ k" r "default_lifetime_for_region r" _ False True] ap
  obtain ta t' fl' where
    "tensor_alloc_aligned sz (2 ^ k) r True t = Some (AIOS_OK, Some ta, t')" "tmm_inv M t' fl'"
    "entered t r (default_lifetime_for_region r) ta t'" "placed t (fl r) sz (2 ^ k) ta"
    unfolding tensor_alloc_aligned_def Let_def by metis
  moreover from this(1) have "unat (tm_next t) \<le> unat (tm_next t') \<and> unat (tm_next t') \<le> unat (tm_next t) + 2"
    unfolding tensor_alloc_aligned_def Let_def by (rule alloc_next)
  ultimately show ?thesis by (auto simp: entered_def same_frame_def)
qed

lemma probe_prefix_ok:
  assumes inv: "tmm_inv (managed (unat w)) t fl" and w: "w \<le> USER_BASE" "2 ^ 21 dvd unat w"
    and t: "tm_count t = 0" "unat (tm_next t) \<le> 5"
  shows "\<exists>p t' fl'. probe_prefix w t = Some (True, p, t') \<and> tmm_inv (managed (unat w)) t' fl'
    \<and> live t' = (case p of None \<Rightarrow> [] | Some ta \<Rightarrow> [ta]) \<and> (\<forall>ta. p = Some ta \<longrightarrow> ta_ref_count ta = 1)
    \<and> (\<forall>a. live_cover (mset (live t')) 1 a = rng (unat w) (67108864 - unat w) a)
    \<and> same_frame t t' \<and> unat (tm_next t') \<le> 7"
proof (cases "w = USER_BASE")
  case True
  have "live t = []" using t by (simp add: live_def)
  with True inv t show ?thesis by (simp add: probe_prefix_def same_frame_def rng_def) blast
next
  case False
  let ?p = "unat w" and ?sz = "USER_BASE - w"
  have b: "?p < 67108864" using w(1) False unat_eqI [of w USER_BASE] by (fastforce simp: word_le_nat_alt)
  have us: "unat ?sz = 67108864 - ?p" using w(1) by (simp add: unat_sub)
  have ok: "tmm_ok (managed ?p) t fl" and lv: "live t = []" using inv t by (simp_all add: tmm_inv_def live_def)
  obtain x where x: "x \<in> set (fl 1)" "unat (mb_base (tm_blocks t x)) = ?p" "bend (tm_blocks t) x = 67108864"
    using prefix_block [OF inv b lv] .
  obtain y where y: "y \<in> set (fl 1)" "mb_base (tm_blocks t y) = USER_END" "bend (tm_blocks t) y = ?p + 268435456"
    using suffix_block [OF inv] b lv by auto
  have xb: "mb_base (tm_blocks t x) = w" using x(2) by (rule unat_eqI)
  have xs: "mb_size (tm_blocks t x) = ?sz" by (rule unat_eqI) (use x us b in \<open>simp add: bend_def\<close>)
  have sz: "?sz \<noteq> 0" using False by simp
  have al: "2 ^ 6 dvd ?p" using w(2) by (rule dvd_trans [rotated]) simp
  then have als: "2 ^ 6 dvd unat ?sz" unfolding us by (intro dvd_diff_nat) simp_all
  have "allocation_excludes_bootstrap_user_hole w ?sz"
    using range_excludes [OF tmm_okD(1) [OF ok]] free_block_managed [OF ok x(1)] sz x xb us b by (simp add: bend_def)
  then have "fits ?sz (2 ^ 6) (tm_blocks t x)"
    using list_okD(2) [OF lists_okD(1) [OF tmm_okD(2) [OF ok]] x(1)] xs xb al b by (intro fits_aligned) simp_all
  with alloc_succeeds [OF inv _ _ sz als _ _ x(1)] us t obtain ta t' fl' where
    call: "tensor_alloc_aligned ?sz 64 1 True t = Some (AIOS_OK, Some ta, t')" and inv': "tmm_inv (managed ?p) t' fl'"
    and lv': "live t' = live t @ [ta]" and ta: "ta_region ta = 1" "ta_ref_count ta = 1" "placed t (fl 1) ?sz 64 ta"
    and fr: "same_frame t t'" "unat (tm_next t') \<le> unat (tm_next t) + 2"
    by (fastforce simp: word_less_nat_alt)
  from ta(3) obtain c where c: "c \<in> set (fl 1)" "fits ?sz 64 (tm_blocks t c)" "mb_size (tm_blocks t c) \<le> ?sz"
    and pl: "ta_phys_addr ta = ALIGN_UP_u32 (mb_base (tm_blocks t c)) 64" "?sz \<le> ta_size ta"
      "unat (ta_phys_addr ta) + unat (ta_size ta) \<le> bend (tm_blocks t) c"
    using x(1) \<open>fits ?sz (2 ^ 6) (tm_blocks t x)\<close> xs by (fastforce simp: placed_def best_block_def)
  have "c = x"
  proof -
    have lt: "unat (mb_base (tm_blocks t c)) < bend (tm_blocks t) c"
      using list_okD(2) [OF lists_okD(1) [OF tmm_okD(2) [OF ok]] c(1)] by (simp add: bend_def unat_gt_0)
    have "c \<noteq> y" using c(3) y us b by (auto simp: bend_def word_le_nat_alt)
    then have "\<not> 69206016 \<le> unat (mb_base (tm_blocks t c))"
      using blocks_disjoint [OF ok c(1) y(1), of "unat (mb_base (tm_blocks t c))"] lt y free_block_managed [OF ok c(1)]
      by (auto simp: managed_def)
    then show ?thesis
      using blocks_disjoint [OF ok c(1) x(1), of "unat (mb_base (tm_blocks t c))"] lt x free_block_managed [OF ok c(1)]
      by (auto simp: managed_def)
  qed
  then have phys: "ta_phys_addr ta = w"
    using pl(1) ALIGN_UP_u32_aligned [of 6 w] al b xb by simp
  moreover have size: "ta_size ta = ?sz"
    by (rule unat_eqI) (use pl phys x(3) us \<open>c = x\<close> in \<open>simp add: word_le_nat_alt\<close>)
  ultimately have "probe_prefix w t = Some (True, Some ta, t')"
    using call sz False by (simp add: probe_prefix_def word_gt_0)
  moreover have "live_cover (mset (live t')) 1 a = rng ?p (67108864 - ?p) a" for a
    using lv' lv ta(1) phys size us by simp
  ultimately show ?thesis using inv' lv' lv ta(2) fr t(2) by fastforce
qed

lemma probe_suffix_ok:
  assumes inv: "tmm_inv (managed p) t fl" and p: "p \<le> 67108864"
    and lc: "\<And>a. live_cover (mset (live t)) 1 a = rng p (67108864 - p) a"
    and t: "length (live t) \<le> 1" "unat (tm_next t) \<le> 7"
  shows "\<exists>s t' fl'. probe_suffix True t = Some (True, Some s, t') \<and> tmm_inv (managed p) t' fl'
    \<and> live t' = live t @ [s] \<and> ta_ref_count s = 1 \<and> same_frame t t' \<and> unat (tm_next t') \<le> 9"
proof -
  have ok: "tmm_ok (managed p) t fl" using inv by (simp add: tmm_inv_def)
  obtain x where x: "x \<in> set (fl 1)" "mb_base (tm_blocks t x) = USER_END" "bend (tm_blocks t) x = p + 268435456"
    using suffix_block [OF inv p] lc p by (auto simp: rng_def)
  have cnt: "unat (tm_count t) \<le> 1" using t(1) by (simp add: live_def)
  have ls: "PAGE_SIZE \<le> mb_size (tm_blocks t x)" using x by (simp add: bend_def word_le_nat_alt)
  have "allocation_excludes_bootstrap_user_hole USER_END PAGE_SIZE" by (simp add: excludes_hole)
  then have "fits PAGE_SIZE (2 ^ 12) (tm_blocks t x)"
    using list_okD(2) [OF lists_okD(1) [OF tmm_okD(2) [OF ok]] x(1)] x(2) ls by (intro fits_aligned) simp_all
  with alloc_succeeds [OF inv, of 12 PAGE_SIZE 1 x] x(1) cnt t(2) obtain s t' fl' where
    call: "tensor_alloc_aligned PAGE_SIZE 4096 1 True t = Some (AIOS_OK, Some s, t')" and inv': "tmm_inv (managed p) t' fl'"
    and lv': "live t' = live t @ [s]" and s: "ta_region s = 1" "ta_ref_count s = 1"
    and fr: "same_frame t t'" "unat (tm_next t') \<le> unat (tm_next t) + 2"
    by (fastforce simp: word_less_nat_alt)
  have ok': "tmm_ok (managed p) t' fl'" using inv' by (simp add: tmm_inv_def)
  let ?a = "unat (ta_phys_addr s)"
  have sl: "s \<in> set (live t')" and sz: "ta_size s \<noteq> 0"
    using lv' tmm_okD(3) [OF ok'] by (auto simp: tensors_ok_def)
  have "?a \<in> managed p 1" using live_managed [OF ok' sl] s(1) sz by (auto simp: unat_gt_0)
  moreover have "rng p (67108864 - p) ?a + rng ?a (unat (ta_size s)) ?a \<le> 1"
    using tmm_okD(6) [OF ok', of 1 ?a] lc s(1) by (auto simp: lv' split: if_splits)
  ultimately have "USER_END \<le> ta_phys_addr s"
    using p sz by (auto simp: managed_def rng_def word_le_nat_alt unat_gt_0 split: if_splits)
  moreover have "allocation_excludes_bootstrap_user_hole (ta_phys_addr s) (ta_size s)"
    using range_excludes [OF tmm_okD(1) [OF ok'] live_managed [OF ok' sl] sz] .
  ultimately have "probe_suffix True t = Some (True, Some s, t')" using call by (simp add: probe_suffix_def)
  then show ?thesis using inv' lv' s(2) fr t(2) by fastforce
qed

lemma cleanup_free_ok:
  assumes inv: "tmm_inv M t fl" and p: "mset (live t) = (case p of None \<Rightarrow> {#} | Some ta \<Rightarrow> {#ta#}) + L"
    "\<And>ta. p = Some ta \<Longrightarrow> ta_ref_count ta = 1" and room: "tm_next t < MAX_BLOCKS"
  shows "\<exists>t' fl'. cleanup_free p ok t = Some (ok, t') \<and> tmm_inv M t' fl' \<and> mset (live t') = L \<and> same_frame t t'
    \<and> unat (tm_next t') \<le> Suc (unat (tm_next t))"
proof (cases p)
  case None
  then show ?thesis using inv p by (auto simp: cleanup_free_def same_frame_def)
next
  case (Some ta)
  then have "ta \<in> set (live t)" using p(1) by (metis option.simps(5) set_mset_mset union_single_eq_member add_mset_add_single union_commute)
  from free_sole [OF inv this p(2) [OF Some] room] obtain t' fl' where
    "tensor_free (ta_id ta) t = Some (AIOS_OK, t')" "tmm_inv M t' fl'" "mset (live t) = add_mset ta (mset (live t'))"
    "tm_next t' = tm_next t + 1" "same_frame t t'" by (auto simp: same_frame_def)
  then show ?thesis using Some p(1) alloc_block_eq(2) [OF room] by (auto simp: cleanup_free_def)
qed

lemma boundaries_ok:
  assumes inv: "tmm_inv (managed (unat w)) t fl" and w: "w \<le> USER_BASE" "mp_base (tm_pools t ! 0) = w" and lv: "live t = []"
  shows "tensor_free_list_has_bootstrap_boundaries t = Some True"
proof -
  let ?m = "tm_blocks t" and ?xs = "fl 1"
  let ?pre = "\<lambda>x. mb_base (?m x) \<le> UINT64_MAX - mb_size (?m x) \<and> mb_base (?m x) + mb_size (?m x) = USER_BASE"
  let ?suf = "\<lambda>x. mb_base (?m x) = USER_END"
  let ?f = "\<lambda>x (pre, suf). ((pre \<or> ?pre x, suf \<or> ?suf x), False)"
  have ok: "tmm_ok (managed (unat w)) t fl" using inv by (simp add: tmm_inv_def)
  have b: "unat w \<le> 67108864" using w(1) by (simp add: word_le_nat_alt)
  have fold: "sfold ?f xs (u, v) = (u \<or> (\<exists>x \<in> set xs. ?pre x), v \<or> (\<exists>x \<in> set xs. ?suf x))" for xs u v
    by (induction xs arbitrary: u v) auto
  have "w = USER_BASE \<or> (\<exists>x \<in> set ?xs. ?pre x)"
  proof (cases "w = USER_BASE")
    case False
    then have lt: "unat w < 67108864" using b unat_eqI [of w USER_BASE] by fastforce
    from prefix_block [OF inv lt lv] obtain x where
      x: "x \<in> set ?xs" "unat (mb_base (?m x)) = unat w" "bend ?m x = 67108864" .
    have "mb_base (?m x) + mb_size (?m x) = USER_BASE"
      by (rule unat_eqI) (use x(3) in \<open>simp add: bend_def unat_add_no_wrap\<close>)
    moreover have "mb_base (?m x) \<le> UINT64_MAX - mb_size (?m x)"
      using x(3) overflow_guard [of "mb_size (?m x)" "mb_base (?m x)"] by (simp add: bend_def not_less)
    ultimately show ?thesis using x(1) by blast
  qed simp
  moreover have "\<exists>x \<in> set ?xs. ?suf x"
    using suffix_block [OF inv b] lv by (metis mset.simps(1) live_cover_simps(1))
  moreover have "scan (\<lambda>r. mb_next (?m r)) ?f (w = USER_BASE, False) (tm_lists t 1) = Some (sfold ?f ?xs (w = USER_BASE, False))"
    by (rule mb.chain_scan [OF list_okD(1) [OF lists_okD(1) [OF tmm_okD(2) [OF ok]]]])
  ultimately show ?thesis
    unfolding tensor_free_list_has_bootstrap_boundaries_def w(2) Let_def fold by simp
qed

text \<open>Restoring the statistics of an empty manager.\<close>

lemma restore_inv:
  assumes inv: "tmm_inv M t fl" "tmm_inv M t' fl'" and lv: "live t = []" "live t' = []"
    and tot: "ms_total_memory (tm_stats t') = ms_total_memory (tm_stats t)" and nid: "tm_next_id t = 1"
  shows "tmm_inv M (t'\<lparr>tm_stats := tm_stats t, tm_next_id := tm_next_id t\<rparr>) fl'"
proof -
  let ?t = "t'\<lparr>tm_stats := tm_stats t, tm_next_id := tm_next_id t\<rparr>"
  have ok: "tmm_ok M t fl" "tmm_ok M t' fl'" using inv by (simp_all add: tmm_inv_def)
  have lv2: "live ?t = []" using lv(2) by (simp add: live_def)
  have "lists_ok ?t fl'" by (rule lists_ok_cong [OF tmm_okD(2) [OF ok(2)]]) simp_all
  moreover have "tensors_ok ?t" using tmm_okD(3) [OF ok(2)] lv2 nid by (simp add: tensors_ok_def)
  moreover have "budget_ok ?t fl'" using tmm_okD(4) [OF ok(2)] nid by (simp add: budget_ok_def)
  moreover have "mstats_ok ?t fl'"
    using tmm_okD(5) [OF ok(1)] tmm_okD(5) [OF ok(2)] tot unfolding mstats_ok_def lv2 lv by auto
  ultimately have "tmm_ok M ?t fl'" using ok(2) lv2 lv(2) by (simp add: tmm_ok_def)
  then show ?thesis using inv(2) by (simp add: tmm_inv_def)
qed

lemma selftest_ok:
  assumes inv: "tmm_inv (managed (unat w)) t fl" and w: "w \<le> USER_BASE" "2 ^ 21 dvd unat w"
    and pool: "mp_base (tm_pools t ! 0) = w" "mp_type (tm_pools t ! 0) = MEM_REGION_TENSOR"
    and t: "tm_count t = 0" "unat (tm_next t) \<le> 5" "tm_ready t" "tm_next_id t = 1"
  shows "\<exists>t' fl'. bootstrap_user_tensor_exclusion_selftest t = Some (AIOS_OK, t') \<and> tmm_inv (managed (unat w)) t' fl'
    \<and> live t' = [] \<and> tm_next_id t' = 1 \<and> same_frame t t' \<and> tm_stats t' = tm_stats t \<and> unat (tm_next t') \<le> 11"
proof -
  have b: "unat w \<le> 67108864" using w(1) by (simp add: word_le_nat_alt)
  have lv: "live t = []" using t by (simp add: live_def)
  from probe_prefix_ok [OF inv w t(1,2)] obtain p t1 fl1 where
    p: "probe_prefix w t = Some (True, p, t1)" "tmm_inv (managed (unat w)) t1 fl1" "live t1 = (case p of None \<Rightarrow> [] | Some ta \<Rightarrow> [ta])"
      "\<And>ta. p = Some ta \<Longrightarrow> ta_ref_count ta = 1" "\<And>a. live_cover (mset (live t1)) 1 a = rng (unat w) (67108864 - unat w) a"
      "same_frame t t1" "unat (tm_next t1) \<le> 7" by blast
  have "length (live t1) \<le> 1" using p(3) by (cases p) simp_all
  from probe_suffix_ok [OF p(2) b p(5) this p(7)] obtain s t2 fl2 where
    s: "probe_suffix True t1 = Some (True, Some s, t2)" "tmm_inv (managed (unat w)) t2 fl2" "live t2 = live t1 @ [s]"
      "ta_ref_count s = 1" "same_frame t1 t2" "unat (tm_next t2) \<le> 9" by blast
  have "\<exists>t' fl'. cleanup_free (Some s) True t2 = Some (True, t') \<and> tmm_inv (managed (unat w)) t' fl'
      \<and> mset (live t') = mset (live t1) \<and> same_frame t2 t' \<and> unat (tm_next t') \<le> Suc (unat (tm_next t2))"
    by (rule cleanup_free_ok [OF s(2)]) (use s in \<open>auto simp: word_less_nat_alt\<close>)
  then obtain t3 fl3 where c: "cleanup_free (Some s) True t2 = Some (True, t3)" "tmm_inv (managed (unat w)) t3 fl3"
    "mset (live t3) = mset (live t1)" "same_frame t2 t3" "unat (tm_next t3) \<le> Suc (unat (tm_next t2))" by blast
  have "\<exists>t' fl'. cleanup_free p True t3 = Some (True, t') \<and> tmm_inv (managed (unat w)) t' fl'
      \<and> mset (live t') = {#} \<and> same_frame t3 t' \<and> unat (tm_next t') \<le> Suc (unat (tm_next t3))"
    by (rule cleanup_free_ok [OF c(2)]) (use s p c in \<open>auto simp: word_less_nat_alt split: option.splits\<close>)
  then obtain t4 fl4 where d: "cleanup_free p True t3 = Some (True, t4)" "tmm_inv (managed (unat w)) t4 fl4"
    "live t4 = []" "same_frame t3 t4" "unat (tm_next t4) \<le> 11" using c(5) s(6) by fastforce
  have fr: "same_frame t t4" using p(6) s(5) c(4) d(4) by (simp add: same_frame_def)
  have ex: "tensor_mm_bootstrap_user_range_excluded t4 = Some True"
    using range_excluded_ok d(2) fr t(3) by (auto simp: same_frame_def tmm_inv_def)
  have bd: "tensor_free_list_has_bootstrap_boundaries t4 = Some True"
    using boundaries_ok [OF d(2) w(1) _ d(3)] fr pool(1) by (simp add: same_frame_def)
  let ?t = "t4\<lparr>tm_stats := tm_stats t, tm_next_id := tm_next_id t\<rparr>"
  have "bootstrap_user_tensor_exclusion_selftest t = Some (AIOS_OK, ?t)"
    using p(1) s(1) c(1) d(1) ex bd pool w(1)
    by (simp add: bootstrap_user_tensor_exclusion_selftest_def Let_def not_less)
  moreover have "tmm_inv (managed (unat w)) ?t fl4"
    by (rule restore_inv [OF inv d(2) lv d(3) _ t(4)]) (use fr in \<open>simp add: same_frame_def\<close>)
  ultimately show ?thesis using d(3,5) fr t(4) by (fastforce simp: live_def same_frame_def)
qed

section \<open>Initialisation and runs\<close>

lemma guard_probes_ok: "tm_count t = 0 \<Longrightarrow> guard_probes t = Some (True, t)"
  by (simp add: guard_probes_def tensor_alloc_aligned_def tensor_alloc_aligned_profiled_def Let_def word_le_nat_alt)

lemma tmm_inv_frame [simp]: "tmm_inv M (t\<lparr>tm_ready := rd\<rparr>) fl = tmm_inv M t fl"
  by (simp add: tmm_inv_def tmm_ok_def lists_ok_def list_ok_def tensors_ok_def budget_ok_def mstats_ok_def live_def)

lemma init_ok:
  assumes start: "start \<le> USER_BASE"
  defines "p \<equiv> ALIGN_UP start HUGE_PAGE_SIZE"
  shows "\<exists>t fl. tensor_mm_init start tmm_boot = Some (AIOS_OK, t) \<and> tmm_inv (managed (unat p)) t fl \<and> live t = []
    \<and> tm_ready t \<and> tm_next_id t = 1 \<and> ms_total_memory (tm_stats t) = 0x3BE00000 \<and> unat (tm_next t) \<le> 11"
proof -
  have p: "p \<le> USER_BASE" "2 ^ 21 dvd unat p" using pool_start_aligned [OF start] by (simp_all add: p_def)
  from init_pools_ok [OF start, folded p_def] obtain t pools fl where
    t: "init_pools [0, 1, 2, 3] start (tmm_boot\<lparr>tm_stats := zero_stats, tm_ready := False, tm_excluded := 0\<rparr>) = Some (AIOS_OK, t)"
      "tmm_inv (managed (unat p)) t fl" "tm_count t = 0" "unat (tm_next t) \<le> 5" "tm_next_id t = 1" "tm_excluded t = USER_SIZE"
      "ms_total_memory (tm_stats t) = 0x3BE00000" "mp_base (tm_pools t ! 0) = p" "mp_type (tm_pools t ! 0) = MEM_REGION_TENSOR"
    by (auto simp: staged_def)
  let ?t1 = "t\<lparr>tm_ready := True\<rparr>"
  have inv1: "tmm_inv (managed (unat p)) ?t1 fl"
    using t(2) by simp
  have ex: "tensor_mm_bootstrap_user_range_excluded ?t1 = Some True"
    using range_excluded_ok [of "managed (unat p)" ?t1 fl] inv1 by (simp add: tmm_inv_def)
  have "\<exists>t' fl'. bootstrap_user_tensor_exclusion_selftest ?t1 = Some (AIOS_OK, t') \<and> tmm_inv (managed (unat p)) t' fl'
      \<and> live t' = [] \<and> tm_next_id t' = 1 \<and> same_frame ?t1 t' \<and> tm_stats t' = tm_stats ?t1 \<and> unat (tm_next t') \<le> 11"
    by (rule selftest_ok [OF inv1 p]) (simp_all add: t)
  then obtain t2 fl2 where t2: "bootstrap_user_tensor_exclusion_selftest ?t1 = Some (AIOS_OK, t2)"
    "tmm_inv (managed (unat p)) t2 fl2" "live t2 = []" "tm_next_id t2 = 1" "same_frame ?t1 t2" "unat (tm_next t2) \<le> 11" by blast
  have "tensor_mm_init start tmm_boot = Some (AIOS_OK, t2)"
    using t(1,3,6) ex t2(1) guard_probes_ok [of ?t1] by (simp add: tensor_mm_init_def Let_def)
  then show ?thesis using t2 t(7) by (auto simp: same_frame_def)
qed

lemma good_alloc:
  assumes "good M t" and "tensor_alloc_aligned_profiled sz al r l c s out t = Some (st, res, t')"
  shows "good M t'"
proof -
  obtain fl where inv: "tmm_inv M t fl" and r: "tm_ready t" "ms_total_memory (tm_stats t) = 0x3BE00000" using assms(1) by (auto simp: good_def)
  from alloc_ok [OF inv, of sz al r l c s out] assms(2) show ?thesis
    using inv r by (auto simp: good_def entered_def)
qed

lemma good_free:
  assumes "good M t" and "tensor_free tid t = Some (st, t')"
  shows "good M t'"
proof -
  obtain fl where inv: "tmm_inv M t fl" and r: "tm_ready t" "ms_total_memory (tm_stats t) = 0x3BE00000" using assms(1) by (auto simp: good_def)
  from inv show ?thesis
    by (cases rule: tensor_free_cases [where tid = tid])
      (use assms(2) inv r in \<open>auto simp: good_def left_table_def set_entry_def\<close>)
qed

lemma good_set_entry:
  assumes "good M t" and "find_tensor tid t = Some i" and "same_range (tm_table t i) (f (tm_table t i))"
  shows "good M (set_entry i f t)"
proof -
  obtain fl where inv: "tmm_inv M t fl" and r: "tm_ready t" "ms_total_memory (tm_stats t) = 0x3BE00000" using assms(1) by (auto simp: good_def)
  have "i < unat (tm_count t)" using find_tensor_spec(2) [OF assms(2)] by simp
  then have "tmm_inv M (set_entry i f t) fl" using set_entry_inv [of M t fl i f] inv assms(3) by blast
  then show ?thesis using r by (auto simp: good_def set_entry_def)
qed

lemma good_model_free:
  assumes "model_free_from i t = Some t'" and "good M t"
  shows "good M t'"
  using assms
proof (induction rule: model_free_from.raw_induct [rotated 1, consumes 1])
  case (1 rec i t t')
  then show ?case by (auto split: if_splits option.splits dest: good_free)
qed

lemma good_step:
  assumes g: "good M t" and "tmm_step op t = Some t'"
  shows "good M t'"
proof -
  note alloc = good_alloc [OF g] note free = good_free [OF g]
  have prof: "good M t'" if "tensor_alloc_profiled sh r l c s out t = Some (st, res, t')" for sh r l c s out st res t'
    using that g alloc by (auto simp: tensor_alloc_profiled_def split: if_splits Option.bind_split_asm)
  have unref: "good M t'" if "find_tensor tid t = Some i" "tensor_free tid (set_entry i (ta_ref_count_update f) t) = Some (st, t')"
    for tid i f st t'
    by (rule good_free [OF good_set_entry [OF g that(1)] that(2)]) simp
  from assms(2) g show ?thesis
    by (cases op)
      (auto simp: tensor_alloc_def tensor_alloc_aligned_def model_alloc_def dma_alloc_def kv_cache_alloc_def dma_free_def
        kv_cache_resize_def model_free_def tensor_pin_def tensor_unpin_def tensor_ref_def tensor_unref_def Let_def
        intro: alloc free prof unref good_set_entry [OF g] good_model_free [OF _ g]
        split: option.splits if_splits)
qed

lemma good_run:
  assumes "tmm_run start t" and "start \<le> USER_BASE"
  shows "good (managed (unat (ALIGN_UP start HUGE_PAGE_SIZE))) t"
  using assms(1)
proof induction
  case (init t)
  then show ?case using init_ok [OF assms(2)] by (auto simp: good_def)
next
  case (step t op t')
  then show ?case by (auto intro: good_step)
qed

end
