(* ===== verification/Tensor_MM_Correct.thy ===== *)
theory Tensor_MM_Correct
  imports Tensor_MM_Init
begin

text \<open>
  The properties of the tensor memory manager, with their witnesses.
\<close>

section \<open>Facts behind the properties\<close>

lemma run_inv:
  assumes "tmm_run start t" and "start \<le> USER_BASE"
  obtains fl where "tmm_inv (pools_at start) t fl" "tmm_ok (pools_at start) t fl" "tm_ready t"
proof -
  from good_run [OF assms] obtain fl where i: "tmm_inv (pools_at start) t fl" and r: "tm_ready t"
    by (auto simp: good_def pools_at_def)
  then show thesis using that unfolding tmm_inv_def by blast
qed

lemma free_list_ofI: "tmm_ok M t fl \<Longrightarrow> free_list_of t r (fl r)"
  using list_okD(1) [OF lists_okD(1) [OF tmm_okD(2)]] by (simp add: free_list_of_def)

lemma free_list_of_unique: "tmm_ok M t fl \<Longrightarrow> free_list_of t r xs \<Longrightarrow> xs = fl r"
  using free_list_ofI mb.chain_unique unfolding free_list_of_def by blast

lemma live_cover_span: "ta \<in> set tas \<Longrightarrow> ta_region ta = r \<Longrightarrow> a \<in> span ta \<Longrightarrow> 1 \<le> live_cover (mset tas) r a"
  using live_cover_mem [of ta "mset tas" a] by (auto simp: span_def rng_def split: if_splits)

lemma live_spans_disjoint:
  assumes ok: "tmm_ok M t fl" and lv: "live t = tas @ [ta]" and x: "x \<in> set tas"
  shows "span x \<inter> span ta = {}"
proof (rule ccontr)
  assume "span x \<inter> span ta \<noteq> {}"
  then obtain a where a: "a \<in> span x" "a \<in> span ta" by blast
  have "a \<in> M (ta_region x)" "a \<in> M (ta_region ta)"
    using live_managed [OF ok, of x] live_managed [OF ok, of ta] lv x a by (auto simp: span_def)
  then have r: "ta_region x = ta_region ta" using tmm_okD(1) [OF ok] unfolding managed_ok_def by blast
  have "2 \<le> live_cover (mset (live t)) (ta_region ta) a"
    using live_cover_span [OF x r a(1)] a(2) by (simp add: lv span_def rng_def)
  then show False using tmm_okD(6) [OF ok, of "ta_region ta" a] by (simp split: if_splits)
qed

lemma free_span_cover: "a \<in> free_span t xs \<longleftrightarrow> 0 < free_cover (tm_blocks t) xs a"
  by (auto simp: free_span_def block_span_def free_cover_pos)

text \<open>The free addresses of a region are those it manages and no tensor holds.\<close>

lemma free_span_eq:
  assumes ok: "tmm_ok M t fl"
  shows "free_span t (fl r) = M r - (\<Union>ta \<in> {ta \<in> set (live t). ta_region ta = r}. span ta)"
proof -
  have lc: "0 < live_cover (mset tas) r a \<longleftrightarrow> (\<exists>ta \<in> set tas. ta_region ta = r \<and> a \<in> span ta)" for tas a
    by (induction tas) (auto simp: span_def)
  show ?thesis
  proof (rule set_eqI)
    fix a
    show "a \<in> free_span t (fl r) \<longleftrightarrow> a \<in> M r - (\<Union>ta \<in> {ta \<in> set (live t). ta_region ta = r}. span ta)"
      using tmm_okD(6) [OF ok, of r a] lc [of "live t" a] by (auto simp: free_span_cover split: if_splits)
  qed
qed

lemma free_span_of:
  assumes ok: "tmm_ok M t fl" and xs: "free_list_of t r xs"
  shows "free_span t xs = M r - (\<Union>ta \<in> {ta \<in> set (live t). ta_region ta = r}. span ta)"
  using free_span_eq [OF ok] free_list_of_unique [OF ok xs] by simp

lemma alloc_outcome:
  assumes "tmm_run start t" and "start \<le> USER_BASE"
    and "tensor_alloc_aligned_profiled sz0 align0 r lifetime rtc sto has_out t = Some (AIOS_OK, out, t')"
  obtains ta fl fl' k where "out = Some ta" "tmm_inv (pools_at start) t fl" "tmm_inv (pools_at start) t' fl'"
    "entered t r lifetime ta t'" "placed t (fl r) (ALIGN_UP_u32 sz0 (eff_align align0)) (eff_align align0) ta"
    "eff_align align0 = 2 ^ k" "k < 32" "2 ^ k dvd unat (ta_phys_addr ta)"
proof -
  obtain fl where inv: "tmm_inv (pools_at start) t fl" using run_inv [OF assms(1,2)] .
  from alloc_ok [OF inv, of sz0 align0 r lifetime rtc sto has_out] assms(3) inv show thesis
    by (auto intro: that)
qed

section \<open>Reaching the end of the descriptor pool\<close>

text \<open>While the DMA pool is untouched and descriptors last, a DMA page can be had.\<close>

lemma page_available:
  assumes inv: "tmm_inv M t fl" and r: "r < NUM_REGIONS" "M r = {lo..<hi}"
    and lo: "unat USER_END \<le> lo" "lo + 4096 \<le> hi" "2 ^ 12 dvd lo" "hi \<le> 2 ^ 32"
    and free: "\<And>ta. ta \<in> set (live t) \<Longrightarrow> ta_region ta \<noteq> r"
    and room: "tm_count t < MAX_TENSORS" "tm_next t < MAX_BLOCKS"
  shows "\<exists>ta t' fl'. tensor_alloc_aligned PAGE_SIZE 4096 r True t = Some (AIOS_OK, Some ta, t')
    \<and> tmm_inv M t' fl' \<and> live t' = live t @ [ta] \<and> ta_ref_count ta = 1 \<and> ta_region ta = r
    \<and> unat (tm_next t) \<le> unat (tm_next t')"
proof -
  have ok: "tmm_ok M t fl" using inv by (simp add: tmm_inv_def)
  have "live_cover (mset (live t)) r a = 0" for a
    using free by (auto simp: live_cover_def filter_mset_eq_conv)
  then have fc: "free_cover (tm_blocks t) (fl r) a = (if lo \<le> a \<and> a < hi then 1 else 0)" for a
    using tmm_okD(6) [OF ok, of r a] r(2) by auto
  obtain x where x: "x \<in> set (fl r)" "unat (mb_base (tm_blocks t x)) = lo" "bend (tm_blocks t) x = hi"
    by (rule maximal_block [OF inv, of lo hi r]) (use fc lo(2) in auto)
  have bx: "mb_is_free (tm_blocks t x)"
    using list_okD(2) [OF lists_okD(1) [OF tmm_okD(2) [OF ok]] x(1)] by simp
  have "allocation_excludes_bootstrap_user_hole (mb_base (tm_blocks t x)) PAGE_SIZE"
    using x(2) lo by (simp add: excludes_hole)
  moreover have "PAGE_SIZE \<le> mb_size (tm_blocks t x)" using x lo(2) by (simp add: bend_def word_le_nat_alt)
  ultimately have "fits PAGE_SIZE (2 ^ 12) (tm_blocks t x)"
    using x(2) lo bx by (intro fits_aligned) simp_all
  from alloc_succeeds [OF inv, of 12 PAGE_SIZE r, OF _ _ _ _ _ r(1) x(1) this room] show ?thesis by auto
qed

lemma exhaust_step:
  assumes run: "tmm_run start t" and start: "start \<le> USER_BASE" and m: "mset (live t) = {#m#}" "ta_region m = MEM_REGION_MODEL"
    and nxt: "tm_next t < MAX_BLOCKS"
  shows "\<exists>t'. tmm_run start t' \<and> unat (tm_next t) < unat (tm_next t')
    \<and> (MAX_BLOCKS \<le> tm_next t' \<and> m \<in> set (live t') \<or> mset (live t') = {#m#})"
proof -
  let ?p = "unat (ALIGN_UP start HUGE_PAGE_SIZE)"
  have al: "?p \<le> 67108864" "2 ^ 21 dvd ?p" using pool_start_aligned [OF start] by (simp_all add: word_le_nat_alt)
  obtain fl where inv: "tmm_inv (pools_at start) t fl" using run_inv [OF run start] .
  have "length (live t) = 1" using arg_cong [OF m(1), of size] by simp
  then have cnt: "tm_count t < MAX_TENSORS" by (simp add: live_def word_less_nat_alt)
  have r: "pools_at start MEM_REGION_DMA = {?p + 939524096..<?p + 1006632960}" by (simp add: pools_at_def managed_def)
  have "2 ^ 12 dvd ?p + 939524096" using al(2) by (intro dvd_add) (auto elim: dvd_trans [rotated])
  moreover have "ta_region ta \<noteq> MEM_REGION_DMA" if "ta \<in> set (live t)" for ta
    using that m set_mset_mset [of "live t"] by simp
  ultimately obtain d t1 fl1 where d: "tensor_alloc_aligned PAGE_SIZE 4096 MEM_REGION_DMA True t = Some (AIOS_OK, Some d, t1)"
    "tmm_inv (pools_at start) t1 fl1" "live t1 = live t @ [d]" "ta_ref_count d = 1" "unat (tm_next t) \<le> unat (tm_next t1)"
    using page_available [OF inv _ r _ _ _ _ _ cnt nxt] al(1) by auto
  have run1: "tmm_run start t1"
    by (rule tmm_run.step [OF run, of "Tensor_Alloc_Aligned PAGE_SIZE 4096 MEM_REGION_DMA True"]) (simp add: d(1))
  have live: "m \<in> set (live t1)" using m(1) d(3) set_mset_mset [of "live t"] by simp
  show ?thesis
  proof (cases "tm_next t1 < MAX_BLOCKS")
    case False
    moreover from this nxt have "unat (tm_next t) < unat (tm_next t1)" by (simp add: word_less_nat_alt)
    ultimately show ?thesis using run1 live by (auto simp: not_less)
  next
    case True
    from free_sole [OF d(2) _ d(4) True] d(3) obtain t2 where
      t2: "tensor_free (ta_id d) t1 = Some (AIOS_OK, t2)" "mset (live t1) = add_mset d (mset (live t2))" "tm_next t2 = tm_next t1 + 1"
      by auto
    have "tmm_run start t2" by (rule tmm_run.step [OF run1, of "Tensor_Free (ta_id d)"]) (simp add: t2(1))
    moreover have "mset (live t2) = {#m#}" using t2(2) d(3) m(1) by simp
    ultimately show ?thesis using alloc_block_eq(2) [OF True] d(5) t2(3) by auto
  qed
qed

lemma exhaust:
  assumes "tmm_run start t" and "start \<le> USER_BASE" and "mset (live t) = {#m#}" and "ta_region m = MEM_REGION_MODEL"
  shows "\<exists>t'. tmm_run start t' \<and> MAX_BLOCKS \<le> tm_next t' \<and> m \<in> set (live t')"
  using assms
proof (induction "4096 - unat (tm_next t)" arbitrary: t rule: less_induct)
  case less
  show ?case
  proof (cases "tm_next t < MAX_BLOCKS")
    case False
    then show ?thesis using less.prems set_mset_mset [of "live t"] by (auto simp: not_less)
  next
    case True
    from exhaust_step [OF less.prems True] obtain t' where t': "tmm_run start t'" "unat (tm_next t) < unat (tm_next t')"
      "MAX_BLOCKS \<le> tm_next t' \<and> m \<in> set (live t') \<or> mset (live t') = {#m#}" by blast
    moreover have "4096 - unat (tm_next t') < 4096 - unat (tm_next t)" using t'(2) True by (simp add: word_less_nat_alt)
    ultimately show ?thesis using less.hyps [of t'] less.prems(2,4) by blast
  qed
qed

lemma exhausted_state:
  assumes start: "start \<le> USER_BASE"
  shows "\<exists>t ta. tmm_run start t \<and> MAX_BLOCKS \<le> tm_next t \<and> ta \<in> set (live t) \<and> ta_region ta = MEM_REGION_MODEL"
proof -
  let ?p = "unat (ALIGN_UP start HUGE_PAGE_SIZE)"
  have al: "?p \<le> 67108864" "2 ^ 21 dvd ?p" using pool_start_aligned [OF start] by (simp_all add: word_le_nat_alt)
  from init_ok [OF start] obtain t fl where t: "tensor_mm_init start tmm_boot = Some (AIOS_OK, t)"
    "tmm_inv (pools_at start) t fl" "live t = []" "unat (tm_next t) \<le> 11"
    by (auto simp: pools_at_def)
  have run: "tmm_run start t" using t(1) by (rule tmm_run.init)
  have cnt: "tm_count t < MAX_TENSORS" "tm_next t < MAX_BLOCKS" using t(3,4) by (simp_all add: live_def word_less_nat_alt)
  have r: "pools_at start MEM_REGION_MODEL = {?p + 268435456..<?p + 805306368}" by (simp add: pools_at_def managed_def)
  have "2 ^ 12 dvd ?p + 268435456" using al(2) by (intro dvd_add) (auto elim: dvd_trans [rotated])
  then obtain m t1 fl1 where m: "tensor_alloc_aligned PAGE_SIZE 4096 MEM_REGION_MODEL True t = Some (AIOS_OK, Some m, t1)"
    "live t1 = live t @ [m]" "ta_region m = MEM_REGION_MODEL"
    using page_available [OF t(2) _ r _ _ _ _ _ cnt] al(1) t(3) by auto
  have run1: "tmm_run start t1"
    by (rule tmm_run.step [OF run, of "Tensor_Alloc_Aligned PAGE_SIZE 4096 MEM_REGION_MODEL True"]) (simp add: m(1))
  from exhaust [OF run1 start _ m(3)] show ?thesis using m(2,3) t(3) by auto
qed

text \<open>The alignment of a size cuts it to 32 bits, and no tensor reaches 4 GiB.\<close>

lemma unat_add_4G:
  assumes "unat (sz :: u64) + 2 ^ 32 + 2 ^ n \<le> 2 ^ 64"
  shows "unat (sz + 0x100000000) = unat sz + 2 ^ 32"
proof -
  have "(0 :: nat) < 2 ^ n" by simp
  then have "unat sz + 2 ^ 32 < 2 ^ 64" using assms by linarith
  then have "unat sz + unat (0x100000000 :: u64) < 2 ^ LENGTH(64)" by simp
  then have "unat (sz + 0x100000000) = unat sz + unat (0x100000000 :: u64)" by (rule unat_add_no_wrap)
  then show ?thesis by simp
qed

lemma align_truncates:
  assumes "n < 32" and "unat sz + 2 ^ 32 + 2 ^ n \<le> 2 ^ 64"
  shows "ALIGN_UP_u32 (sz + 0x100000000) (2 ^ n) = ALIGN_UP_u32 sz (2 ^ n)"
proof -
  have m: "unat ((2 :: u64) ^ n) = 2 ^ n" using assms(1) by (simp add: unat_pow2)
  have p: "unat ((2 :: u64) ^ n - 1) = 2 ^ n - 1"
    using m by (subst unat_sub) (simp_all add: word_le_nat_alt)
  note four = unat_add_4G [OF assms(2)]
  have "unat sz + unat ((2 :: u64) ^ n - 1) < 2 ^ LENGTH(64)" "unat (sz + 0x100000000) + unat ((2 :: u64) ^ n - 1) < 2 ^ LENGTH(64)"
    using assms(2) unfolding p four by simp_all
  note w = this [THEN unat_add_no_wrap]
  have u: "unat (sz + (2 ^ n - 1)) = unat sz + (2 ^ n - 1)" "unat (sz + 0x100000000 + (2 ^ n - 1)) = unat sz + (2 ^ n - 1) + 2 ^ 32"
    unfolding w p four by simp_all
  have "unat (take_bit 32 (sz + 0x100000000 + (2 ^ n - 1))) = unat (take_bit 32 (sz + (2 ^ n - 1)))"
    by (simp only: unat_take_bit_mod u mod_add_self2)
  then have "take_bit 32 (sz + 0x100000000 + (2 ^ n - 1)) = take_bit 32 (sz + (2 ^ n - 1))" by (rule unat_eqI)
  then have "take_bit 32 (ALIGN_UP (sz + 0x100000000) (2 ^ n)) = take_bit 32 (ALIGN_UP sz (2 ^ n))"
    by (simp add: ALIGN_UP_def take_bit_and add_diff_eq)
  then show ?thesis using ALIGN_UP_u32_truncates [OF assms(1)] by simp
qed

lemma alloc_truncates:
  assumes "sz \<noteq> 0" and "6 \<le> n" and "n < 32" and "unat sz + 2 ^ 32 + 2 ^ n \<le> 2 ^ 64"
  shows "tensor_alloc_aligned_profiled (sz + 0x100000000) (2 ^ n) r lifetime rtc sto has_out t
       = tensor_alloc_aligned_profiled sz (2 ^ n) r lifetime rtc sto has_out t"
proof -
  have "unat (2 ^ n :: u32) = 2 ^ n" using assms(3) by (simp add: unat_pow2)
  moreover have "(2 :: nat) ^ 6 \<le> 2 ^ n" using assms(2) by (intro power_increasing) simp_all
  ultimately have a: "\<not> (2 ^ n :: u32) < 64" by (simp add: word_less_nat_alt)
  have c: "ucast (2 ^ n :: u32) = (2 ^ n :: u64)" using assms(3) by (intro unat_eqI) (simp add: unat_pow2 unsigned_ucast_eq take_bit_word_eq_self)
  have m: "unat ((2 :: u64) ^ n - 1) = 2 ^ n - 1"
    using assms(3) by (subst unat_sub) (simp_all add: word_le_nat_alt unat_pow2)
  note u = unat_add_4G [OF assms(4)]
  then have "sz + 0x100000000 \<noteq> 0" by auto
  moreover have "\<not> UINT64_MAX - (2 ^ n - 1) < sz" "\<not> UINT64_MAX - (2 ^ n - 1) < sz + 0x100000000"
    using overflow_guard [of "2 ^ n - 1" sz] overflow_guard [of "2 ^ n - 1" "sz + 0x100000000"] assms(4) u m by simp_all
  ultimately show ?thesis using align_truncates [OF assms(3,4)] assms(1) a c by (simp add: tensor_alloc_aligned_profiled_def Let_def)
qed

lemma tensor_below_4G:
  assumes "tmm_run start t" and "start \<le> USER_BASE"
    and "tensor_alloc_aligned_profiled sz al r lifetime rtc sto has_out t = Some (AIOS_OK, Some ta, t')"
  shows "unat (ta_size ta) \<le> 2 ^ 32"
proof -
  from alloc_outcome [OF assms] obtain fl' where inv: "tmm_inv (pools_at start) t' fl'" and "entered t r lifetime ta t'" by blast
  then have ok: "tmm_ok (pools_at start) t' fl'" and "ta \<in> set (live t')" by (simp_all add: tmm_inv_def entered_def)
  then have sub: "{unat (ta_phys_addr ta)..<unat (ta_phys_addr ta) + unat (ta_size ta)} \<subseteq> {..<2 ^ 32}" using live_managed [OF ok, of ta] tmm_okD(1) [OF ok] unfolding managed_ok_def by blast
  have "0 < unat (ta_size ta) \<Longrightarrow> unat (ta_phys_addr ta) + unat (ta_size ta) - 1 < 2 ^ 32"
    using subsetD [OF sub, of "unat (ta_phys_addr ta) + unat (ta_size ta) - 1"] by simp
  then show ?thesis by linarith
qed

section \<open>Properties\<close>

text \<open>
  C1: a successful allocation is memory safe.  Whatever calls came before, the tensor it
  returns has an identifier no live tensor has, occupies a non-empty range inside the pool
  of the requested region, overlaps neither a live tensor nor the bootstrap user window, and
  starts at a multiple of the alignment.  Its size covers the request, provided size and
  alignment together stay within 4 GiB.
\<close>

theorem tensor_alloc_memory_safe:
  assumes "tmm_run start t" and "start \<le> USER_BASE"
    and "tensor_alloc_aligned_profiled sz alignment r lifetime rtc sto has_out t = Some (AIOS_OK, out, t')"
  shows "\<exists>ta. out = Some ta \<and> live t' = live t @ [ta] \<and> ta_id ta \<notin> ta_id ` set (live t) \<and> ta_region ta = r
    \<and> span ta \<noteq> {} \<and> span ta \<subseteq> pools_at start r \<and> span ta \<inter> user_window = {}
    \<and> (\<forall>x \<in> set (live t). span x \<inter> span ta = {})
    \<and> unat (eff_align alignment) dvd unat (ta_phys_addr ta)
    \<and> (unat sz + unat (eff_align alignment) \<le> 2 ^ 32 \<longrightarrow> unat sz \<le> unat (ta_size ta))"
proof -
  from alloc_outcome [OF assms] obtain ta fl fl' k where
    o: "out = Some ta" and inv: "tmm_inv (pools_at start) t' fl'" and ent: "entered t r lifetime ta t'"
    and pl: "placed t (fl r) (ALIGN_UP_u32 sz (eff_align alignment)) (eff_align alignment) ta"
    and k: "eff_align alignment = 2 ^ k" "k < 32" "2 ^ k dvd unat (ta_phys_addr ta)" .
  have ok: "tmm_ok (pools_at start) t' fl'" using inv by (simp add: tmm_inv_def)
  have lv: "live t' = live t @ [ta]" and r: "ta_region ta = r" using ent by (simp_all add: entered_def)
  have tok: "tensors_ok t'" by (rule tmm_okD(3) [OF ok])
  have m: "span ta \<subseteq> pools_at start r" using live_managed [OF ok, of ta] lv r by (simp add: span_def)
  have "ta_size ta \<noteq> 0" using tok lv by (simp add: tensors_ok_def)
  then have ne: "span ta \<noteq> {}" by (simp add: span_def unat_gt_0)
  have w: "span ta \<inter> user_window = {}"
    using m tmm_okD(1) [OF ok] unfolding managed_ok_def user_window_def by blast
  have fr: "ta_id ta \<notin> ta_id ` set (live t)" using tok lv by (auto simp: tensors_ok_def)
  have ua: "unat (eff_align alignment) = 2 ^ k" using k by (simp add: unat_pow2)
  have "unat sz \<le> unat (ta_size ta)" if "unat sz + 2 ^ k \<le> 2 ^ 32"
    using ALIGN_UP_u32_covers [OF k(2) that] pl k(1) by (auto simp: placed_def word_le_nat_alt)
  then show ?thesis
    using o lv fr r ne m w k(3) ua live_spans_disjoint [OF ok lv] by auto
qed

text \<open>
  C17: allocation always returns, and it is best fit.  It succeeds with a tensor at the
  aligned start of the smallest free block of the region that fits; or it reports out of
  memory, with the state unchanged, because the table or the descriptor pool is full or no
  block fits; or it reports another error, with the state unchanged, because the arguments
  are not acceptable.
\<close>

theorem tensor_alloc_best_fit:
  assumes "tmm_run start t" and "start \<le> USER_BASE" and "free_list_of t r xs"
  shows "\<exists>st out t'. tensor_alloc_aligned_profiled sz alignment r lifetime rtc sto has_out t = Some (st, out, t')
    \<and> (st = AIOS_OK \<and> (\<exists>ta. out = Some ta \<and> placed t xs (ALIGN_UP_u32 sz (eff_align alignment)) (eff_align alignment) ta)
     \<or> st = AIOS_ERR_NOMEM \<and> out = None \<and> t' = t \<and> no_room t xs (ALIGN_UP_u32 sz (eff_align alignment)) (eff_align alignment)
     \<or> st \<noteq> AIOS_OK \<and> st \<noteq> AIOS_ERR_NOMEM \<and> out = None \<and> t' = t \<and> \<not> alloc_args_ok sz alignment r has_out)"
proof -
  obtain fl where inv: "tmm_inv (pools_at start) t fl" using run_inv [OF assms(1,2)] .
  then have "xs = fl r" using free_list_of_unique assms(3) by (auto simp: tmm_inv_def)
  with alloc_ok [OF inv, of sz alignment r lifetime rtc sto has_out] show ?thesis by (auto split: if_splits)
qed

text \<open>
  C18: releasing a tensor returns in one of four ways.  An unknown identifier is rejected; a
  tensor with further references loses one; without a spare descriptor the call fails and
  changes nothing; otherwise exactly that tensor leaves the table, and afterwards the free
  addresses of every region are the managed ones no live tensor holds.
\<close>

theorem tensor_free_outcome:
  assumes "tmm_run start t" and "start \<le> USER_BASE"
  shows "case find_tensor tid t of
      None \<Rightarrow> tensor_free tid t = Some (AIOS_ERR_INVAL, t) \<and> tid \<notin> ta_id ` set (live t)
    | Some i \<Rightarrow>
        if 1 < ta_ref_count (tm_table t i)
        then tensor_free tid t = Some (AIOS_OK, set_entry i (ta_ref_count_update (\<lambda>c. c - 1)) t)
        else if MAX_BLOCKS \<le> tm_next t then tensor_free tid t = Some (AIOS_ERR_NOMEM, t)
        else \<exists>t'. tensor_free tid t = Some (AIOS_OK, t')
           \<and> mset (live t) = add_mset (tm_table t i) (mset (live t'))
           \<and> (\<forall>r xs. free_list_of t' r xs \<longrightarrow>
                free_span t' xs = pools_at start r - (\<Union>ta \<in> {ta \<in> set (live t'). ta_region ta = r}. span ta))"
proof -
  obtain fl where inv: "tmm_inv (pools_at start) t fl" using run_inv [OF assms] .
  from inv show ?thesis
  proof (cases rule: tensor_free_cases [where tid = tid])
    case unknown
    then show ?thesis using find_tensor_spec(1) [of tid t] by simp
  next
    case (shared i t')
    then show ?thesis by simp
  next
    case (full i)
    then show ?thesis by simp
  next
    case (freed i t' fl')
    have ok: "tmm_ok (pools_at start) t' fl'" using freed(5) by (simp add: tmm_inv_def)
    have "mset (live t) = add_mset (tm_table t i) (mset (live t'))" using freed(6) by (simp add: left_table_def)
    then show ?thesis using freed(1-4) free_span_of [OF ok] by (simp add: leD)
  qed
qed

text \<open>
  C19: allocating and releasing is a round trip.  While a descriptor is left, freeing the
  tensor just allocated succeeds, the live tensors are those from before, and every region
  has the same free addresses and the counters the same amount of used memory as before.
\<close>

theorem tensor_alloc_free_roundtrip:
  assumes "tmm_run start t" and "start \<le> USER_BASE"
    and "tensor_alloc_aligned_profiled sz alignment r lifetime rtc sto has_out t = Some (AIOS_OK, Some ta, t')"
    and "tm_next t' < MAX_BLOCKS"
  shows "\<exists>t''. tensor_free (ta_id ta) t' = Some (AIOS_OK, t'') \<and> mset (live t'') = mset (live t)
    \<and> ms_used_memory (tm_stats t'') = ms_used_memory (tm_stats t)
    \<and> (\<forall>q xs ys. free_list_of t q xs \<longrightarrow> free_list_of t'' q ys \<longrightarrow> free_span t'' ys = free_span t xs)"
proof -
  from alloc_outcome [OF assms(1-3)] obtain fl fl' where inv: "tmm_inv (pools_at start) t fl" "tmm_inv (pools_at start) t' fl'"
    and ent: "entered t r lifetime ta t'" by blast
  have "ta \<in> set (live t')" "ta_ref_count ta = 1" using ent by (auto simp: entered_def)
  from free_sole [OF inv(2) this assms(4)] obtain t'' fl'' where
    f: "tensor_free (ta_id ta) t' = Some (AIOS_OK, t'')" "tmm_inv (pools_at start) t'' fl''" "mset (live t') = add_mset ta (mset (live t''))"
    by blast
  have ok: "tmm_ok (pools_at start) t fl" "tmm_ok (pools_at start) t'' fl''" using inv(1) f(2) by (simp_all add: tmm_inv_def)
  have lv: "mset (live t'') = mset (live t)" using f(3) ent by (simp add: entered_def)
  then have st: "set (live t'') = set (live t)" by (rule mset_eq_setD)
  have "free_span t'' ys = free_span t xs" if "free_list_of t q xs" "free_list_of t'' q ys" for q xs ys
    using free_span_of [OF ok(1) that(1)] free_span_of [OF ok(2) that(2)] st by simp
  moreover have "ms_used_memory (tm_stats t'') = ms_used_memory (tm_stats t)"
    using tmm_okD(5) [OF ok(1)] tmm_okD(5) [OF ok(2)] arg_cong [OF lv, of "\<lambda>m. sum_mset (image_mset ta_size m)"]
    by (simp add: mstats_ok_def sum_mset_sum_list [symmetric] del: sum_mset_sum_list)
  ultimately show ?thesis using f(1) lv by blast
qed

text \<open>
  C20: initialisation succeeds whenever the linker places the pools at or below the user
  window: all self tests pass, the manager is ready and empty, and the free addresses of
  each region are exactly its pool, the tensor pool without the user window.
\<close>

theorem tensor_mm_init_succeeds:
  assumes "start \<le> USER_BASE"
  shows "\<exists>t. tensor_mm_init start tmm_boot = Some (AIOS_OK, t) \<and> tm_ready t \<and> live t = []
    \<and> ms_total_memory (tm_stats t) = MB 958
    \<and> (\<forall>r xs. free_list_of t r xs \<longrightarrow> free_span t xs = pools_at start r)"
proof -
  from init_ok [OF assms] obtain t fl where t: "tensor_mm_init start tmm_boot = Some (AIOS_OK, t)"
    "tmm_ok (pools_at start) t fl" "live t = []" "tm_ready t" "ms_total_memory (tm_stats t) = 0x3BE00000"
    by (auto simp: pools_at_def tmm_inv_def)
  show ?thesis using t free_span_of [OF t(2)] by (auto simp: MB_def)
qed

text \<open>
  C3: the bootstrap user window is out of reach for ever.  After any calls the exclusion
  check answers yes, and neither a live tensor nor a free block contains an address of the
  window.
\<close>

theorem user_window_never_managed:
  assumes "tmm_run start t" and "start \<le> USER_BASE"
  shows "tensor_mm_bootstrap_user_range_excluded t = Some True
    \<and> (\<forall>ta \<in> set (live t). span ta \<inter> user_window = {})
    \<and> (\<forall>r xs. free_list_of t r xs \<longrightarrow> free_span t xs \<inter> user_window = {})"
proof -
  obtain fl where ok: "tmm_ok (pools_at start) t fl" and rd: "tm_ready t"
    using run_inv [OF assms] .
  have M: "pools_at start r \<inter> user_window = {}" for r
    using tmm_okD(1) [OF ok] unfolding managed_ok_def user_window_def by blast
  have "span ta \<inter> user_window = {}" if "ta \<in> set (live t)" for ta
    using live_managed [OF ok that] M [of "ta_region ta"] by (auto simp: span_def)
  moreover have "free_span t xs \<inter> user_window = {}" if "free_list_of t r xs" for r xs
    using free_span_of [OF ok that] M [of r] by auto
  ultimately show ?thesis using range_excluded_ok [OF ok rd] by blast
qed

text \<open>
  C5: the free lists stay sorted and fully coalesced.  Each region has a well linked free
  list whose blocks come in address order with a gap between any two, so no two adjacent
  free blocks are ever left unmerged; its blocks and the live tensors of the region make up
  the whole pool.
\<close>

theorem free_lists_coalesced:
  assumes "tmm_run start t" and "start \<le> USER_BASE"
  shows "\<exists>xs. free_list_of t r xs
    \<and> sorted_wrt (\<lambda>x y. bend (tm_blocks t) x < unat (mb_base (tm_blocks t y))) xs
    \<and> (\<forall>x \<in> set xs. block_span t x \<noteq> {})
    \<and> free_span t xs = pools_at start r - (\<Union>ta \<in> {ta \<in> set (live t). ta_region ta = r}. span ta)"
proof -
  obtain fl where inv: "tmm_inv (pools_at start) t fl" and ok: "tmm_ok (pools_at start) t fl"
    using run_inv [OF assms] .
  have sz: "\<forall>x \<in> set (fl r). mb_size (tm_blocks t x) \<noteq> 0"
    using list_okD(2) [OF lists_okD(1) [OF tmm_okD(2) [OF ok]]] by blast
  have "separated (tm_blocks t) (fl r)" using inv by (simp add: tmm_inv_def)
  from separated_pairs [OF this sz] show ?thesis
    using free_list_ofI [OF ok, of r] free_span_eq [OF ok, of r] sz by (intro exI [of _ "fl r"]) (simp add: block_span_def bend_def unat_gt_0)
qed

text \<open>
  C21: no more than 4096 tensors can ever be handed out between two restarts, because a block
  descriptor is never reused: the identifier counter, which starts at 1 and grows by one per
  allocation, never passes 4097 however many tensors have been freed.  Identifiers of live
  tensors are distinct.
\<close>

theorem tensor_ids_bounded:
  assumes "tmm_run start t" and "start \<le> USER_BASE"
  shows "unat (tm_next_id t) \<le> 4097 \<and> distinct (map ta_id (live t)) \<and> length (live t) \<le> 2048
    \<and> (\<forall>ta \<in> set (live t). ta_id ta < tm_next_id t)"
proof -
  obtain fl where ok: "tmm_ok (pools_at start) t fl" using run_inv [OF assms] .
  have "unat (tm_next t) \<le> 4096" using tmm_okD(4) [OF ok] by (simp add: budget_ok_def word_le_nat_alt)
  then have "unat (tm_next_id t) \<le> 4097" using tmm_okD(4) [OF ok] unfolding budget_ok_def by linarith
  moreover have "length (live t) \<le> 2048" using tmm_okD(3) [OF ok] by (simp add: tensors_ok_def live_def word_le_nat_alt)
  ultimately show ?thesis using tmm_okD(3) [OF ok] by (simp add: tensors_ok_def)
qed

text \<open>
  C22: with enough descriptors left, releasing the models returns, leaves no tensor of the
  model region behind, and keeps every other tensor.
\<close>

theorem model_free_releases_models:
  assumes "tmm_run start t" and "start \<le> USER_BASE" and "size (models t) + unat (tm_next t) \<le> 4096"
  shows "\<exists>t'. model_free model_id t = Some (AIOS_OK, t') \<and> models t' = {#} \<and> others t' = others t"
proof -
  obtain fl where inv: "tmm_inv (pools_at start) t fl" using run_inv [OF assms(1,2)] .
  from model_free_from_ok [OF inv, of 0] assms(3) show ?thesis by (auto simp: model_free_def)
qed

text \<open>
  C23: without descriptors, releasing the models never returns: the loop retries the same
  failing release for ever.  Such a state is reached by ordinary allocations and releases.
\<close>

theorem model_free_can_hang:
  assumes "start \<le> USER_BASE"
  shows "\<exists>t. tmm_run start t \<and> MAX_BLOCKS \<le> tm_next t \<and> models t \<noteq> {#} \<and> model_free model_id t = None"
proof -
  from exhausted_state [OF assms] obtain t ta where t: "tmm_run start t" "MAX_BLOCKS \<le> tm_next t" "ta \<in> set (live t)"
    "ta_region ta = MEM_REGION_MODEL" by blast
  obtain fl where ok: "tmm_ok (pools_at start) t fl" using run_inv [OF t(1) assms] .
  from t(3,4) have "\<exists>j. unat (0 :: u32) \<le> j \<and> j < unat (tm_count t) \<and> ta_region (tm_table t j) = MEM_REGION_MODEL"
    by (auto simp: live_def)
  then have "model_free_from 0 t = None"
    using model_free_from_stuck [of 0 t _, OF _ tmm_okD(3) [OF ok] t(2)] by (cases "model_free_from 0 t") blast+
  moreover have "models t \<noteq> {#}" using t(3,4) by (auto simp: models_def filter_mset_eq_conv)
  ultimately show ?thesis using t(1,2) by (auto simp: model_free_def)
qed

text \<open>
  C24: a key-value cache can never be allocated: its region has no pool, so every request
  fails and leaves the state as it was.
\<close>

theorem kv_cache_alloc_never_succeeds:
  assumes "tmm_run start t" and "start \<le> USER_BASE"
  shows "\<exists>st. st \<noteq> AIOS_OK \<and> kv_cache_alloc num_layers num_heads head_dim seq_len dtype has_out t = Some (st, None, t)"
proof -
  obtain fl where inv: "tmm_inv (pools_at start) t fl" using run_inv [OF assms] .
  have ok: "tmm_ok (pools_at start) t fl" using inv by (simp add: tmm_inv_def)
  have "x \<notin> set (fl MEM_REGION_KV_CACHE)" for x
    using region_managed [OF ok, of x MEM_REGION_KV_CACHE] by auto
  then have "\<not> placed t (fl MEM_REGION_KV_CACHE) sz a ta" for sz a ta by (simp add: placed_def best_block_def)
  then have none: "\<exists>st. st \<noteq> AIOS_OK \<and> tensor_alloc_aligned_profiled sz al MEM_REGION_KV_CACHE l c s has_out t = Some (st, None, t)" for sz al l c s
    using alloc_ok [OF inv, of sz al MEM_REGION_KV_CACHE l c s has_out] by (elim exE conjE disjE) simp_all
  show ?thesis unfolding kv_cache_alloc_def Let_def by (rule none)
qed

text \<open>
  C25: sizes are truncated to 32 bits when they are aligned.  For every power-of-two alignment from 64
  and every non-zero size whose rounding does not overflow, a request that is 4 GiB larger is
  answered exactly like the smaller one; in a state that the operations reach, a tensor it gets
  is shorter than the request.
\<close>

theorem tensor_alloc_truncates_size:
  assumes "tmm_run start t" and "start \<le> USER_BASE"
    and "sz \<noteq> 0" and "6 \<le> n" and "n < 32" and "unat sz + 2 ^ 32 + 2 ^ n \<le> 2 ^ 64"
  shows "tensor_alloc_aligned_profiled (sz + 0x100000000) (2 ^ n) r lifetime rtc sto has_out t
       = tensor_alloc_aligned_profiled sz (2 ^ n) r lifetime rtc sto has_out t
    \<and> (\<forall>ta t'. tensor_alloc_aligned_profiled (sz + 0x100000000) (2 ^ n) r lifetime rtc sto has_out t = Some (AIOS_OK, Some ta, t')
         \<longrightarrow> unat (ta_size ta) < unat (sz + 0x100000000))"
proof
  show "tensor_alloc_aligned_profiled (sz + 0x100000000) (2 ^ n) r lifetime rtc sto has_out t
       = tensor_alloc_aligned_profiled sz (2 ^ n) r lifetime rtc sto has_out t"
    using assms(3-6) by (rule alloc_truncates)
  note u = unat_add_4G [OF assms(6)]
  show "\<forall>ta t'. tensor_alloc_aligned_profiled (sz + 0x100000000) (2 ^ n) r lifetime rtc sto has_out t = Some (AIOS_OK, Some ta, t')
      \<longrightarrow> unat (ta_size ta) < unat (sz + 0x100000000)"
  proof (intro allI impI)
    fix ta t'
    assume "tensor_alloc_aligned_profiled (sz + 0x100000000) (2 ^ n) r lifetime rtc sto has_out t = Some (AIOS_OK, Some ta, t')"
    from tensor_below_4G [OF assms(1,2) this] have "unat (ta_size ta) \<le> 2 ^ 32" .
    moreover have "0 < unat sz" using assms(3) by (simp add: unat_gt_0)
    ultimately show "unat (ta_size ta) < unat (sz + 0x100000000)" unfolding u by linarith
  qed
qed

text \<open>
  C26: the statistics mean what they say.  In every reachable state the used memory is the
  sum of the sizes of the live tensors, the lifetime counters are that sum per lifetime, the
  tensor counter is the number of live tensors, and used and free memory add up to the
  958 MiB of the pools.
\<close>

theorem tensor_stats_meaning:
  assumes "tmm_run start t" and "start \<le> USER_BASE"
  shows "\<exists>st. tensor_mm_stats True t = Some st
    \<and> ms_used_memory st = sum_list (map ta_size (live t))
    \<and> ms_tensor_count st = of_nat (length (live t))
    \<and> ms_short_term_memory st = lifetime_bytes (live t) MEM_LIFETIME_SHORT_TERM
    \<and> ms_long_term_memory st = lifetime_bytes (live t) MEM_LIFETIME_LONG_TERM
    \<and> ms_realtime_memory st = lifetime_bytes (live t) MEM_LIFETIME_REALTIME
    \<and> ms_random_memory st = lifetime_bytes (live t) MEM_LIFETIME_RANDOM
    \<and> ms_used_memory st + ms_free_memory st = MB 958"
proof -
  obtain fl where ok: "tmm_ok (pools_at start) t fl" using run_inv [OF assms] .
  have "ms_total_memory (tm_stats t) = MB 958" using good_run [OF assms] by (simp add: good_def MB_def)
  then show ?thesis using tmm_okD(5) [OF ok] unfolding mstats_ok_def tensor_mm_stats_def by auto
qed

section \<open>Witnesses\<close>

text \<open>A run with the pools at 2 MiB: initialise, then allocate a DMA page.\<close>

lemma run_example:
  "\<exists>t ta t'. tmm_run 0x200000 t \<and> live t = [] \<and> unat (tm_next t) \<le> 11
     \<and> tensor_alloc_aligned_profiled PAGE_SIZE 4096 MEM_REGION_DMA MEM_LIFETIME_REALTIME True False True t
         = Some (AIOS_OK, Some ta, t') \<and> tm_next t' < MAX_BLOCKS"
proof -
  have start: "(0x200000 :: u64) \<le> USER_BASE" by simp
  let ?p = "unat (ALIGN_UP 0x200000 HUGE_PAGE_SIZE)"
  have al: "?p \<le> 67108864" "2 ^ 21 dvd ?p" using pool_start_aligned [OF start] by (simp_all add: word_le_nat_alt)
  from init_ok [OF start] obtain t fl where t: "tensor_mm_init 0x200000 tmm_boot = Some (AIOS_OK, t)"
    "tmm_inv (pools_at 0x200000) t fl" "live t = []" "unat (tm_next t) \<le> 11"
    by (auto simp: pools_at_def)
  have cnt: "tm_count t < MAX_TENSORS" "tm_next t < MAX_BLOCKS" using t(3,4) by (simp_all add: live_def word_less_nat_alt)
  have r: "pools_at 0x200000 MEM_REGION_DMA = {?p + 939524096..<?p + 1006632960}" by (simp add: pools_at_def managed_def)
  have "2 ^ 12 dvd ?p + 939524096" using al(2) by (intro dvd_add) (auto elim: dvd_trans [rotated])
  then obtain d t1 where d: "tensor_alloc_aligned PAGE_SIZE 4096 MEM_REGION_DMA True t = Some (AIOS_OK, Some d, t1)"
    using page_available [OF t(2) _ r _ _ _ _ _ cnt] al(1) t(3) by auto
  have l: "default_lifetime_for_region MEM_REGION_DMA = MEM_LIFETIME_REALTIME" by (simp add: default_lifetime_for_region_def)
  note call = d [unfolded tensor_alloc_aligned_def l Let_def, simplified]
  have "tm_next t1 < MAX_BLOCKS" using alloc_next [OF call] t(4) by (simp add: word_less_nat_alt)
  then show ?thesis using tmm_run.init [OF t(1)] t(3,4) call by blast
qed

text \<open>The state after that allocation: one live tensor with one reference.\<close>

lemma live_example:
  "\<exists>t ta. tmm_run 0x200000 t \<and> tensors_ok t \<and> live t = [ta] \<and> ta_ref_count ta = 1 \<and> ta_id ta \<noteq> 0 \<and> tm_next t < MAX_BLOCKS"
proof -
  obtain t ta t' where r: "tmm_run 0x200000 t" "live t = []"
    and c: "tensor_alloc_aligned_profiled PAGE_SIZE 4096 MEM_REGION_DMA MEM_LIFETIME_REALTIME True False True t = Some (AIOS_OK, Some ta, t')"
    and n: "tm_next t' < MAX_BLOCKS" using run_example by blast
  have r': "tmm_run 0x200000 t'"
    by (rule tmm_run.step [OF r(1), of "Tensor_Alloc_Aligned_Profiled PAGE_SIZE 4096 MEM_REGION_DMA MEM_LIFETIME_REALTIME True False True"])
      (simp add: c)
  have start: "(0x200000 :: u64) \<le> USER_BASE" by simp
  from alloc_outcome [OF r(1) start c] obtain fl fl' where inv: "tmm_inv (pools_at 0x200000) t fl" "tmm_inv (pools_at 0x200000) t' fl'"
    and ent: "entered t MEM_REGION_DMA MEM_LIFETIME_REALTIME ta t'" by blast
  have ok: "tensors_ok t" "tensors_ok t'" using inv tmm_okD(3) by (auto simp: tmm_inv_def)
  have "ta_id ta \<noteq> 0" using ent ok(1) by (auto simp: entered_def tensors_ok_def)
  moreover have "live t' = [ta]" "ta_ref_count ta = 1" using ent r(2) by (simp_all add: entered_def)
  ultimately show ?thesis using r' ok(2) n by blast
qed

theorem tensor_alloc_memory_safe_witness:
  "\<exists>t ta t'. tmm_run 0x200000 t
     \<and> tensor_alloc_aligned_profiled PAGE_SIZE 4096 MEM_REGION_DMA MEM_LIFETIME_REALTIME True False True t
         = Some (AIOS_OK, Some ta, t')
     \<and> span ta \<subseteq> pools_at 0x200000 MEM_REGION_DMA \<and> 4096 dvd unat (ta_phys_addr ta) \<and> 4096 \<le> unat (ta_size ta)"
proof -
  obtain t ta t' where r: "tmm_run 0x200000 t"
    and c: "tensor_alloc_aligned_profiled PAGE_SIZE 4096 MEM_REGION_DMA MEM_LIFETIME_REALTIME True False True t = Some (AIOS_OK, Some ta, t')"
    using run_example by blast
  show ?thesis using r c tensor_alloc_memory_safe [OF r _ c] by (auto simp: eff_align_def)
qed

theorem tensor_alloc_best_fit_witness:
  "\<exists>t xs st out t'. tmm_run 0x200000 t \<and> free_list_of t MEM_REGION_DMA xs
     \<and> tensor_alloc_aligned_profiled PAGE_SIZE 4096 MEM_REGION_DMA MEM_LIFETIME_REALTIME True False True t = Some (st, out, t')
     \<and> st = AIOS_OK \<and> (\<exists>ta. out = Some ta \<and> placed t xs PAGE_SIZE 4096 ta)"
proof -
  obtain t ta t' where r: "tmm_run 0x200000 t"
    and c: "tensor_alloc_aligned_profiled PAGE_SIZE 4096 MEM_REGION_DMA MEM_LIFETIME_REALTIME True False True t = Some (AIOS_OK, Some ta, t')"
    using run_example by blast
  obtain fl where "tmm_ok (pools_at 0x200000) t fl" using run_inv [OF r] by auto
  then have xs: "free_list_of t MEM_REGION_DMA (fl MEM_REGION_DMA)" by (rule free_list_ofI)
  have "eff_align 4096 = 4096" "ALIGN_UP_u32 PAGE_SIZE 4096 = PAGE_SIZE" by (simp_all add: eff_align_def ALIGN_UP_u32_def)
  then show ?thesis
    using r c xs tensor_alloc_best_fit [OF r _ xs, of PAGE_SIZE 4096 MEM_LIFETIME_REALTIME True False True] by auto
qed

theorem tensor_free_outcome_witness:
  "\<exists>t ta t'. tmm_run 0x200000 t \<and> live t = [ta] \<and> tensor_free (ta_id ta) t = Some (AIOS_OK, t') \<and> live t' = []
     \<and> tensor_free (ta_id ta + 1) t = Some (AIOS_ERR_INVAL, t)"
proof -
  obtain t ta where r: "tmm_run 0x200000 t" "live t = [ta]" "ta_ref_count ta = 1" "tm_next t < MAX_BLOCKS" using live_example by blast
  obtain i where i: "find_tensor (ta_id ta) t = Some i" using r(2) find_tensor_spec(1) [of "ta_id ta" t] by auto
  then have "tm_table t i = ta" using find_tensor_spec(2) [OF i] r(2) by simp
  then obtain t' where t': "tensor_free (ta_id ta) t = Some (AIOS_OK, t')" "mset (live t) = add_mset ta (mset (live t'))"
    using tensor_free_outcome [OF r(1), where tid = "ta_id ta"] i r(3,4) by (auto simp: not_le [symmetric])
  have "find_tensor (ta_id ta + 1) t = None" using r(2) find_tensor_spec(1) [of "ta_id ta + 1" t] by simp
  then have "tensor_free (ta_id ta + 1) t = Some (AIOS_ERR_INVAL, t)"
    using tensor_free_outcome [OF r(1), where tid = "ta_id ta + 1"] by simp
  then show ?thesis using r(1,2) t' by auto
qed

theorem tensor_alloc_free_roundtrip_witness:
  "\<exists>t ta t' t''. tmm_run 0x200000 t
     \<and> tensor_alloc_aligned_profiled PAGE_SIZE 4096 MEM_REGION_DMA MEM_LIFETIME_REALTIME True False True t
         = Some (AIOS_OK, Some ta, t')
     \<and> tensor_free (ta_id ta) t' = Some (AIOS_OK, t'') \<and> live t'' = []"
proof -
  obtain t ta t' where r: "tmm_run 0x200000 t" "live t = []"
    and c: "tensor_alloc_aligned_profiled PAGE_SIZE 4096 MEM_REGION_DMA MEM_LIFETIME_REALTIME True False True t = Some (AIOS_OK, Some ta, t')"
    and n: "tm_next t' < MAX_BLOCKS" using run_example by blast
  show ?thesis using r c tensor_alloc_free_roundtrip [OF r(1) _ c n] by auto
qed

theorem tensor_mm_init_succeeds_witness:
  "\<exists>t. tensor_mm_init 0x200000 tmm_boot = Some (AIOS_OK, t) \<and> live t = []"
  using tensor_mm_init_succeeds [of "0x200000"] by auto

theorem user_window_never_managed_witness:
  "\<exists>t. tmm_run 0x200000 t \<and> tensor_mm_bootstrap_user_range_excluded t = Some True"
proof -
  obtain t where r: "tmm_run 0x200000 t" using run_example by blast
  show ?thesis using r user_window_never_managed [OF r] by auto
qed

theorem free_lists_coalesced_witness:
  "\<exists>t xs. tmm_run 0x200000 t \<and> free_list_of t MEM_REGION_MODEL xs \<and> free_span t xs = pools_at 0x200000 MEM_REGION_MODEL"
proof -
  obtain t where r: "tmm_run 0x200000 t" "live t = []" using run_example by blast
  show ?thesis using r free_lists_coalesced [OF r(1), of MEM_REGION_MODEL] by auto
qed

theorem tensor_ids_bounded_witness:
  "\<exists>t. tmm_run 0x200000 t \<and> unat (tm_next_id t) \<le> 4097"
proof -
  obtain t where r: "tmm_run 0x200000 t" using run_example by blast
  show ?thesis using r tensor_ids_bounded [OF r] by auto
qed

theorem model_free_releases_models_witness:
  "\<exists>t t'. tmm_run 0x200000 t \<and> model_free 0 t = Some (AIOS_OK, t') \<and> models t' = {#}"
proof -
  obtain t where r: "tmm_run 0x200000 t" "live t = []" "unat (tm_next t) \<le> 11" using run_example by blast
  then have "size (models t) + unat (tm_next t) \<le> 4096" by (simp add: models_def)
  with r(1) model_free_releases_models [OF r(1), where model_id = 0] show ?thesis by auto
qed

theorem model_free_can_hang_witness:
  "\<exists>t. tmm_run 0x200000 t \<and> model_free 0 t = None"
  using model_free_can_hang [of "0x200000", where model_id = 0] by auto

theorem kv_cache_alloc_never_succeeds_witness:
  "\<exists>t st. tmm_run 0x200000 t \<and> st \<noteq> AIOS_OK \<and> kv_cache_alloc 32 32 128 2048 DTYPE_FP16 True t = Some (st, None, t)"
proof -
  obtain t where r: "tmm_run 0x200000 t" using run_example by blast
  show ?thesis using r kv_cache_alloc_never_succeeds [OF r, of 32 32 128 2048 DTYPE_FP16 True] by auto
qed

theorem tensor_alloc_truncates_size_witness:
  "\<exists>t ta t'. tmm_run 0x200000 t
     \<and> tensor_alloc_aligned_profiled (PAGE_SIZE + 0x100000000) (2 ^ 12) MEM_REGION_DMA MEM_LIFETIME_REALTIME True False True t
         = Some (AIOS_OK, Some ta, t') \<and> unat (ta_size ta) < 2 ^ 32 + 4096"
proof -
  obtain t ta t' where r: "tmm_run 0x200000 t"
    and c: "tensor_alloc_aligned_profiled PAGE_SIZE 4096 MEM_REGION_DMA MEM_LIFETIME_REALTIME True False True t = Some (AIOS_OK, Some ta, t')"
    using run_example by blast
  note th = tensor_alloc_truncates_size [OF r, of PAGE_SIZE 12 MEM_REGION_DMA MEM_LIFETIME_REALTIME True False True]
  have "tensor_alloc_aligned_profiled (PAGE_SIZE + 0x100000000) (2 ^ 12) MEM_REGION_DMA MEM_LIFETIME_REALTIME True False True t
      = Some (AIOS_OK, Some ta, t')" using th c by simp
  moreover from this have "unat (ta_size ta) < 2 ^ 32 + 4096" using th by simp
  ultimately show ?thesis using r by blast
qed

theorem tensor_stats_meaning_witness:
  "\<exists>t. tmm_run 0x200000 t \<and> (\<exists>st. tensor_mm_stats True t = Some st
     \<and> ms_used_memory st = 0 \<and> ms_free_memory st = MB 958)"
proof -
  obtain t where r: "tmm_run 0x200000 t" "live t = []" using run_example by blast
  show ?thesis using r tensor_stats_meaning [OF r(1)] by auto
qed

end
