(* ===== verification/Memory_Fabric.thy ===== *)
theory Memory_Fabric
  imports Tensor_MM
begin

text \<open>
  The memory fabric of \<^verbatim>\<open>kernel/mm/memory_fabric.c\<close>: memory domains, shared windows on
  tensors, and the pressure snapshot.  The first \<^verbatim>\<open>g_domain_count\<close> entries of
  \<^verbatim>\<open>g_domains\<close> and the first \<^verbatim>\<open>g_window_count\<close> entries of \<^verbatim>\<open>g_windows\<close> are lists;
  the rest of either array is never read.  Every operation takes the fabric lock once and
  releases it on each of its paths, so it is one atomic step here.  The monotonic clock and
  the hardware summaries of other drivers are arguments.  Operations that take or drop
  tensor references act on the state of the tensor memory manager as well.
\<close>

section \<open>Data\<close>

abbreviation MEMORY_FABRIC_MAX_DOMAINS :: nat where "MEMORY_FABRIC_MAX_DOMAINS \<equiv> 16"
abbreviation MEMORY_FABRIC_MAX_WINDOWS :: nat where "MEMORY_FABRIC_MAX_WINDOWS \<equiv> 64"

abbreviation TOPOLOGY_UNIFORM :: u32 where "TOPOLOGY_UNIFORM \<equiv> 0"
abbreviation TOPOLOGY_SEGMENTED :: u32 where "TOPOLOGY_SEGMENTED \<equiv> 1"
abbreviation TOPOLOGY_NUMA_HINTED :: u32 where "TOPOLOGY_NUMA_HINTED \<equiv> 2"
abbreviation TOPOLOGY_FABRIC_EXPANDABLE :: u32 where "TOPOLOGY_FABRIC_EXPANDABLE \<equiv> 3"

abbreviation DOMAIN_ROLE_NONE :: u32 where "DOMAIN_ROLE_NONE \<equiv> 0"
abbreviation DOMAIN_ROLE_MAIN :: u32 where "DOMAIN_ROLE_MAIN \<equiv> 1"
abbreviation DOMAIN_ROLE_WORKER :: u32 where "DOMAIN_ROLE_WORKER \<equiv> 2"
abbreviation DOMAIN_ROLE_MEMORY :: u32 where "DOMAIN_ROLE_MEMORY \<equiv> 3"
abbreviation DOMAIN_ROLE_DEVICE :: u32 where "DOMAIN_ROLE_DEVICE \<equiv> 4"

abbreviation BOOT_PERF_TIER_MID :: u32 where "BOOT_PERF_TIER_MID \<equiv> 1"
abbreviation BOOT_PERF_TIER_HIGH :: u32 where "BOOT_PERF_TIER_HIGH \<equiv> 2"

record fabric_profile =
  fp_acpi_ready :: bool
  fp_ecam_available :: bool
  fp_invariant_tsc :: bool
  fp_pcie_present :: bool
  fp_numa_hint_ready :: bool
  fp_fabric_expandable :: bool
  fp_zero_copy_preferred :: bool
  fp_topology :: u32
  fp_compatibility_score :: u8
  fp_locality_score :: u8
  fp_agent_slots :: u16
  fp_worker_queue_depth :: u16
  fp_hotset_kib :: u32
  fp_staging_kib :: u32
  fp_zero_copy_window_kib :: u32
  fp_shared_window_cap :: u32

record memory_domain =
  md_domain_id :: u32
  md_role :: u32
  md_active :: bool
  md_realtime :: bool
  md_zero_copy_preferred :: bool
  md_priority :: u8
  md_max_inflight_ops :: u16
  md_local_budget_kib :: u32
  md_attached_windows :: u16
  md_last_activity_ns :: u64

record shared_window =
  sw_window_id :: u32
  sw_tensor_id :: u32
  sw_owner_domain_id :: u32
  sw_region :: u32
  sw_access :: u32
  sw_size_bytes :: u64
  sw_reader_mask :: u32
  sw_writer_mask :: u32
  sw_pinned :: bool
  sw_dma_capable :: bool
  sw_active :: bool
  sw_map_count :: u16
  sw_last_access_ns :: u64

record pressure_snapshot =
  ps_active_domains :: u32
  ps_active_windows :: u32
  ps_shared_windows :: u32
  ps_participant_links :: u32
  ps_writer_links :: u32
  ps_writer_pairs :: u32
  ps_read_write_pairs :: u32
  ps_max_fanout :: u32
  ps_total_budget_bytes :: u64
  ps_shared_bytes :: u64
  ps_weighted_shared_bytes :: u64

record fabric =
  fb_profile :: fabric_profile
  fb_domains :: "memory_domain list"
  fb_windows :: "shared_window list"
  fb_next_domain_id :: u32
  fb_next_window_id :: u32

text \<open>What the profile reads from the ACPI, PCI, platform, time and self-test components.\<close>

record fabric_env =
  fe_acpi_ready :: bool
  fe_xsdt_present :: bool
  fe_mcfg_present :: bool
  fe_ecam_available :: bool
  fe_pcie_functions :: u32
  fe_bridges :: u32
  fe_total_functions :: u32
  fe_matched_devices :: u32
  fe_invariant_tsc :: bool
  fe_tier :: u32
  fe_devices :: "(bool \<times> u32) option list"

definition zero_window :: shared_window where
  "zero_window = \<lparr>sw_window_id = 0, sw_tensor_id = 0, sw_owner_domain_id = 0, sw_region = 0,
     sw_access = 0, sw_size_bytes = 0, sw_reader_mask = 0, sw_writer_mask = 0, sw_pinned = False,
     sw_dma_capable = False, sw_active = False, sw_map_count = 0, sw_last_access_ns = 0\<rparr>"

definition zero_snapshot :: pressure_snapshot where
  "zero_snapshot = \<lparr>ps_active_domains = 0, ps_active_windows = 0, ps_shared_windows = 0,
     ps_participant_links = 0, ps_writer_links = 0, ps_writer_pairs = 0, ps_read_write_pairs = 0,
     ps_max_fanout = 0, ps_total_budget_bytes = 0, ps_shared_bytes = 0, ps_weighted_shared_bytes = 0\<rparr>"

section \<open>Helpers\<close>

text \<open>The loop of \<^verbatim>\<open>popcount32\<close>: clear the lowest set bit until none is left.\<close>

function popcount32_from :: "u32 \<Rightarrow> u32 \<Rightarrow> u32" where
  "popcount32_from value count =
     (if value \<noteq> 0 then popcount32_from (value AND (value - 1)) (count + 1) else count)"
  by pat_completeness auto
termination
proof (relation "measure (\<lambda>(value, count). unat value)", goal_cases)
  case (2 v count)
  have "unat (v AND (v - 1)) \<le> unat (v - 1)"
    by (metis and.commute word_and_le1 word_le_nat_alt)
  also have "unat (v - 1) < unat v"
    using 2 by (simp add: unat_minus_one unat_gt_0)
  finally show ?case by simp
qed simp

declare popcount32_from.simps [simp del]

definition popcount32 :: "u32 \<Rightarrow> u32" where
  "popcount32 value = popcount32_from value 0"

definition sat_add_u64 :: "u64 \<Rightarrow> u64 \<Rightarrow> u64" where
  "sat_add_u64 left right = (if UINT64_MAX - right < left then UINT64_MAX else left + right)"

definition sat_mul_u64_u32 :: "u64 \<Rightarrow> u32 \<Rightarrow> u64" where
  "sat_mul_u64_u32 value factor =
     (if factor \<noteq> 0 \<and> UINT64_MAX div ucast factor < value then UINT64_MAX else value * ucast factor)"

definition accumulate_pressure_window :: "shared_window \<Rightarrow> pressure_snapshot \<Rightarrow> pressure_snapshot" where
  "accumulate_pressure_window window out =
     (if \<not> sw_active window then out
      else
        let participants = popcount32 (sw_reader_mask window OR sw_writer_mask window);
            writers = popcount32 (sw_writer_mask window);
            readers_only = popcount32 (sw_reader_mask window AND NOT (sw_writer_mask window));
            out1 = out\<lparr>ps_active_windows := ps_active_windows out + 1,
                      ps_participant_links := ps_participant_links out + participants,
                      ps_writer_links := ps_writer_links out + writers\<rparr>;
            out2 = (if ps_max_fanout out1 < participants then out1\<lparr>ps_max_fanout := participants\<rparr> else out1);
            out3 = (if 1 < participants then
                      out2\<lparr>ps_shared_windows := ps_shared_windows out2 + 1,
                           ps_shared_bytes := sat_add_u64 (ps_shared_bytes out2) (sw_size_bytes window),
                           ps_weighted_shared_bytes := sat_add_u64 (ps_weighted_shared_bytes out2)
                             (sat_mul_u64_u32 (sw_size_bytes window) participants)\<rparr>
                    else out2);
            out4 = (if 1 < writers then
                      out3\<lparr>ps_writer_pairs := ps_writer_pairs out3 + (writers * (writers - 1)) div 2\<rparr>
                    else out3)
        in out4\<lparr>ps_read_write_pairs := ps_read_write_pairs out4 + writers * readers_only\<rparr>)"

definition clamp_u8_value :: "int \<Rightarrow> u8 \<Rightarrow> u8 \<Rightarrow> u8" where
  "clamp_u8_value value min_value max_value =
     (if value < uint min_value then min_value
      else if uint max_value < value then max_value else word_of_int value)"

definition clamp_u16_value :: "int \<Rightarrow> u16 \<Rightarrow> u16 \<Rightarrow> u16" where
  "clamp_u16_value value min_value max_value =
     (if value < uint min_value then min_value
      else if uint max_value < value then max_value else word_of_int value)"

definition clamp_u32_value :: "int \<Rightarrow> u32 \<Rightarrow> u32 \<Rightarrow> u32" where
  "clamp_u32_value value min_value max_value =
     (if value < uint min_value then min_value
      else if uint max_value < value then max_value else word_of_int value)"

definition domain_bit :: "u32 \<Rightarrow> u32" where
  "domain_bit domain_id =
     (if domain_id = 0 \<or> 32 < domain_id then 0 else push_bit (unat (domain_id - 1)) 1)"

definition find_domain_locked :: "u32 \<Rightarrow> fabric \<Rightarrow> nat option" where
  "find_domain_locked domain_id f =
     find (\<lambda>i. md_active (fb_domains f ! i) \<and> md_domain_id (fb_domains f ! i) = domain_id)
       [0..<length (fb_domains f)]"

definition find_window_locked :: "u32 \<Rightarrow> fabric \<Rightarrow> nat option" where
  "find_window_locked window_id f =
     find (\<lambda>i. sw_active (fb_windows f ! i) \<and> sw_window_id (fb_windows f ! i) = window_id)
       [0..<length (fb_windows f)]"

text \<open>The slot for a new window, and the fabric in which it exists.\<close>

definition alloc_window_slot_locked :: "fabric \<Rightarrow> (nat \<times> fabric) option" where
  "alloc_window_slot_locked f =
     (case find (\<lambda>i. \<not> sw_active (fb_windows f ! i)) [0..<length (fb_windows f)] of
        Some i \<Rightarrow> Some (i, f)
      | None \<Rightarrow>
          if MEMORY_FABRIC_MAX_WINDOWS \<le> length (fb_windows f) then None
          else Some (length (fb_windows f), f\<lparr>fb_windows := fb_windows f @ [zero_window]\<rparr>))"

definition count_active_pcie_io_devices :: "(bool \<times> u32) option list \<Rightarrow> u8" where
  "count_active_pcie_io_devices devs =
     fold (\<lambda>dev count.
        case dev of
          None \<Rightarrow> count
        | Some (pcie_capable, kind) \<Rightarrow>
            if \<not> pcie_capable then count
            else if kind = 1 \<or> kind = 4 \<or> kind = 5 \<or> kind = 2 \<or> kind = 3 then count + 1
            else count) devs 0"

section \<open>The profile\<close>

definition profile_scores :: "fabric_env \<Rightarrow> u8 \<Rightarrow> int \<times> int" where
  "profile_scores e io_pcie =
     (let compatibility = 35; locality = 40;
          compatibility = (if fe_acpi_ready e then compatibility + 20 else compatibility);
          compatibility = (if fe_xsdt_present e then compatibility + 10 else compatibility);
          compatibility = (if fe_mcfg_present e then compatibility + 10 else compatibility);
          compatibility = (if fe_ecam_available e then compatibility + 10 else compatibility);
          (compatibility, locality) = (if fe_invariant_tsc e then (compatibility + 5, locality + 10)
                                       else (compatibility, locality));
          locality = (if 0 < io_pcie then locality + 10 else locality);
          locality = (if fe_tier e = BOOT_PERF_TIER_HIGH then locality + 20
                      else if fe_tier e = BOOT_PERF_TIER_MID then locality + 10 else locality - 5);
          compatibility = (if \<not> fe_ecam_available e \<and> 4 < fe_total_functions e
                           then compatibility - 10 else compatibility)
      in (compatibility, locality))"

text \<open>Agent slots, queue depth, hot set, staging and zero-copy window of a performance tier.\<close>

definition tier_plan :: "u32 \<Rightarrow> u8 \<Rightarrow> u16 \<times> u16 \<times> u32 \<times> u32 \<times> u32" where
  "tier_plan tier io_pcie =
     (if tier = BOOT_PERF_TIER_HIGH then (12, 16, 8192, if io_pcie \<noteq> 0 then 2048 else 1024, 2048)
      else if tier = BOOT_PERF_TIER_MID then (8, 8, 4096, if io_pcie \<noteq> 0 then 1024 else 512, 1024)
      else (4, 4, 1024, if io_pcie \<noteq> 0 then 512 else 256, 256))"

definition compute_profile :: "fabric_env \<Rightarrow> fabric_profile" where
  "compute_profile e =
     (let io_pcie = count_active_pcie_io_devices (fe_devices e);
          pcie_present = (0 < fe_pcie_functions e);
          numa_hint_ready = False;
          fabric_expandable = False;
          topology = (if pcie_present \<or> 0 < fe_matched_devices e \<or> 0 < fe_bridges e
                      then TOPOLOGY_SEGMENTED else TOPOLOGY_UNIFORM);
          topology = (if numa_hint_ready then TOPOLOGY_NUMA_HINTED else topology);
          topology = (if fabric_expandable then TOPOLOGY_FABRIC_EXPANDABLE else topology);
          (compatibility, locality) = profile_scores e io_pcie;
          compatibility_score = clamp_u8_value compatibility 0 100;
          locality_score = clamp_u8_value locality 0 100;
          (slots, depth, hotset, staging, zero_copy) = tier_plan (fe_tier e) io_pcie;
          staging = (if \<not> fe_ecam_available e \<and> 0 < io_pcie
                     then clamp_u32_value (uint staging + 256) 256 4096 else staging)
      in \<lparr>fp_acpi_ready = fe_acpi_ready e, fp_ecam_available = fe_ecam_available e,
          fp_invariant_tsc = fe_invariant_tsc e, fp_pcie_present = pcie_present,
          fp_numa_hint_ready = numa_hint_ready, fp_fabric_expandable = fabric_expandable,
          fp_zero_copy_preferred = (55 \<le> locality_score \<and> 55 \<le> compatibility_score),
          fp_topology = topology, fp_compatibility_score = compatibility_score,
          fp_locality_score = locality_score, fp_agent_slots = slots, fp_worker_queue_depth = depth,
          fp_hotset_kib = hotset, fp_staging_kib = staging, fp_zero_copy_window_kib = zero_copy,
          fp_shared_window_cap = 64\<rparr>)"

section \<open>Domains\<close>

definition domain_open_internal ::
  "u64 \<Rightarrow> u32 \<Rightarrow> u8 \<Rightarrow> bool \<Rightarrow> bool \<Rightarrow> u32 \<Rightarrow> bool \<Rightarrow> fabric \<Rightarrow> aios_status \<times> u32 option \<times> fabric" where
  "domain_open_internal now role priority realtime zero_copy_preferred budget_kib has_out f =
     (if MEMORY_FABRIC_MAX_DOMAINS \<le> length (fb_domains f) then (AIOS_ERR_BUSY, None, f)
      else
        let slot = \<lparr>md_domain_id = fb_next_domain_id f, md_role = role, md_active = True,
              md_realtime = realtime, md_zero_copy_preferred = zero_copy_preferred, md_priority = priority,
              md_max_inflight_ops = clamp_u16_value
                (uint (fp_worker_queue_depth (fb_profile f)) + (if role = DOMAIN_ROLE_MAIN then 4 else 0)
                  + (if realtime then 4 else 0)) 2 64,
              md_local_budget_kib = budget_kib, md_attached_windows = 0, md_last_activity_ns = now\<rparr>
        in (AIOS_OK, if has_out then Some (md_domain_id slot) else None,
            f\<lparr>fb_domains := fb_domains f @ [slot], fb_next_domain_id := fb_next_domain_id f + 1\<rparr>))"

text \<open>The default domains; \<open>open_workers\<close> is the loop over the worker domains.\<close>

primrec open_workers :: "u64 \<Rightarrow> nat \<Rightarrow> nat \<Rightarrow> u32 \<Rightarrow> fabric \<Rightarrow> fabric" where
  "open_workers now 0 i workers f = f"
| "open_workers now (Suc n) i workers f =
     (let worker_budget = max 512 (fp_hotset_kib (fb_profile f) div (workers + 1));
          (_, _, f1) = domain_open_internal now DOMAIN_ROLE_WORKER (64 + of_nat i * 8) False
             (fp_zero_copy_preferred (fb_profile f)) worker_budget True f
      in open_workers now n (Suc i) workers f1)"

definition seed_default_domains :: "u64 \<Rightarrow> fabric \<Rightarrow> fabric" where
  "seed_default_domains now f =
     (let p = fb_profile f;
          main_budget = max 1024 (fp_hotset_kib p div 2);
          memory_budget = max 1024 (fp_hotset_kib p div 2);
          device_budget = max 512 (fp_staging_kib p);
          f0 = f\<lparr>fb_domains := [], fb_next_domain_id := 1\<rparr>;
          (_, _, f1) = domain_open_internal now DOMAIN_ROLE_MAIN 0 True (fp_zero_copy_preferred p) main_budget True f0;
          (_, _, f2) = domain_open_internal now DOMAIN_ROLE_MEMORY 24 False True memory_budget True f1;
          (_, _, f3) = domain_open_internal now DOMAIN_ROLE_DEVICE 32 False (fp_pcie_present p) device_budget True f2;
          workers = (if 3 < fp_agent_slots p then ucast (fp_agent_slots p) - 3 else 1) :: u32;
          workers = (if 4 < workers then 4 else workers)
      in open_workers now (unat workers) 0 workers f3)"

definition account_domain :: "u32 \<Rightarrow> int \<Rightarrow> memory_domain \<Rightarrow> memory_domain" where
  "account_domain domain_mask delta d =
     (if domain_mask AND domain_bit (md_domain_id d) = 0 then d
      else if 0 < delta then
        d\<lparr>md_attached_windows := clamp_u16_value (uint (md_attached_windows d) + delta) 0 0xFFFF\<rparr>
      else if 0 < md_attached_windows d then d\<lparr>md_attached_windows := md_attached_windows d - 1\<rparr>
      else d)"

definition update_window_accounting_locked :: "u32 \<Rightarrow> int \<Rightarrow> fabric \<Rightarrow> fabric" where
  "update_window_accounting_locked domain_mask delta f =
     f\<lparr>fb_domains := map (account_domain domain_mask delta) (fb_domains f)\<rparr>"

definition memory_fabric_init :: "u64 \<Rightarrow> fabric_env \<Rightarrow> fabric \<Rightarrow> aios_status \<times> fabric" where
  "memory_fabric_init now e f =
     (AIOS_OK, seed_default_domains now
        (f\<lparr>fb_domains := [], fb_windows := [], fb_next_window_id := 1, fb_profile := compute_profile e\<rparr>))"

definition memory_fabric_profile :: "fabric \<Rightarrow> fabric_profile" where
  "memory_fabric_profile f = fb_profile f"

definition memory_fabric_domain_count :: "fabric \<Rightarrow> u32" where
  "memory_fabric_domain_count f = of_nat (length (fb_domains f))"

definition memory_fabric_window_count :: "fabric \<Rightarrow> u32" where
  "memory_fabric_window_count f = fold (\<lambda>w count. if sw_active w then count + 1 else count) (fb_windows f) 0"

definition memory_fabric_pressure_read :: "bool \<Rightarrow> fabric \<Rightarrow> aios_status \<times> pressure_snapshot option" where
  "memory_fabric_pressure_read has_out f =
     (if \<not> has_out then (AIOS_ERR_INVAL, None)
      else
        let out1 = fold (\<lambda>d out. if \<not> md_active d then out
              else out\<lparr>ps_active_domains := ps_active_domains out + 1,
                       ps_total_budget_bytes := sat_add_u64 (ps_total_budget_bytes out)
                         (ucast (md_local_budget_kib d) * KB 1)\<rparr>) (fb_domains f) zero_snapshot
        in (AIOS_OK, Some (fold accumulate_pressure_window (fb_windows f) out1)))"

definition memory_fabric_pressure_selftest :: aios_status where
  "memory_fabric_pressure_selftest =
     (let window = zero_window\<lparr>sw_active := True, sw_size_bytes := PAGE_SIZE,
            sw_reader_mask := 1 OR 2 OR 4, sw_writer_mask := 1 OR 2\<rparr>;
          snapshot = accumulate_pressure_window window zero_snapshot
      in if ps_active_windows snapshot \<noteq> 1 \<or> ps_shared_windows snapshot \<noteq> 1
            \<or> ps_participant_links snapshot \<noteq> 3 \<or> ps_writer_links snapshot \<noteq> 2
            \<or> ps_writer_pairs snapshot \<noteq> 1 \<or> ps_read_write_pairs snapshot \<noteq> 2
            \<or> ps_max_fanout snapshot \<noteq> 3 \<or> ps_shared_bytes snapshot \<noteq> PAGE_SIZE
            \<or> ps_weighted_shared_bytes snapshot \<noteq> PAGE_SIZE * 3
         then AIOS_ERR_IO else AIOS_OK)"

definition memory_fabric_domain_open ::
  "u64 \<Rightarrow> u32 \<Rightarrow> u8 \<Rightarrow> bool \<Rightarrow> bool \<Rightarrow> u32 \<Rightarrow> bool \<Rightarrow> fabric \<Rightarrow> aios_status \<times> u32 option \<times> fabric" where
  "memory_fabric_domain_open now role priority realtime zero_copy_preferred budget_kib has_out f =
     domain_open_internal now role priority realtime zero_copy_preferred budget_kib has_out f"

definition memory_fabric_domain_get :: "u32 \<Rightarrow> bool \<Rightarrow> fabric \<Rightarrow> aios_status \<times> memory_domain option" where
  "memory_fabric_domain_get domain_id has_out f =
     (if \<not> has_out then (AIOS_ERR_INVAL, None)
      else case find_domain_locked domain_id f of
        None \<Rightarrow> (AIOS_ERR_INVAL, None)
      | Some i \<Rightarrow> (AIOS_OK, Some (fb_domains f ! i)))"

section \<open>Windows\<close>

definition touch_domain :: "nat \<Rightarrow> u64 \<Rightarrow> fabric \<Rightarrow> fabric" where
  "touch_domain i now f = f\<lparr>fb_domains := (fb_domains f)[i := (fb_domains f ! i)\<lparr>md_last_activity_ns := now\<rparr>]\<rparr>"

text \<open>The window a share call fills in.\<close>

definition new_window :: "u64 \<Rightarrow> u32 \<Rightarrow> u32 \<Rightarrow> u32 \<Rightarrow> u32 \<Rightarrow> u32 \<Rightarrow> u32 \<Rightarrow> tensor_desc \<Rightarrow> shared_window" where
  "new_window now window_id owner_domain_id tid reader_mask writer_mask access tensor =
     (let owner_bit = domain_bit owner_domain_id in
      zero_window\<lparr>sw_window_id := window_id, sw_tensor_id := tid, sw_owner_domain_id := owner_domain_id,
        sw_region := ta_region tensor, sw_access := access, sw_size_bytes := ta_size tensor,
        sw_reader_mask := reader_mask OR owner_bit OR writer_mask,
        sw_writer_mask := writer_mask OR owner_bit, sw_pinned := ta_pinned tensor,
        sw_dma_capable := ta_dma_capable tensor, sw_active := True, sw_map_count := 1,
        sw_last_access_ns := now\<rparr>)"

definition memory_fabric_window_share ::
  "u64 \<Rightarrow> u32 \<Rightarrow> u32 \<Rightarrow> u32 \<Rightarrow> u32 \<Rightarrow> u32 \<Rightarrow> bool \<Rightarrow> fabric \<Rightarrow> tmm \<Rightarrow> (aios_status \<times> u32 option \<times> fabric \<times> tmm) option" where
  "memory_fabric_window_share now owner_domain_id tid reader_mask writer_mask access has_out f t =
     (if tid = 0 then Some (AIOS_ERR_INVAL, None, f, t)
      else case tensor_info tid True t of
        (st, None) \<Rightarrow> Some (st, None, f, t)
      | (st, Some tensor) \<Rightarrow>
          if st \<noteq> AIOS_OK then Some (st, None, f, t)
          else case tensor_ref tid t of (st1, t1) \<Rightarrow>
            if st1 \<noteq> AIOS_OK then Some (st1, None, f, t1)
            else case find_domain_locked owner_domain_id f of
              None \<Rightarrow> do { (_, t2) \<leftarrow> tensor_unref tid t1; Some (AIOS_ERR_INVAL, None, f, t2) }
            | Some owner \<Rightarrow>
                (case alloc_window_slot_locked f of
                   None \<Rightarrow> do { (_, t2) \<leftarrow> tensor_unref tid t1; Some (AIOS_ERR_BUSY, None, f, t2) }
                 | Some (i, f1) \<Rightarrow>
                     let window = new_window now (fb_next_window_id f1) owner_domain_id tid reader_mask writer_mask
                           access tensor;
                         f2 = f1\<lparr>fb_next_window_id := fb_next_window_id f1 + 1, fb_windows := (fb_windows f1)[i := window]\<rparr>;
                         share_mask = sw_reader_mask window OR sw_writer_mask window;
                         f3 = touch_domain owner (sw_last_access_ns window) (update_window_accounting_locked share_mask 1 f2)
                     in Some (AIOS_OK, if has_out then Some (sw_window_id window) else None, f3, t1)))"

definition memory_fabric_window_attach :: "u64 \<Rightarrow> u32 \<Rightarrow> u32 \<Rightarrow> bool \<Rightarrow> fabric \<Rightarrow> aios_status \<times> fabric" where
  "memory_fabric_window_attach now window_id domain_id write_access f =
     (let mask = domain_bit domain_id in
      if mask = 0 then (AIOS_ERR_INVAL, f)
      else case (find_window_locked window_id f, find_domain_locked domain_id f) of
        (Some w, Some d) \<Rightarrow>
          let window = fb_windows f ! w in
          if sw_reader_mask window AND mask = 0 then (AIOS_ERR_PERM, f)
          else if write_access \<and> sw_writer_mask window AND mask = 0 then (AIOS_ERR_PERM, f)
          else
            (AIOS_OK, touch_domain d now (f\<lparr>fb_windows := (fb_windows f)[w := window\<lparr>
               sw_map_count := clamp_u16_value (uint (sw_map_count window) + 1) 1 0xFFFF,
               sw_last_access_ns := now\<rparr>]\<rparr>))
      | _ \<Rightarrow> (AIOS_ERR_INVAL, f))"

definition memory_fabric_window_get :: "u32 \<Rightarrow> bool \<Rightarrow> fabric \<Rightarrow> aios_status \<times> shared_window option" where
  "memory_fabric_window_get window_id has_out f =
     (if \<not> has_out then (AIOS_ERR_INVAL, None)
      else case find_window_locked window_id f of
        None \<Rightarrow> (AIOS_ERR_INVAL, None)
      | Some i \<Rightarrow> (AIOS_OK, Some (fb_windows f ! i)))"

definition memory_fabric_window_release :: "u32 \<Rightarrow> fabric \<Rightarrow> tmm \<Rightarrow> (aios_status \<times> fabric \<times> tmm) option" where
  "memory_fabric_window_release window_id f t =
     (case find_window_locked window_id f of
        None \<Rightarrow> Some (AIOS_ERR_INVAL, f, t)
      | Some i \<Rightarrow>
          let window = fb_windows f ! i;
              share_mask = sw_reader_mask window OR sw_writer_mask window;
              f1 = update_window_accounting_locked share_mask (- 1) f;
              f2 = f1\<lparr>fb_windows := (fb_windows f1)[i := window\<lparr>sw_active := False, sw_reader_mask := 0,
                     sw_writer_mask := 0, sw_map_count := 0\<rparr>]\<rparr>
          in do { (st, t1) \<leftarrow> tensor_unref (sw_tensor_id window) t; Some (st, f2, t1) })"

definition memory_fabric_topology_name :: "u32 \<Rightarrow> string" where
  "memory_fabric_topology_name topology =
     (if topology = TOPOLOGY_UNIFORM then ''uniform''
      else if topology = TOPOLOGY_SEGMENTED then ''segmented''
      else if topology = TOPOLOGY_NUMA_HINTED then ''numa-hinted''
      else if topology = TOPOLOGY_FABRIC_EXPANDABLE then ''fabric-expandable''
      else ''unknown'')"

definition memory_domain_role_name :: "u32 \<Rightarrow> string" where
  "memory_domain_role_name role =
     (if role = DOMAIN_ROLE_MAIN then ''main''
      else if role = DOMAIN_ROLE_WORKER then ''worker''
      else if role = DOMAIN_ROLE_MEMORY then ''memory''
      else if role = DOMAIN_ROLE_DEVICE then ''device''
      else ''none'')"

definition memory_fabric_access_name :: "u32 \<Rightarrow> string" where
  "memory_fabric_access_name access =
     (if access = 0 then ''private'' else if access = 1 then ''shared-ro''
      else if access = 2 then ''shared-rw'' else if access = 3 then ''dma-stream'' else ''unknown'')"

end
