(* ===== verification/Tensor_Refs.thy ===== *)
theory Tensor_Refs
  imports Tensor_MM_Ops
begin

text \<open>
  The reference-counting interface of the tensor memory manager, as its clients use it:
  \<open>refs\<close> is the reference count of each live tensor and \<open>rest\<close> everything else.  The laws
  say what looking up, taking and dropping a reference does; the manager's own
  operations satisfy them.
\<close>

definition tensor_ref_counts :: "tmm \<Rightarrow> u32 \<rightharpoonup> u32" where
  "tensor_ref_counts t tid = map_option (\<lambda>i. ta_ref_count (tm_table t i)) (find_tensor tid t)"

definition without_counts :: "tmm \<Rightarrow> tmm" where
  "without_counts t = t\<lparr>tm_table := (\<lambda>i. if i < unat (tm_count t) then (tm_table t i)\<lparr>ta_ref_count := 0\<rparr> else tm_table t i)\<rparr>"

locale tensor_refs =
  fixes ok :: "'t \<Rightarrow> bool"
    and refs :: "'t \<Rightarrow> u32 \<rightharpoonup> u32"
    and rest :: "'t \<Rightarrow> 'r"
    and info :: "u32 \<Rightarrow> bool \<Rightarrow> 't \<Rightarrow> aios_status \<times> 'd option"
    and ref :: "u32 \<Rightarrow> 't \<Rightarrow> aios_status \<times> 't"
    and unref :: "u32 \<Rightarrow> 't \<Rightarrow> (aios_status \<times> 't) option"
  assumes state_eq: "ok t \<Longrightarrow> ok t' \<Longrightarrow> refs t = refs t' \<Longrightarrow> rest t = rest t' \<Longrightarrow> t = t'"
    and info_live: "ok t \<Longrightarrow> refs t i = Some c \<Longrightarrow> \<exists>d. info i True t = (AIOS_OK, Some d)"
    and info_unknown: "ok t \<Longrightarrow> refs t i = None \<Longrightarrow> info i True t = (AIOS_ERR_INVAL, None)"
    and ref_live: "ok t \<Longrightarrow> refs t i = Some c \<Longrightarrow>
      \<exists>t'. ref i t = (AIOS_OK, t') \<and> ok t' \<and> refs t' = (refs t)(i \<mapsto> c + 1) \<and> rest t' = rest t"
    and unref_shared: "ok t \<Longrightarrow> refs t i = Some c \<Longrightarrow> 1 < c \<Longrightarrow>
      \<exists>t'. unref i t = Some (AIOS_OK, t') \<and> ok t' \<and> refs t' = (refs t)(i \<mapsto> c - 1) \<and> rest t' = rest t"
begin

lemma taken_is_shared: "c \<noteq> 0 \<Longrightarrow> c + 1 \<noteq> 0 \<Longrightarrow> 1 < c + (1 :: u32)"
  using unat_minus_one [of "c + 1"] unat_gt_0 [of c] by (simp add: word_less_nat_alt)

text \<open>Taking a reference and dropping it again restores the state exactly.\<close>

lemma ref_unref:
  assumes "ok t" and "refs t i = Some c" and "c \<noteq> 0" and "c + 1 \<noteq> 0"
  shows "\<exists>t'. ref i t = (AIOS_OK, t') \<and> unref i t' = Some (AIOS_OK, t)"
proof -
  from ref_live [OF assms(1,2)] obtain t' where t': "ref i t = (AIOS_OK, t')" "ok t'"
    "refs t' = (refs t)(i \<mapsto> c + 1)" "rest t' = rest t" by blast
  then have "refs t' i = Some (c + 1)" by simp
  from unref_shared [OF t'(2) this taken_is_shared [OF assms(3,4)]] obtain t'' where
    t'': "unref i t' = Some (AIOS_OK, t'')" "ok t''" "refs t'' = (refs t')(i \<mapsto> c)" "rest t'' = rest t'" by auto
  have "refs t'' = refs t" using t''(3) t'(3) assms(2) by (auto simp: fun_eq_iff)
  then have "t'' = t" using state_eq [OF t''(2) assms(1)] t''(4) t'(4) by simp
  then show ?thesis using t'(1) t''(1) by blast
qed

end

lemma find_tensor_set_entry:
  assumes "\<And>ta. ta_id (f ta) = ta_id ta"
  shows "find_tensor tid (set_entry i f t) = find_tensor tid t"
proof -
  have "(\<lambda>j. ta_id (upd (tm_table t) i f j) = tid) = (\<lambda>j. ta_id (tm_table t j) = tid)"
    using assms by (auto simp: upd_def)
  then show ?thesis by (simp add: find_tensor_def set_entry_def)
qed

lemma counts_set_entry:
  assumes "find_tensor tid t = Some i" and "tensors_ok t"
  shows "tensor_ref_counts (set_entry i (ta_ref_count_update g) t) = (tensor_ref_counts t)(tid \<mapsto> g (ta_ref_count (tm_table t i)))"
    and "without_counts (set_entry i (ta_ref_count_update g) t) = without_counts t"
proof -
  have i: "i < unat (tm_count t)" "ta_id (tm_table t i) = tid" using find_tensor_spec(2) [OF assms(1)] by simp_all
  have "find_tensor q t \<noteq> Some i" if "q \<noteq> tid" for q
    using find_tensor_spec(2) [of q t i] i(2) that by auto
  moreover have "find_tensor q (set_entry i (ta_ref_count_update g) t) = find_tensor q t" for q
    by (rule find_tensor_set_entry) simp
  moreover have "tm_table (set_entry i (ta_ref_count_update g) t) = upd (tm_table t) i (ta_ref_count_update g)"
    by (simp add: set_entry_def)
  ultimately have "tensor_ref_counts (set_entry i (ta_ref_count_update g) t) q
      = ((tensor_ref_counts t)(tid \<mapsto> g (ta_ref_count (tm_table t i)))) q" for q
    using assms(1) by (cases "find_tensor q t") (auto simp: tensor_ref_counts_def upd_def)
  then show "tensor_ref_counts (set_entry i (ta_ref_count_update g) t) = (tensor_ref_counts t)(tid \<mapsto> g (ta_ref_count (tm_table t i)))"
    by (rule ext)
  show "without_counts (set_entry i (ta_ref_count_update g) t) = without_counts t"
    using i(1) by (auto simp: without_counts_def set_entry_def upd_def fun_eq_iff)
qed

lemma tmm_state_eq:
  assumes ok: "tensors_ok t" "tensors_ok t'" and r: "tensor_ref_counts t = tensor_ref_counts t'"
    and w: "without_counts t = without_counts t'"
  shows "t = t'"
proof -
  have cnt: "tm_count t = tm_count t'"
    using arg_cong [OF w, of tm_count] by (simp add: without_counts_def)
  have tab: "(if i < unat (tm_count t) then (tm_table t i)\<lparr>ta_ref_count := 0\<rparr> else tm_table t i)
      = (if i < unat (tm_count t) then (tm_table t' i)\<lparr>ta_ref_count := 0\<rparr> else tm_table t' i)" for i
    using fun_cong [OF arg_cong [OF w, of tm_table], of i] cnt by (simp add: without_counts_def)
  have "tm_table t i = tm_table t' i" for i
  proof (cases "i < unat (tm_count t)")
    case True
    have e: "(tm_table t i)\<lparr>ta_ref_count := 0\<rparr> = (tm_table t' i)\<lparr>ta_ref_count := 0\<rparr>" using tab [of i] True by simp
    have "ta_id (tm_table t i) = ta_id (tm_table t' i)" using arg_cong [OF e, of ta_id] by simp
    then have "tensor_ref_counts t (ta_id (tm_table t i)) = Some (ta_ref_count (tm_table t i))"
      "tensor_ref_counts t' (ta_id (tm_table t i)) = Some (ta_ref_count (tm_table t' i))"
      using find_tensor_self [OF ok(1) True] find_tensor_self [OF ok(2), of i] True cnt by (simp_all add: tensor_ref_counts_def)
    then have c: "ta_ref_count (tm_table t i) = ta_ref_count (tm_table t' i)" using r by simp
    show ?thesis
      using arg_cong [OF e, of "ta_ref_count_update (\<lambda>_. ta_ref_count (tm_table t i))"] c
      by (cases "tm_table t i"; cases "tm_table t' i") simp
  qed (use tab [of i] in simp)
  then have "tm_table t = tm_table t'" by (rule ext)
  then show ?thesis using w by (cases t; cases t') (simp add: without_counts_def)
qed

interpretation tr: tensor_refs tensors_ok tensor_ref_counts without_counts tensor_info tensor_ref tensor_unref
proof
  fix t t' :: tmm and i c :: u32
  show "tensors_ok t \<Longrightarrow> tensors_ok t' \<Longrightarrow> tensor_ref_counts t = tensor_ref_counts t' \<Longrightarrow>
    without_counts t = without_counts t' \<Longrightarrow> t = t'" by (rule tmm_state_eq)
  show "tensor_ref_counts t i = None \<Longrightarrow> tensor_info i True t = (AIOS_ERR_INVAL, None)"
    by (simp add: tensor_ref_counts_def tensor_info_def)
  assume ok: "tensors_ok t" and "tensor_ref_counts t i = Some c"
  then obtain j where j: "find_tensor i t = Some j" "ta_ref_count (tm_table t j) = c" by (auto simp: tensor_ref_counts_def)
  have in_table: "j < unat (tm_count t)" using find_tensor_spec(2) [OF j(1)] by simp
  note counts = counts_set_entry [OF j(1) ok, unfolded j(2)]
  have tok: "tensors_ok (set_entry j (ta_ref_count_update g) t)" for g
    by (rule set_entry_tensors_ok [OF ok in_table]) simp
  show "\<exists>d. tensor_info i True t = (AIOS_OK, Some d)" using j by (simp add: tensor_info_def)
  show "\<exists>t'. tensor_ref i t = (AIOS_OK, t') \<and> tensors_ok t' \<and> tensor_ref_counts t' = (tensor_ref_counts t)(i \<mapsto> c + 1)
    \<and> without_counts t' = without_counts t"
    using j(1) tok counts by (simp add: tensor_ref_def)
  assume c: "1 < c"
  then have "c \<noteq> 0" "c - 1 \<noteq> 0" by auto
  then show "\<exists>t'. tensor_unref i t = Some (AIOS_OK, t') \<and> tensors_ok t' \<and> tensor_ref_counts t' = (tensor_ref_counts t)(i \<mapsto> c - 1)
    \<and> without_counts t' = without_counts t"
    using j tok counts by (simp add: tensor_unref_def Let_def) (simp add: set_entry_def upd_def)
qed

end
