(* ===== verification/Memory_Fabric_Inv.thy ===== *)
theory Memory_Fabric_Inv
  imports Memory_Fabric Tensor_Refs
begin

text \<open>
  The invariant of the memory fabric: domains are numbered in the order they were opened, the
  owner of an active window is one of its writers and every writer is a reader, and no domain
  counts more windows than it takes part in.  Every operation keeps it, and every operation
  keeps the tensor references balanced with the active windows.
\<close>

section \<open>Specification notions\<close>

text \<open>The bits set in a mask, and the domains a window is shared with.\<close>

definition mask_bits :: "u32 \<Rightarrow> nat set" where
  "mask_bits m = {n. bit m n}"

definition sharers :: "shared_window \<Rightarrow> nat set" where
  "sharers w = mask_bits (sw_reader_mask w OR sw_writer_mask w)"

text \<open>How many active windows domain number \<open>k\<close> takes part in, and how many hold a tensor.\<close>

definition window_load :: "fabric \<Rightarrow> nat \<Rightarrow> nat" where
  "window_load f k = length (filter (\<lambda>w. sw_active w \<and> k \<in> sharers w) (fb_windows f))"

definition windows_on :: "fabric \<Rightarrow> u32 \<Rightarrow> nat" where
  "windows_on f tid = length (filter (\<lambda>w. sw_active w \<and> sw_tensor_id w = tid) (fb_windows f))"

definition mask_open :: "fabric \<Rightarrow> u32 \<Rightarrow> bool" where
  "mask_open f m \<longleftrightarrow> mask_bits m \<subseteq> {..<length (fb_domains f)}"

definition window_ok :: "fabric \<Rightarrow> shared_window \<Rightarrow> bool" where
  "window_ok f w \<longleftrightarrow> sw_active w \<longrightarrow>
     mask_bits (sw_writer_mask w) \<subseteq> mask_bits (sw_reader_mask w)
   \<and> (\<exists>k < length (fb_domains f). sw_owner_domain_id w = of_nat (Suc k) \<and> k \<in> mask_bits (sw_writer_mask w))"

definition fabric_ok :: "fabric \<Rightarrow> bool" where
  "fabric_ok f \<longleftrightarrow>
     length (fb_domains f) \<le> MEMORY_FABRIC_MAX_DOMAINS \<and> length (fb_windows f) \<le> MEMORY_FABRIC_MAX_WINDOWS
   \<and> fb_next_domain_id f = of_nat (Suc (length (fb_domains f)))
   \<and> (\<forall>k < length (fb_domains f). md_active (fb_domains f ! k) \<and> md_domain_id (fb_domains f ! k) = of_nat (Suc k)
        \<and> unat (md_attached_windows (fb_domains f ! k)) \<le> window_load f k)
   \<and> (\<forall>w \<in> set (fb_windows f). window_ok f w)"

definition accounts_exact :: "fabric \<Rightarrow> bool" where
  "accounts_exact f \<longleftrightarrow>
     (\<forall>w \<in> set (fb_windows f). sw_active w \<longrightarrow> sharers w \<subseteq> {..<length (fb_domains f)})
   \<and> (\<forall>k < length (fb_domains f). unat (md_attached_windows (fb_domains f ! k)) = window_load f k)"

text \<open>
  The states of the fabric and the tensor memory manager that fabric calls reach from a
  given manager state.  With \<open>strict\<close>, share calls name only domains that are open.
\<close>

inductive fabric_run :: "bool \<Rightarrow> tmm \<Rightarrow> fabric \<Rightarrow> tmm \<Rightarrow> bool" for strict t0 where
  init: "memory_fabric_init now e f0 = (st, f) \<Longrightarrow> fabric_run strict t0 f t0"
| dopen: "fabric_run strict t0 f t \<Longrightarrow>
    memory_fabric_domain_open now role prio rt zc budget has_out f = (st, out, f') \<Longrightarrow> fabric_run strict t0 f' t"
| share: "fabric_run strict t0 f t \<Longrightarrow> (strict \<longrightarrow> mask_open f (rm OR wm)) \<Longrightarrow>
    memory_fabric_window_share now owner tid rm wm access has_out f t = Some (st, out, f', t') \<Longrightarrow> fabric_run strict t0 f' t'"
| attach: "fabric_run strict t0 f t \<Longrightarrow> memory_fabric_window_attach now wid did wr f = (st, f') \<Longrightarrow> fabric_run strict t0 f' t"
| release: "fabric_run strict t0 f t \<Longrightarrow> memory_fabric_window_release wid f t = Some (st, f', t') \<Longrightarrow> fabric_run strict t0 f' t'"

text \<open>The domain table after the accounting of one share or release and the touch of one domain.\<close>

definition accounted :: "u32 \<Rightarrow> int \<Rightarrow> (memory_domain \<Rightarrow> memory_domain) \<Rightarrow> nat \<Rightarrow> fabric \<Rightarrow> memory_domain list" where
  "accounted m delta g j f = (map (account_domain m delta) (fb_domains f))[j := g (map (account_domain m delta) (fb_domains f) ! j)]"

text \<open>The fabric with one window replaced and the domains accounted.\<close>

definition swap_window :: "nat \<Rightarrow> shared_window \<Rightarrow> u32 \<Rightarrow> int \<Rightarrow> nat \<Rightarrow> (memory_domain \<Rightarrow> memory_domain) \<Rightarrow> u32 \<Rightarrow> fabric \<Rightarrow> fabric" where
  "swap_window i w m delta j g n f = f\<lparr>fb_windows := (fb_windows f)[i := w],
     fb_domains := accounted m delta g j f, fb_next_window_id := n\<rparr>"

definition touch :: "(memory_domain \<Rightarrow> memory_domain) \<Rightarrow> bool" where
  "touch g \<longleftrightarrow> (\<forall>d. md_domain_id (g d) = md_domain_id d \<and> md_active (g d) = md_active d
     \<and> md_attached_windows (g d) = md_attached_windows d)"

text \<open>The fabric after a share that finds the owner, a slot and the tensor.\<close>

definition shared_fabric :: "u64 \<Rightarrow> u32 \<Rightarrow> u32 \<Rightarrow> u32 \<Rightarrow> u32 \<Rightarrow> u32 \<Rightarrow> tensor_desc \<Rightarrow> nat \<Rightarrow> nat \<Rightarrow> fabric \<Rightarrow> fabric" where
  "shared_fabric now owner tid rm wm access tensor j i f =
     (let w = new_window now (fb_next_window_id f) owner tid rm wm access tensor
      in swap_window i w (sw_reader_mask w OR sw_writer_mask w) 1 j (md_last_activity_ns_update (\<lambda>_. now))
           (fb_next_window_id f + 1) f)"

definition share_success :: "u64 \<Rightarrow> u32 \<Rightarrow> u32 \<Rightarrow> u32 \<Rightarrow> u32 \<Rightarrow> u32 \<Rightarrow> fabric \<Rightarrow> tmm \<Rightarrow> fabric \<Rightarrow> bool" where
  "share_success now owner tid rm wm access f t f' \<longleftrightarrow>
     (\<exists>tensor j i f1. tensor_info tid True t = (AIOS_OK, Some tensor)
        \<and> find_domain_locked owner f = Some j \<and> alloc_window_slot_locked f = Some (i, f1)
        \<and> f' = shared_fabric now owner tid rm wm access tensor j i f1)"

definition released_fabric :: "nat \<Rightarrow> fabric \<Rightarrow> fabric" where
  "released_fabric i f = (let w = fb_windows f ! i in
     swap_window i (w\<lparr>sw_active := False, sw_reader_mask := 0, sw_writer_mask := 0, sw_map_count := 0\<rparr>)
       (sw_reader_mask w OR sw_writer_mask w) (- 1) 0 (\<lambda>d. d) (fb_next_window_id f) f)"

text \<open>
  The tensor manager along a run: everything but the counts is as at the start, and each count
  has grown by the number of active windows on its tensor.
\<close>

definition roomy_counts :: "tmm \<Rightarrow> bool" where
  "roomy_counts t0 \<longleftrightarrow> tensors_ok t0 \<and>
     (\<forall>tid c. tensor_ref_counts t0 tid = Some c \<longrightarrow> 0 < c \<and> unat c + MEMORY_FABRIC_MAX_WINDOWS + 1 < 2 ^ 32)"

definition refs_balanced :: "tmm \<Rightarrow> fabric \<Rightarrow> tmm \<Rightarrow> bool" where
  "refs_balanced t0 f t \<longleftrightarrow> tensors_ok t \<and> without_counts t = without_counts t0
     \<and> (\<forall>tid. tensor_ref_counts t tid = map_option (\<lambda>c. c + of_nat (windows_on f tid)) (tensor_ref_counts t0 tid))
     \<and> (\<forall>w \<in> set (fb_windows f). sw_active w \<longrightarrow> tensor_ref_counts t0 (sw_tensor_id w) \<noteq> None)"

section \<open>Masks and counting\<close>

lemma mask_bits_simps [simp]:
  "mask_bits 0 = {}" "mask_bits (a OR b) = mask_bits a \<union> mask_bits b" "mask_bits (a AND b) = mask_bits a \<inter> mask_bits b"
  by (auto simp: mask_bits_def bit_or_iff bit_and_iff)

lemma mask_bits_empty: "mask_bits m = {} \<longleftrightarrow> m = 0"
  by (auto simp: mask_bits_def intro!: bit_eqI)

lemma domain_bit_nth:
  assumes "k < 32"
  shows "domain_bit (of_nat (Suc k)) = 2 ^ k"
proof -
  have u: "unat (of_nat (Suc k) :: u32) = Suc k" "unat (of_nat k :: u32) = k"
    using assms unat_of_nat_small [of "Suc k", where ?'a = 32] unat_of_nat_small [of k, where ?'a = 32]
    by (simp_all del: of_nat_Suc)
  have "(of_nat (Suc k) :: u32) \<noteq> 0" "\<not> (32 :: u32) < of_nat (Suc k)"
    using assms u(1) by (auto simp: word_less_nat_alt simp del: of_nat_Suc)
  moreover have "(of_nat (Suc k) :: u32) - 1 = of_nat k" by simp
  ultimately show ?thesis by (simp add: domain_bit_def u(2) del: of_nat_Suc)
qed

lemma mask_bits_exp [simp]: "k < 32 \<Longrightarrow> mask_bits (2 ^ k) = {k}"
  by (auto simp: mask_bits_def bit_exp_iff)

lemma mask_test:
  assumes "k < 32"
  shows "m AND domain_bit (of_nat (Suc k)) = 0 \<longleftrightarrow> k \<notin> mask_bits m"
  using assms mask_bits_empty [of "m AND 2 ^ k"] by (simp add: domain_bit_nth del: of_nat_Suc)

section \<open>Domains\<close>

lemma domain_open_eq:
  assumes "domain_open_internal now role prio rt zc budget has_out f = (st, out, f')"
  shows "f' = f \<and> st = AIOS_ERR_BUSY \<and> MEMORY_FABRIC_MAX_DOMAINS \<le> length (fb_domains f)
    \<or> st = AIOS_OK \<and> length (fb_domains f) < MEMORY_FABRIC_MAX_DOMAINS
      \<and> (\<exists>d. f' = f\<lparr>fb_domains := fb_domains f @ [d], fb_next_domain_id := fb_next_domain_id f + 1\<rparr>
           \<and> md_domain_id d = fb_next_domain_id f \<and> md_active d \<and> md_attached_windows d = 0)"
  using assms by (auto simp: domain_open_internal_def Let_def split: if_splits)

lemma fabric_ok_append:
  assumes ok: "fabric_ok f" and room: "length (fb_domains f) < MEMORY_FABRIC_MAX_DOMAINS"
    and d: "md_domain_id d = fb_next_domain_id f" "md_active d" "md_attached_windows d = 0"
  defines "f' \<equiv> f\<lparr>fb_domains := fb_domains f @ [d], fb_next_domain_id := fb_next_domain_id f + 1\<rparr>"
  shows "fabric_ok f'" and "accounts_exact f \<Longrightarrow> accounts_exact f'"
proof -
  have load: "window_load f' k = window_load f k" for k by (simp add: f'_def window_load_def)
  have w: "window_ok f' w" if "w \<in> set (fb_windows f)" for w
  proof -
    have "window_ok f w" using ok that by (simp add: fabric_ok_def)
    then show ?thesis unfolding window_ok_def f'_def by (simp del: of_nat_Suc) (blast intro: less_SucI)
  qed
  have "md_active (fb_domains f' ! k) \<and> md_domain_id (fb_domains f' ! k) = of_nat (Suc k)
      \<and> unat (md_attached_windows (fb_domains f' ! k)) \<le> window_load f k" if "k < length (fb_domains f')" for k
    using that ok d by (cases "k = length (fb_domains f)") (simp_all add: f'_def fabric_ok_def nth_append)
  then show "fabric_ok f'"
    using ok room w unfolding fabric_ok_def load by (simp add: f'_def)
  assume ex: "accounts_exact f"
  have "window_load f (length (fb_domains f)) = 0"
    using ex by (auto simp: window_load_def accounts_exact_def filter_empty_conv)
  then have "unat (md_attached_windows (fb_domains f' ! k)) = window_load f k" if "k < length (fb_domains f')" for k
    using that ex d(3) by (cases "k = length (fb_domains f)") (simp_all add: f'_def accounts_exact_def nth_append)
  then show "accounts_exact f'"
    using ex unfolding accounts_exact_def load by (force simp: f'_def)
qed

lemma domain_open_ok:
  assumes "fabric_ok f" and "domain_open_internal now role prio rt zc budget has_out f = (st, out, f')"
  shows "fabric_ok f'" and "accounts_exact f \<Longrightarrow> accounts_exact f'" and "fb_windows f' = fb_windows f"
    and "fb_profile f' = fb_profile f"
  using domain_open_eq [OF assms(2)] fabric_ok_append [OF assms(1)] assms(1) by auto

lemma open_workers_ok:
  assumes "fabric_ok f" and "accounts_exact f" and "fb_windows f = []"
  shows "fabric_ok (open_workers now n i workers f) \<and> accounts_exact (open_workers now n i workers f)
    \<and> fb_windows (open_workers now n i workers f) = []"
  using assms
proof (induction n arbitrary: i f)
  case (Suc n)
  obtain st out f1 where o: "domain_open_internal now DOMAIN_ROLE_WORKER (64 + of_nat i * 8) False
             (fp_zero_copy_preferred (fb_profile f)) (max 512 (fp_hotset_kib (fb_profile f) div (workers + 1))) True f = (st, out, f1)"
    by (metis prod_cases3)
  from Suc.IH [of f1] domain_open_ok [OF Suc.prems(1) o] Suc.prems show ?case by (simp add: o)
qed simp

lemma init_ok_fabric:
  assumes "memory_fabric_init now e f0 = (st, f)"
  shows "fabric_ok f" and "accounts_exact f" and "fb_windows f = []"
proof -
  let ?f = "f0\<lparr>fb_windows := [], fb_next_window_id := 1, fb_profile := compute_profile e, fb_domains := [],
     fb_next_domain_id := 1\<rparr>"
  let ?p = "compute_profile e"
  have 0: "fabric_ok ?f" "accounts_exact ?f" by (simp_all add: fabric_ok_def accounts_exact_def)
  obtain s1 o1 f1 where 1: "domain_open_internal now DOMAIN_ROLE_MAIN 0 True (fp_zero_copy_preferred ?p)
      (max 1024 (fp_hotset_kib ?p div 2)) True ?f = (s1, o1, f1)" by (metis prod_cases3)
  obtain s2 o2 f2 where 2: "domain_open_internal now DOMAIN_ROLE_MEMORY 24 False True
      (max 1024 (fp_hotset_kib ?p div 2)) True f1 = (s2, o2, f2)" by (metis prod_cases3)
  obtain s3 o3 f3 where 3: "domain_open_internal now DOMAIN_ROLE_DEVICE 32 False (fp_pcie_present ?p)
      (max 512 (fp_staging_kib ?p)) True f2 = (s3, o3, f3)" by (metis prod_cases3)
  note k1 = domain_open_ok [OF 0(1) 1] note k2 = domain_open_ok [OF k1(1) 2] note k3 = domain_open_ok [OF k2(1) 3]
  have "fabric_ok f3 \<and> accounts_exact f3 \<and> fb_windows f3 = []" using k1 k2 k3 0(2) by simp
  moreover obtain n i workers where "f = open_workers now n i workers f3"
    using assms by (simp add: memory_fabric_init_def seed_default_domains_def Let_def 1 2 3) blast
  ultimately show "fabric_ok f" "accounts_exact f" "fb_windows f = []"
    using open_workers_ok [of f3 now n i workers] by simp_all
qed

section \<open>Windows\<close>

lemma clamp_u16_inc:
  fixes a :: u16
  assumes "unat a < 65535"
  shows "unat (clamp_u16_value (uint a + 1) 0 0xFFFF) = Suc (unat a)"
proof -
  have "uint a < 65535" using assms by (metis of_nat_less_iff of_nat_numeral of_nat_unat)
  moreover have "0 \<le> uint a" by simp
  ultimately have "\<not> uint a + 1 < 0" "\<not> 65535 < uint a + 1" by linarith+
  then have "clamp_u16_value (uint a + 1) 0 0xFFFF = a + 1" by (simp add: clamp_u16_value_def)
  then show ?thesis using assms unat_add_no_wrap [of a 1] by simp
qed

lemma account_domain_frame [simp]:
  "md_domain_id (account_domain m delta d) = md_domain_id d" "md_active (account_domain m delta d) = md_active d"
  by (simp_all add: account_domain_def)

lemma account_domain_count:
  assumes "k < 32" and "md_domain_id d = of_nat (Suc k)" and "unat (md_attached_windows d) < 65535"
  shows "unat (md_attached_windows (account_domain m 1 d)) = unat (md_attached_windows d) + (if k \<in> mask_bits m then 1 else 0)"
    and "unat (md_attached_windows (account_domain m (- 1) d)) = unat (md_attached_windows d) - (if k \<in> mask_bits m then 1 else 0)"
  using mask_test [OF assms(1), of m] assms(2) clamp_u16_inc [OF assms(3)] unat_gt_0 [of "md_attached_windows d"]
  by (cases "md_attached_windows d = 0"; auto simp: account_domain_def unat_minus_one word_neq_0_conv simp del: of_nat_Suc)+

lemma find_domain_locked_ok:
  assumes "fabric_ok f" and "find_domain_locked did f = Some k"
  shows "k < length (fb_domains f)" and "did = of_nat (Suc k)"
  using assms find_index_SomeD [OF assms(2) [unfolded find_domain_locked_def]] by (auto simp: fabric_ok_def)

lemma window_load_le:
  assumes "fabric_ok f" and "k < length (fb_domains f)"
  shows "unat (md_attached_windows (fb_domains f ! k)) \<le> 64"
proof -
  have "window_load f k \<le> length (fb_windows f)" by (simp add: window_load_def)
  then show ?thesis using assms by (fastforce simp: fabric_ok_def)
qed

text \<open>Replacing one window, with the matching change of the domain accounts, keeps the invariant.\<close>

lemma replace_window_ok:
  assumes ok: "fabric_ok f" and i: "i < length (fb_windows f)" and w: "window_ok f w"
    and len: "length ds = length (fb_domains f)"
    and ds: "\<And>k. k < length ds \<Longrightarrow> md_active (ds ! k) \<and> md_domain_id (ds ! k) = of_nat (Suc k)
      \<and> unat (md_attached_windows (ds ! k)) \<le> window_load (f\<lparr>fb_windows := (fb_windows f)[i := w]\<rparr>) k"
  shows "fabric_ok (f\<lparr>fb_windows := (fb_windows f)[i := w], fb_domains := ds, fb_next_window_id := n\<rparr>)"
proof -
  have "window_load (f\<lparr>fb_windows := (fb_windows f)[i := w], fb_domains := ds, fb_next_window_id := n\<rparr>) k
      = window_load (f\<lparr>fb_windows := (fb_windows f)[i := w]\<rparr>) k" for k by (simp add: window_load_def)
  moreover have "window_ok (f\<lparr>fb_windows := (fb_windows f)[i := w], fb_domains := ds, fb_next_window_id := n\<rparr>) v = window_ok f v" for v
    by (simp add: window_ok_def len)
  ultimately show ?thesis using ok w ds len set_update_subset_insert [of "fb_windows f" i w] unfolding fabric_ok_def by auto
qed

lemma window_load_update:
  assumes "i < length (fb_windows f)"
  shows "window_load (f\<lparr>fb_windows := (fb_windows f)[i := w]\<rparr>) k
      + (if sw_active (fb_windows f ! i) \<and> k \<in> sharers (fb_windows f ! i) then 1 else 0)
    = window_load f k + (if sw_active w \<and> k \<in> sharers w then 1 else 0)"
  using filter_update_count [OF assms, of "\<lambda>w. sw_active w \<and> k \<in> sharers w" w] by (simp add: window_load_def)

lemma windows_on_update:
  assumes "i < length (fb_windows f)"
  shows "windows_on (f\<lparr>fb_windows := (fb_windows f)[i := w], fb_domains := ds, fb_next_window_id := n\<rparr>) tid
      + (if sw_active (fb_windows f ! i) \<and> sw_tensor_id (fb_windows f ! i) = tid then 1 else 0)
    = windows_on f tid + (if sw_active w \<and> sw_tensor_id w = tid then 1 else 0)"
  using filter_update_count [OF assms, of "\<lambda>w. sw_active w \<and> sw_tensor_id w = tid" w] by (simp add: windows_on_def)

lemma accounts_exactI:
  assumes "accounts_exact f" and "length ds = length (fb_domains f)"
    and "sw_active w \<Longrightarrow> sharers w \<subseteq> {..<length (fb_domains f)}"
    and "\<And>k. k < length ds \<Longrightarrow> unat (md_attached_windows (ds ! k)) = window_load (f\<lparr>fb_windows := (fb_windows f)[i := w]\<rparr>) k"
  shows "accounts_exact (f\<lparr>fb_windows := (fb_windows f)[i := w], fb_domains := ds, fb_next_window_id := n\<rparr>)"
proof -
  have "window_load (f\<lparr>fb_windows := (fb_windows f)[i := w], fb_domains := ds, fb_next_window_id := n\<rparr>) k
      = window_load (f\<lparr>fb_windows := (fb_windows f)[i := w]\<rparr>) k" for k by (simp add: window_load_def)
  moreover have "v = w \<or> v \<in> set (fb_windows f)" if "v \<in> set ((fb_windows f)[i := w])" for v
    using that set_update_subset_insert [of "fb_windows f" i w] by blast
  ultimately show ?thesis using assms unfolding accounts_exact_def by (simp, blast)
qed

lemma accounted_nth:
  assumes ok: "fabric_ok f" and k: "k < length (fb_domains f)" and g: "\<And>d. md_domain_id (g d) = md_domain_id d"
    "\<And>d. md_active (g d) = md_active d" "\<And>d. md_attached_windows (g d) = md_attached_windows d"
  shows "md_domain_id (accounted m delta g j f ! k) = of_nat (Suc k)" and "md_active (accounted m delta g j f ! k)"
    and "unat (md_attached_windows (accounted m 1 g j f ! k))
      = unat (md_attached_windows (fb_domains f ! k)) + (if k \<in> mask_bits m then 1 else 0)"
    and "unat (md_attached_windows (accounted m (- 1) g j f ! k))
      = unat (md_attached_windows (fb_domains f ! k)) - (if k \<in> mask_bits m then 1 else 0)"
proof -
  have p: "k < 32" "md_domain_id (fb_domains f ! k) = of_nat (Suc k)" "md_active (fb_domains f ! k)"
    "unat (md_attached_windows (fb_domains f ! k)) < 65535"
    using ok k window_load_le [OF ok k] by (auto simp: fabric_ok_def)
  note c = account_domain_count [OF p(1,2,4)]
  show "md_domain_id (accounted m delta g j f ! k) = of_nat (Suc k)" "md_active (accounted m delta g j f ! k)"
    using k p g by (cases "j = k"; simp add: accounted_def)+
  show "unat (md_attached_windows (accounted m 1 g j f ! k))
      = unat (md_attached_windows (fb_domains f ! k)) + (if k \<in> mask_bits m then 1 else 0)"
    "unat (md_attached_windows (accounted m (- 1) g j f ! k))
      = unat (md_attached_windows (fb_domains f ! k)) - (if k \<in> mask_bits m then 1 else 0)"
    using k c g by (cases "j = k"; simp add: accounted_def)+
qed

lemma alloc_slot_ok:
  assumes "fabric_ok f" and "alloc_window_slot_locked f = Some (i, f1)"
  shows "fabric_ok f1 \<and> (accounts_exact f \<longrightarrow> accounts_exact f1) \<and> i < length (fb_windows f1)
    \<and> \<not> sw_active (fb_windows f1 ! i) \<and> fb_domains f1 = fb_domains f \<and> windows_on f1 = windows_on f
    \<and> fb_next_window_id f1 = fb_next_window_id f
    \<and> (\<forall>w \<in> set (fb_windows f1). sw_active w \<longrightarrow> w \<in> set (fb_windows f))"
proof -
  consider "f1 = f" "find (\<lambda>i. \<not> sw_active (fb_windows f ! i)) [0..<length (fb_windows f)] = Some i"
    | "f1 = f\<lparr>fb_windows := fb_windows f @ [zero_window]\<rparr>" "i = length (fb_windows f)"
      "length (fb_windows f) < MEMORY_FABRIC_MAX_WINDOWS"
    using assms(2) by (auto simp: alloc_window_slot_locked_def split: option.split_asm if_split_asm)
  then show ?thesis
  proof cases
    case 1
    then show ?thesis using assms(1) find_index_SomeD [OF 1(2)] by simp
  next
    case 2
    have z: "\<not> sw_active zero_window" by (simp add: zero_window_def)
    have e: "window_load f1 = window_load f" "windows_on f1 = windows_on f"
      using z by (auto simp: 2(1) window_load_def windows_on_def fun_eq_iff)
    have v: "window_ok f1 v = window_ok f v" for v by (simp add: window_ok_def 2(1))
    have "window_ok f zero_window" using z by (simp add: window_ok_def)
    then have ok: "fabric_ok f1"
      using assms(1) 2(3) unfolding fabric_ok_def e(1) v by (simp add: 2(1))
    have "accounts_exact f \<Longrightarrow> accounts_exact f1"
      using z unfolding accounts_exact_def e(1) by (simp add: 2(1))
    then show ?thesis using ok e(2) z by (simp add: 2(1,2))
  qed
qed

section \<open>The steps\<close>

lemma swap_window_ok:
  assumes ok: "fabric_ok f" and i: "i < length (fb_windows f)" and w: "window_ok f w" and g: "touch g"
    and d: "delta = 1 \<and> \<not> sw_active (fb_windows f ! i) \<and> sw_active w \<and> mask_bits m = sharers w
      \<or> delta = - 1 \<and> sw_active (fb_windows f ! i) \<and> \<not> sw_active w \<and> mask_bits m = sharers (fb_windows f ! i)
      \<or> delta = 1 \<and> m = 0 \<and> sw_active w = sw_active (fb_windows f ! i) \<and> sharers w = sharers (fb_windows f ! i)"
  shows "fabric_ok (swap_window i w m delta j g n f)"
    and "accounts_exact f \<Longrightarrow> (sw_active w \<Longrightarrow> sharers w \<subseteq> {..<length (fb_domains f)})
      \<Longrightarrow> accounts_exact (swap_window i w m delta j g n f)"
proof -
  note nth = accounted_nth [OF ok _, of _ g]
  have g': "\<And>d. md_domain_id (g d) = md_domain_id d" "\<And>d. md_active (g d) = md_active d"
    "\<And>d. md_attached_windows (g d) = md_attached_windows d" using g by (simp_all add: touch_def)
  have len: "length (accounted m delta g j f) = length (fb_domains f)" by (simp add: accounted_def)
  let ?a = "\<lambda>k. unat (md_attached_windows (fb_domains f ! k))"
  have le: "?a k \<le> window_load f k" if "k < length (fb_domains f)" for k using ok that by (simp add: fabric_ok_def)
  have b: "unat (md_attached_windows (accounted m delta g j f ! k)) \<le> window_load (f\<lparr>fb_windows := (fb_windows f)[i := w]\<rparr>) k"
    and e: "?a k = window_load f k \<Longrightarrow>
      unat (md_attached_windows (accounted m delta g j f ! k)) = window_load (f\<lparr>fb_windows := (fb_windows f)[i := w]\<rparr>) k"
    if k: "k < length (fb_domains f)" for k
  proof -
    have 1: "unat (md_attached_windows (accounted m delta g j f ! k)) = ?a k
        + (if delta = 1 \<and> k \<in> mask_bits m then 1 else 0) - (if delta = - 1 \<and> k \<in> mask_bits m then 1 else 0)"
      using d nth(3,4) [OF k g', of m j] by (elim disjE conjE) simp_all
    note 2 = window_load_update [OF i, of w k]
    show "unat (md_attached_windows (accounted m delta g j f ! k)) \<le> window_load (f\<lparr>fb_windows := (fb_windows f)[i := w]\<rparr>) k"
      using d 1 2 le [OF k] by (cases "k \<in> mask_bits m") (elim disjE conjE; simp)+
    assume "?a k = window_load f k"
    then show "unat (md_attached_windows (accounted m delta g j f ! k)) = window_load (f\<lparr>fb_windows := (fb_windows f)[i := w]\<rparr>) k"
      using d 1 2 by (cases "k \<in> mask_bits m") (elim disjE conjE; simp)+
  qed
  show "fabric_ok (swap_window i w m delta j g n f)"
    unfolding swap_window_def by (rule replace_window_ok [OF ok i w len]) (use nth(1,2) [OF _ g'] b len in auto)
  assume ex: "accounts_exact f" and s: "sw_active w \<Longrightarrow> sharers w \<subseteq> {..<length (fb_domains f)}"
  have "?a k = window_load f k" if "k < length (fb_domains f)" for k using ex that by (simp add: accounts_exact_def)
  then show "accounts_exact (swap_window i w m delta j g n f)"
    unfolding swap_window_def by (intro accounts_exactI [OF ex len] s e) (use len in auto)
qed

lemma windows_on_swap:
  assumes "i < length (fb_windows f)"
  shows "windows_on (swap_window i w m delta j g n f) tid
      + (if sw_active (fb_windows f ! i) \<and> sw_tensor_id (fb_windows f ! i) = tid then 1 else 0)
    = windows_on f tid + (if sw_active w \<and> sw_tensor_id w = tid then 1 else 0)"
  unfolding swap_window_def by (rule windows_on_update [OF assms])

lemma accounted_0: "accounted 0 delta g j f = (fb_domains f)[j := g (fb_domains f ! j)]"
proof -
  have "account_domain 0 delta = (\<lambda>d. d)" by (simp add: fun_eq_iff account_domain_def)
  then show ?thesis by (simp add: accounted_def)
qed

subsection \<open>Share\<close>

lemma new_window_ok:
  assumes "k < length (fb_domains f)" and "length (fb_domains f) \<le> MEMORY_FABRIC_MAX_DOMAINS"
  shows "window_ok f (new_window now wid (of_nat (Suc k)) tid rm wm access tensor)"
proof -
  have "k < 32" using assms by simp
  from domain_bit_nth [OF this] show ?thesis using assms(1)
    by (auto simp: window_ok_def new_window_def Let_def \<open>k < 32\<close> simp del: of_nat_Suc)
qed

lemma new_window_simps [simp]:
  "sw_active (new_window now wid owner tid rm wm access tensor)"
  "sw_tensor_id (new_window now wid owner tid rm wm access tensor) = tid"
  "sw_window_id (new_window now wid owner tid rm wm access tensor) = wid"
  "sw_last_access_ns (new_window now wid owner tid rm wm access tensor) = now"
  by (simp_all add: new_window_def Let_def)

lemma sharers_new_window:
  assumes "k < 32"
  shows "sharers (new_window now wid (of_nat (Suc k)) tid rm wm access tensor) = insert k (mask_bits (rm OR wm))"
  using assms by (auto simp: sharers_def new_window_def Let_def domain_bit_nth simp del: of_nat_Suc)

lemma shared_fabric_eq:
  assumes "w = new_window now (fb_next_window_id f1) owner tid rm wm access tensor"
  shows "touch_domain j now (update_window_accounting_locked (sw_reader_mask w OR sw_writer_mask w) 1
      (f1\<lparr>fb_next_window_id := fb_next_window_id f1 + 1, fb_windows := (fb_windows f1)[i := w]\<rparr>))
    = shared_fabric now owner tid rm wm access tensor j i f1"
  unfolding assms shared_fabric_def swap_window_def accounted_def touch_domain_def update_window_accounting_locked_def Let_def
  by simp

lemma share_found:
  assumes "tid \<noteq> 0" and "tensor_info tid True t = (AIOS_OK, Some tensor)" and "tensor_ref tid t = (AIOS_OK, t1)"
  shows "memory_fabric_window_share now owner tid rm wm access has_out f t =
    (case find_domain_locked owner f of
       None \<Rightarrow> do { (_, t2) \<leftarrow> tensor_unref tid t1; Some (AIOS_ERR_INVAL, None, f, t2) }
     | Some j \<Rightarrow> (case alloc_window_slot_locked f of
          None \<Rightarrow> do { (_, t2) \<leftarrow> tensor_unref tid t1; Some (AIOS_ERR_BUSY, None, f, t2) }
        | Some (i, f1) \<Rightarrow> Some (AIOS_OK, if has_out then Some (fb_next_window_id f1) else None,
            shared_fabric now owner tid rm wm access tensor j i f1, t1)))"
  using assms unfolding memory_fabric_window_share_def Let_def
  by (simp add: shared_fabric_eq [OF refl] split: option.split)

lemma share_fabric_cases:
  assumes "memory_fabric_window_share now owner tid rm wm access has_out f t = Some (st, out, f', t')"
  shows "f' = f \<and> st \<noteq> AIOS_OK \<or> share_success now owner tid rm wm access f t f'"
proof (cases "tid = 0")
  case False
  obtain s d where i: "tensor_info tid True t = (s, d)" by fastforce
  obtain s1 t1 where r: "tensor_ref tid t = (s1, t1)" by fastforce
  show ?thesis
  proof (cases "s = AIOS_OK \<and> s1 = AIOS_OK \<and> d \<noteq> None")
    case True
    with i r obtain tensor where "tensor_info tid True t = (AIOS_OK, Some tensor)" "tensor_ref tid t = (AIOS_OK, t1)" by auto
    from this assms share_found [OF False this] show ?thesis
      by (auto simp: share_success_def split: option.split_asm prod.split_asm Option.bind_split_asm)
  next
    case other: False
    have "\<not> (s = AIOS_OK \<and> d = None)" using i by (auto simp: tensor_info_def split: option.split_asm)
    then show ?thesis using other assms False i r
      by (cases d; cases "s = AIOS_OK") (auto simp: memory_fabric_window_share_def)
  qed
qed (use assms in \<open>simp add: memory_fabric_window_share_def\<close>)

text \<open>With live tensors' counts away from the ends of their range, a failed share changes nothing.\<close>

lemma share_tensor_cases:
  assumes ok: "tensors_ok t" and c: "\<And>c. tensor_ref_counts t tid = Some c \<Longrightarrow> c \<noteq> 0 \<and> c + 1 \<noteq> 0"
    and e: "memory_fabric_window_share now owner tid rm wm access has_out f t = Some (st, out, f', t')"
  shows "st \<noteq> AIOS_OK \<and> f' = f \<and> t' = t
    \<or> st = AIOS_OK \<and> share_success now owner tid rm wm access f t f' \<and> tensor_ref_counts t tid \<noteq> None
      \<and> tensor_ref tid t = (AIOS_OK, t')"
proof (cases "tid = 0 \<or> tensor_ref_counts t tid = None")
  case True
  then show ?thesis
    using e tr.info_unknown [OF ok, of tid] by (cases "tid = 0") (auto simp: memory_fabric_window_share_def)
next
  case False
  then obtain c where live: "tensor_ref_counts t tid = Some c" by auto
  from tr.info_live [OF ok live] obtain tensor where i: "tensor_info tid True t = (AIOS_OK, Some tensor)" by blast
  from tr.ref_unref [OF ok live] c [OF live] obtain t1 where
    r: "tensor_ref tid t = (AIOS_OK, t1)" "tensor_unref tid t1 = Some (AIOS_OK, t)" by blast
  have "tid \<noteq> 0" using False by simp
  from e [unfolded share_found [OF this i r(1)]] r i live show ?thesis
    by (auto simp: share_success_def split: option.split_asm prod.split_asm)
qed

lemma share_success_ok:
  assumes ok: "fabric_ok f" and s: "share_success now owner tid rm wm access f t f'"
  shows "fabric_ok f'" and "accounts_exact f \<Longrightarrow> mask_open f (rm OR wm) \<Longrightarrow> accounts_exact f'"
    and "windows_on f' q = windows_on f q + (if q = tid then 1 else 0)"
    and "\<forall>w \<in> set (fb_windows f'). sw_active w \<longrightarrow> w \<in> set (fb_windows f) \<or> sw_tensor_id w = tid"
proof -
  from s obtain tensor j i f1 where p: "find_domain_locked owner f = Some j" "alloc_window_slot_locked f = Some (i, f1)"
    "f' = shared_fabric now owner tid rm wm access tensor j i f1" unfolding share_success_def by blast
  let ?w = "new_window now (fb_next_window_id f1) owner tid rm wm access tensor"
  let ?m = "sw_reader_mask ?w OR sw_writer_mask ?w" and ?g = "md_last_activity_ns_update (\<lambda>_. now)"
  have f': "f' = swap_window i ?w ?m 1 j ?g (fb_next_window_id f1 + 1) f1" by (simp add: p(3) shared_fabric_def Let_def)
  note j = find_domain_locked_ok [OF ok p(1)]
  from alloc_slot_ok [OF ok p(2)] have a: "fabric_ok f1" "accounts_exact f \<Longrightarrow> accounts_exact f1"
    "i < length (fb_windows f1)" "\<not> sw_active (fb_windows f1 ! i)" "fb_domains f1 = fb_domains f" "windows_on f1 = windows_on f"
    "\<forall>w \<in> set (fb_windows f1). sw_active w \<longrightarrow> w \<in> set (fb_windows f)" by blast+
  have j16: "length (fb_domains f1) \<le> MEMORY_FABRIC_MAX_DOMAINS" using a(1) by (simp add: fabric_ok_def)
  have w: "window_ok f1 ?w" unfolding j(2) by (rule new_window_ok) (use j(1) a(5) j16 in simp_all)
  have m: "mask_bits ?m = sharers ?w" by (simp add: sharers_def)
  have t: "touch ?g" by (simp add: touch_def)
  have d: "(1::int) = 1 \<and> \<not> sw_active (fb_windows f1 ! i) \<and> sw_active ?w \<and> mask_bits ?m = sharers ?w
      \<or> (1::int) = - 1 \<and> sw_active (fb_windows f1 ! i) \<and> \<not> sw_active ?w \<and> mask_bits ?m = sharers (fb_windows f1 ! i)
      \<or> (1::int) = 1 \<and> ?m = 0 \<and> sw_active ?w = sw_active (fb_windows f1 ! i) \<and> sharers ?w = sharers (fb_windows f1 ! i)"
    using a(4) m by simp
  note ok' = swap_window_ok [OF a(1,3) w t d]
  show "fabric_ok f'" unfolding f' by (rule ok'(1))
  show "windows_on f' q = windows_on f q + (if q = tid then 1 else 0)"
    using windows_on_swap [OF a(3), of ?w ?m 1 j ?g "fb_next_window_id f1 + 1" q] a(4,6) unfolding f' by simp
  show "\<forall>w \<in> set (fb_windows f'). sw_active w \<longrightarrow> w \<in> set (fb_windows f) \<or> sw_tensor_id w = tid"
    using a(7) set_update_subset_insert [of "fb_windows f1" i ?w] unfolding f' swap_window_def by (simp, blast intro: new_window_simps)
  assume ex: "accounts_exact f" and o: "mask_open f (rm OR wm)"
  have "sharers ?w \<subseteq> {..<length (fb_domains f1)}"
    using o j(1) j16 unfolding j(2) by (subst sharers_new_window) (auto simp: mask_open_def a(5))
  then show "accounts_exact f'" unfolding f' by (intro ok'(2) a(2) ex)
qed

subsection \<open>Attach\<close>

lemma attach_cases:
  assumes e: "memory_fabric_window_attach now wid did wr f = (st, f')"
  shows "st \<noteq> AIOS_OK \<and> f' = f
    \<or> (\<exists>i j. st = AIOS_OK \<and> find_window_locked wid f = Some i \<and> find_domain_locked did f = Some j
        \<and> sw_reader_mask (fb_windows f ! i) AND domain_bit did \<noteq> 0
        \<and> (wr \<longrightarrow> sw_writer_mask (fb_windows f ! i) AND domain_bit did \<noteq> 0)
        \<and> f' = swap_window i ((fb_windows f ! i)\<lparr>sw_map_count := clamp_u16_value (uint (sw_map_count (fb_windows f ! i)) + 1) 1 0xFFFF,
               sw_last_access_ns := now\<rparr>) 0 1 j (md_last_activity_ns_update (\<lambda>_. now)) (fb_next_window_id f) f)"
proof (cases "find_window_locked wid f = None \<or> find_domain_locked did f = None \<or> domain_bit did = 0")
  case True
  then show ?thesis using e by (auto simp: memory_fabric_window_attach_def Let_def split: option.split_asm)
next
  case False
  then obtain i j where ij: "find_window_locked wid f = Some i" "find_domain_locked did f = Some j" by auto
  then show ?thesis using e False unfolding memory_fabric_window_attach_def swap_window_def accounted_0
    by (simp add: Let_def touch_domain_def split: if_split_asm)
qed

lemma attach_ok:
  assumes ok: "fabric_ok f" and e: "memory_fabric_window_attach now wid did wr f = (st, f')"
  shows "fabric_ok f' \<and> (accounts_exact f \<longrightarrow> accounts_exact f') \<and> windows_on f' = windows_on f
    \<and> (\<forall>w' \<in> set (fb_windows f'). \<exists>w \<in> set (fb_windows f). sw_active w' = sw_active w \<and> sw_tensor_id w' = sw_tensor_id w)"
proof -
  let ?g = "md_last_activity_ns_update (\<lambda>_. now)" and ?n = "fb_next_window_id f"
  consider "f' = f" | i j w where "find_window_locked wid f = Some i" "f' = swap_window i w 0 1 j ?g ?n f"
    "\<exists>c. w = (fb_windows f ! i)\<lparr>sw_map_count := c, sw_last_access_ns := now\<rparr>"
    using attach_cases [OF e] by blast
  then show ?thesis
  proof cases
    case 2
    note i = find_index_SomeD(1) [OF 2(1) [unfolded find_window_locked_def]]
    have in_set: "fb_windows f ! i \<in> set (fb_windows f)" using i by simp
    have same: "sw_active w = sw_active (fb_windows f ! i)" "sharers w = sharers (fb_windows f ! i)"
      "sw_tensor_id w = sw_tensor_id (fb_windows f ! i)" "window_ok f w = window_ok f (fb_windows f ! i)"
      using 2(3) by (auto simp: sharers_def window_ok_def)
    have w: "window_ok f w" using ok in_set same(4) by (simp add: fabric_ok_def)
    have t: "touch ?g" by (simp add: touch_def)
    have ex: "accounts_exact f \<Longrightarrow> sw_active w \<Longrightarrow> sharers w \<subseteq> {..<length (fb_domains f)}"
      using in_set same by (simp add: accounts_exact_def)
    note ok' = swap_window_ok [OF ok i w t, of 1 0 j ?n, folded 2(2)]
    have "windows_on f' q = windows_on f q" for q
      using windows_on_swap [OF i, of w 0 1 j ?g ?n q] same unfolding 2(2) by (simp split: if_split_asm)
    moreover have "fb_windows f' = (fb_windows f)[i := w]" by (simp add: 2(2) swap_window_def)
    ultimately show ?thesis
      using ok' ex same(1-3) in_set set_update_subset_insert [of "fb_windows f" i w] by auto
  qed (use ok in auto)
qed

subsection \<open>Release\<close>

lemma released_fabric_eq:
  "(update_window_accounting_locked m (- 1) f)\<lparr>fb_windows := (fb_windows (update_window_accounting_locked m (- 1) f))[i := w]\<rparr>
    = swap_window i w m (- 1) 0 (\<lambda>d. d) (fb_next_window_id f) f"
  by (simp add: update_window_accounting_locked_def swap_window_def accounted_def)

lemma release_eq:
  "memory_fabric_window_release wid f t = (case find_window_locked wid f of
     None \<Rightarrow> Some (AIOS_ERR_INVAL, f, t)
   | Some i \<Rightarrow> do { (st, t1) \<leftarrow> tensor_unref (sw_tensor_id (fb_windows f ! i)) t; Some (st, released_fabric i f, t1) })"
  by (simp add: memory_fabric_window_release_def Let_def released_fabric_def released_fabric_eq split: option.split)

lemma released_ok:
  assumes ok: "fabric_ok f" and s: "find_window_locked wid f = Some i"
  shows "fabric_ok (released_fabric i f)" and "accounts_exact f \<Longrightarrow> accounts_exact (released_fabric i f)"
    and "windows_on f q = windows_on (released_fabric i f) q + (if q = sw_tensor_id (fb_windows f ! i) then 1 else 0)"
    and "\<forall>w \<in> set (fb_windows (released_fabric i f)). sw_active w \<longrightarrow> w \<in> set (fb_windows f)"
proof -
  from find_index_SomeD [OF s [unfolded find_window_locked_def]]
  have i: "i < length (fb_windows f)" "sw_active (fb_windows f ! i)" by simp_all
  let ?w = "(fb_windows f ! i)\<lparr>sw_active := False, sw_reader_mask := 0, sw_writer_mask := 0, sw_map_count := 0\<rparr>"
  let ?m = "sw_reader_mask (fb_windows f ! i) OR sw_writer_mask (fb_windows f ! i)"
  have r: "released_fabric i f = swap_window i ?w ?m (- 1) 0 (\<lambda>d. d) (fb_next_window_id f) f"
    by (simp add: released_fabric_def Let_def)
  have w: "window_ok f ?w" by (simp add: window_ok_def)
  have t: "touch (\<lambda>d. d)" by (simp add: touch_def)
  note ok' = swap_window_ok [OF ok i(1) w t, of "- 1" ?m 0 "fb_next_window_id f", folded r]
  show "fabric_ok (released_fabric i f)" using ok'(1) i(2) by (simp add: sharers_def)
  show "accounts_exact f \<Longrightarrow> accounts_exact (released_fabric i f)" using ok'(2) i(2) by (simp add: sharers_def)
  show "windows_on f q = windows_on (released_fabric i f) q + (if q = sw_tensor_id (fb_windows f ! i) then 1 else 0)"
    using windows_on_swap [OF i(1), of ?w ?m "- 1" 0 "\<lambda>d. d" "fb_next_window_id f" q] i(2) unfolding r by (auto split: if_split_asm)
  show "\<forall>w \<in> set (fb_windows (released_fabric i f)). sw_active w \<longrightarrow> w \<in> set (fb_windows f)"
    using set_update_subset_insert [of "fb_windows f" i ?w] by (auto simp: r swap_window_def)
qed

section \<open>Runs\<close>

lemma run_ok: "fabric_run strict t0 f t \<Longrightarrow> fabric_ok f \<and> (strict \<longrightarrow> accounts_exact f)"
proof (induction rule: fabric_run.induct)
  case (init now e f0 st f)
  then show ?case using init_ok_fabric by blast
next
  case (dopen f t now role prio rt zc budget has_out st out f')
  then show ?case using domain_open_ok [of f] unfolding memory_fabric_domain_open_def by blast
next
  case (share f t rm wm now owner tid access has_out st out f' t')
  from share_fabric_cases [OF share.hyps(3)] show ?case using share share_success_ok(1,2) [of f] by blast
next
  case (attach f t now wid did wr st f')
  then show ?case using attach_ok [of f] by blast
next
  case (release f t wid st f' t')
  then have "f' = f \<or> (\<exists>i. find_window_locked wid f = Some i \<and> f' = released_fabric i f)"
    by (auto simp: release_eq split: option.split_asm Option.bind_split_asm prod.split_asm)
  then show ?case using release.IH released_ok(1,2) [of f wid] by blast
qed

lemma windows_on_le: "fabric_ok f \<Longrightarrow> windows_on f tid \<le> MEMORY_FABRIC_MAX_WINDOWS"
  unfolding windows_on_def fabric_ok_def using length_filter_le le_trans by blast

lemma count_room:
  fixes c :: u32
  assumes "0 < c" and "unat c + MEMORY_FABRIC_MAX_WINDOWS + 1 < 2 ^ 32" and "n \<le> MEMORY_FABRIC_MAX_WINDOWS"
  shows "unat (c + of_nat n) = unat c + n"
proof -
  have "unat (of_nat n :: u32) = n" using assms(3) by (intro unat_of_nat_small) simp
  then show ?thesis using assms unat_add_no_wrap [of c "of_nat n"] by simp
qed

lemma share_refs:
  assumes r: "roomy_counts t0" and ok: "fabric_ok f" and bal: "refs_balanced t0 f t"
    and e: "memory_fabric_window_share now owner tid rm wm access has_out f t = Some (st, out, f', t')"
  shows "refs_balanced t0 f' t'"
proof -
  have tok: "tensors_ok t" using bal by (simp add: refs_balanced_def)
  have c: "c \<noteq> 0 \<and> c + 1 \<noteq> 0" if "tensor_ref_counts t tid = Some c" for c
  proof -
    from that bal obtain c0 where c0: "tensor_ref_counts t0 tid = Some c0" "c = c0 + of_nat (windows_on f tid)"
      by (auto simp: refs_balanced_def)
    then have "0 < c0" "unat c0 + MEMORY_FABRIC_MAX_WINDOWS + 1 < 2 ^ 32" using r by (auto simp: roomy_counts_def)
    from count_room [OF this windows_on_le [OF ok, of tid]] this windows_on_le [OF ok, of tid]
    have "0 < unat c" "unat c + 1 < 2 ^ 32" using unat_gt_0 [of c0] by (simp_all add: c0(2) word_less_nat_alt)
    then show ?thesis using unat_add_no_wrap [of c 1] by auto
  qed
  from share_tensor_cases [OF tok _ e] c
  have "st \<noteq> AIOS_OK \<and> f' = f \<and> t' = t \<or> st = AIOS_OK \<and> share_success now owner tid rm wm access f t f'
      \<and> tensor_ref_counts t tid \<noteq> None \<and> tensor_ref tid t = (AIOS_OK, t')" by blast
  then show ?thesis
  proof (elim disjE conjE)
    assume s: "share_success now owner tid rm wm access f t f'" and live: "tensor_ref_counts t tid \<noteq> None"
      and ref: "tensor_ref tid t = (AIOS_OK, t')"
    from live obtain c where "tensor_ref_counts t tid = Some c" by blast
    from tr.ref_live [OF tok this] ref this have t': "tensors_ok t'" "without_counts t' = without_counts t"
      "tensor_ref_counts t' = (tensor_ref_counts t)(tid \<mapsto> c + 1)" "tensor_ref_counts t tid = Some c" by auto
    note s' = share_success_ok(3,4) [OF ok s]
    have "tensor_ref_counts t' q = map_option (\<lambda>c. c + of_nat (windows_on f' q)) (tensor_ref_counts t0 q)" for q
      using bal t'(3,4) by (cases "q = tid") (auto simp: refs_balanced_def s'(1) ac_simps)
    moreover have "tensor_ref_counts t0 tid \<noteq> None" using bal t'(4) by (auto simp: refs_balanced_def)
    ultimately show ?thesis using bal t'(1,2) s'(2) by (auto simp: refs_balanced_def)
  qed (use bal in simp)
qed

lemma release_refs:
  assumes r: "roomy_counts t0" and ok: "fabric_ok f" and bal: "refs_balanced t0 f t"
    and s: "find_window_locked wid f = Some i"
  shows "\<exists>t'. memory_fabric_window_release wid f t = Some (AIOS_OK, released_fabric i f, t')
    \<and> refs_balanced t0 (released_fabric i f) t'"
proof -
  let ?q = "sw_tensor_id (fb_windows f ! i)" and ?f = "released_fabric i f"
  note rel = released_ok [OF ok s]
  from find_index_SomeD [OF s [unfolded find_window_locked_def]]
  have i: "fb_windows f ! i \<in> set (fb_windows f)" "sw_active (fb_windows f ! i)" by simp_all
  have tok: "tensors_ok t" using bal by (simp add: refs_balanced_def)
  from i bal obtain c0 where c0: "tensor_ref_counts t0 ?q = Some c0" by (auto simp: refs_balanced_def)
  define n where "n = windows_on ?f ?q"
  have n: "windows_on f ?q = Suc n" using rel(3) [of ?q] by (simp add: n_def)
  have live: "tensor_ref_counts t ?q = Some (c0 + of_nat (Suc n))" using bal c0 n by (simp add: refs_balanced_def del: of_nat_Suc)
  have b: "0 < c0" "unat c0 + MEMORY_FABRIC_MAX_WINDOWS + 1 < 2 ^ 32" using r c0 by (auto simp: roomy_counts_def)
  have "unat (c0 + of_nat (Suc n)) = unat c0 + Suc n"
    by (rule count_room [OF b]) (use windows_on_le [OF ok, of ?q] n in simp)
  then have "1 < c0 + of_nat (Suc n)" using b(1) by (simp add: word_less_nat_alt del: of_nat_Suc)
  from tr.unref_shared [OF tok live this] obtain t' where t': "tensor_unref ?q t = Some (AIOS_OK, t')" "tensors_ok t'"
    "tensor_ref_counts t' = (tensor_ref_counts t)(?q \<mapsto> c0 + of_nat n)" "without_counts t' = without_counts t" by auto
  have "tensor_ref_counts t' q = map_option (\<lambda>c. c + of_nat (windows_on ?f q)) (tensor_ref_counts t0 q)" for q
    using bal t'(3) c0 rel(3) [of q] by (cases "q = ?q") (auto simp: refs_balanced_def n_def)
  then have "refs_balanced t0 ?f t'" using bal t'(2,4) rel(4) by (auto simp: refs_balanced_def)
  then show ?thesis using t'(1) s by (auto simp: release_eq)
qed

lemma run_refs:
  assumes r: "roomy_counts t0" and run: "fabric_run strict t0 f t"
  shows "refs_balanced t0 f t"
  using run
proof (induction rule: fabric_run.induct)
  case (init now e f0 st f)
  then show ?case using r init_ok_fabric(3) by (auto simp: refs_balanced_def roomy_counts_def windows_on_def option.map_ident)
next
  case (dopen f t now role prio rt zc budget has_out st out f')
  have "fb_windows f' = fb_windows f"
    using domain_open_ok(3) [OF _ dopen.hyps(2) [unfolded memory_fabric_domain_open_def]] run_ok [OF dopen.hyps(1)] by blast
  then show ?case using dopen.IH by (simp add: refs_balanced_def windows_on_def)
next
  case (share f t rm wm now owner tid access has_out st out f' t')
  then show ?case using share_refs [OF r] run_ok by blast
next
  case (attach f t now wid did wr st f')
  from attach_ok [OF _ attach.hyps(2)] run_ok [OF attach.hyps(1)]
  show ?case using attach.IH unfolding refs_balanced_def by metis
next
  case (release f t wid st f' t')
  show ?case
  proof (cases "find_window_locked wid f")
    case None
    then show ?thesis using release by (simp add: release_eq)
  next
    case (Some i)
    from release_refs [OF r _ release.IH this] run_ok [OF release.hyps(1)] release.hyps(2) show ?thesis by auto
  qed
qed

end
