(* ===== verification/Memory_Fabric_Correct.thy ===== *)
theory Memory_Fabric_Correct
  imports Memory_Fabric_Inv Tensor_MM_Correct
begin

text \<open>
  The properties of the memory fabric: the accounts of the domains, the authority to attach,
  the balance of tensor references, and the meaning of the pressure snapshot.
\<close>

section \<open>What the snapshot should report\<close>

text \<open>What the windows of a fabric add up to.\<close>

abbreviation window_sum :: "(shared_window \<Rightarrow> nat) \<Rightarrow> shared_window list \<Rightarrow> nat" where
  "window_sum g ws \<equiv> (\<Sum>w \<leftarrow> filter sw_active ws. g w)"

definition writers :: "shared_window \<Rightarrow> nat set" where
  "writers w = mask_bits (sw_writer_mask w)"

definition shared_bytes :: "shared_window \<Rightarrow> nat" where
  "shared_bytes w = (if 1 < card (sharers w) then unat (sw_size_bytes w) else 0)"

definition weighted_bytes :: "shared_window \<Rightarrow> nat" where
  "weighted_bytes w = (if 1 < card (sharers w) then unat (sw_size_bytes w) * card (sharers w) else 0)"

text \<open>The budget of the open domains, in bytes, and the counts stay in range for at most 64 windows.\<close>

definition budget_bytes :: "memory_domain list \<Rightarrow> nat" where
  "budget_bytes ds = (\<Sum>d \<leftarrow> filter md_active ds. unat (md_local_budget_kib d) * 1024)"

section \<open>A concrete fabric\<close>

text \<open>
  A small manager state with one live tensor, a fabric on it, and the same fabric after a share.  A
  fabric run may start from any manager state; the shares that depend on the tensor
  manager's own runs start from a state those runs reach.
\<close>

definition example_tmm :: tmm where
  "example_tmm = tmm_boot\<lparr>tm_count := 1, tm_next_id := 8,
     tm_table := (tm_table tmm_boot)(0 := (tm_table tmm_boot 0)\<lparr>ta_id := 7, ta_size := 4096, ta_ref_count := 1\<rparr>)\<rparr>"

definition example_env :: fabric_env where
  "example_env = \<lparr>fe_acpi_ready = True, fe_xsdt_present = True, fe_mcfg_present = True, fe_ecam_available = True,
     fe_pcie_functions = 3, fe_bridges = 1, fe_total_functions = 6, fe_matched_devices = 2, fe_invariant_tsc = True,
     fe_tier = 0, fe_devices = [Some (True, 1), None]\<rparr>"

definition example_fabric :: fabric where
  "example_fabric = snd (memory_fabric_init 5 example_env
     \<lparr>fb_profile = compute_profile example_env, fb_domains = [], fb_windows = [], fb_next_domain_id = 0, fb_next_window_id = 0\<rparr>)"

definition example_share :: "u32 \<Rightarrow> aios_status \<times> u32 option \<times> fabric \<times> tmm" where
  "example_share readers = the (memory_fabric_window_share 9 1 7 readers 2 2 True example_fabric example_tmm)"

definition example_shared :: fabric where "example_shared = fst (snd (snd (example_share 4)))"

definition example_taken :: tmm where "example_taken = snd (snd (snd (example_share 4)))"

section \<open>Pressure\<close>

lemma nat_bits_rec: "{n. bit (x :: nat) n} = (if odd x then {0} else {}) \<union> Suc ` {n. bit (x div 2) n}"
proof (rule set_eqI)
  fix n
  show "n \<in> {n. bit x n} \<longleftrightarrow> n \<in> (if odd x then {0} else {}) \<union> Suc ` {n. bit (x div 2) n}"
    by (cases n) (auto simp: bit_0 bit_Suc)
qed

lemma clear_lowest_bit:
  "0 < x \<Longrightarrow> finite {n. bit x n} \<and> card {n. bit (x :: nat) n} = Suc (card {n. bit (x AND (x - 1)) n})"
proof (induction x rule: less_induct)
  case (less x)
  show ?case
  proof (cases "odd x")
    case True
    then obtain k where k: "x = 2 * k + 1" by (auto elim: oddE)
    have "x AND (x - 1) = x - 1" by (subst and_rec) (simp add: k)
    moreover have f: "finite {n. bit (x div 2) n}"
      using less.IH [of "x div 2"] less.prems by (cases "x div 2 = 0") auto
    moreover have "(x - 1) div 2 = x div 2" "even (x - 1)" using True by (auto elim: oddE)
    ultimately show ?thesis using True nat_bits_rec [of x] nat_bits_rec [of "x - 1"] by (simp add: card_image)
  next
    case False
    then obtain k where k: "x = 2 * k" "0 < k" using less.prems by (auto elim: evenE)
    have "x AND (x - 1) = 2 * (k AND (k - 1))"
    proof -
      have "x - 1 = 1 + 2 * (k - 1)" using k by simp
      then show ?thesis by (subst and_rec) (simp add: k(1))
    qed
    then show ?thesis using less.IH [of k] k nat_bits_rec [of x] nat_bits_rec [of "2 * (k AND (k - 1))"]
      by (simp add: card_image)
  qed
qed

lemma mask_bits_unat: "mask_bits v = {n. bit (unat v) n}"
  by (auto simp: mask_bits_def bit_unsigned_iff)

lemma card_mask_bits: "card (mask_bits v) \<le> 32"
proof -
  have "mask_bits v \<subseteq> {..<32}" by (auto simp: mask_bits_def dest: bit_imp_le_length)
  from card_mono [OF _ this] show ?thesis by simp
qed

lemma popcount32_from_eq: "popcount32_from v c = c + of_nat (card (mask_bits v))"
proof (induction v c rule: popcount32_from.induct)
  case (1 v c)
  show ?case
  proof (cases "v = 0")
    case False
    then have "unat (v - 1) = unat v - 1" "0 < unat v" by (simp_all add: unat_minus_one unat_gt_0)
    then have "card (mask_bits v) = Suc (card (mask_bits (v AND (v - 1))))"
      using clear_lowest_bit [of "unat v"] by (simp only: mask_bits_unat unsigned_and_eq)
    with 1 False show ?thesis by (simp add: popcount32_from.simps [of v])
  qed (simp add: popcount32_from.simps [of 0])
qed

lemma popcount32_eq: "popcount32 v = of_nat (card (mask_bits v))" "unat (popcount32 v) = card (mask_bits v)"
proof -
  show "popcount32 v = of_nat (card (mask_bits v))" by (simp add: popcount32_def popcount32_from_eq)
  then show "unat (popcount32 v) = card (mask_bits v)" using card_mask_bits [of v] by (simp add: unat_of_nat_small)
qed

lemma sat_add_eq: "unat (sat_add_u64 a b) = min (2 ^ 64 - 1) (unat a + unat b)"
proof (cases "UINT64_MAX - b < a")
  case True
  then have "2 ^ 64 \<le> unat a + unat b" using overflow_guard [of b a] by simp
  then show ?thesis using True by (simp add: sat_add_u64_def unat_UINT64_MAX)
next
  case False
  then have "unat a + unat b < 2 ^ 64" using overflow_guard [of b a] by simp
  then show ?thesis using False unat_add_no_wrap [of a b] by (simp add: sat_add_u64_def)
qed

lemma sat_mul_eq: "unat (sat_mul_u64_u32 a n) = min (2 ^ 64 - 1) (unat a * unat n)"
proof -
  have u: "unat (ucast n :: u64) = unat n" by (simp add: unsigned_ucast_eq take_bit_nat_eq_self word_bounds)
  have "n \<noteq> 0 \<Longrightarrow> UINT64_MAX div ucast n < a \<longleftrightarrow> 2 ^ 64 - 1 < unat a * unat n"
    by (simp add: word_less_nat_alt unat_div u unat_UINT64_MAX unat_gt_0 div_less_iff_less_mult)
  moreover have "unat a * unat n \<le> 2 ^ 64 - 1 \<Longrightarrow> unat (a * ucast n) = unat a * unat n"
    by (simp add: unat_word_ariths u)
  ultimately show ?thesis by (cases "n = 0") (simp_all add: sat_mul_u64_u32_def unat_UINT64_MAX)
qed

lemma sharers_popcount:
  "popcount32 (sw_reader_mask w OR sw_writer_mask w) = of_nat (card (sharers w))"
  "popcount32 (sw_writer_mask w) = of_nat (card (writers w))"
  "popcount32 (sw_reader_mask w AND NOT (sw_writer_mask w)) = of_nat (card (sharers w - writers w))"
proof -
  have "mask_bits (sw_reader_mask w AND NOT (sw_writer_mask w)) = sharers w - writers w"
    by (auto simp: sharers_def writers_def mask_bits_def bit_and_iff bit_or_iff bit_not_iff dest: bit_imp_le_length)
  then show "popcount32 (sw_reader_mask w OR sw_writer_mask w) = of_nat (card (sharers w))"
    "popcount32 (sw_writer_mask w) = of_nat (card (writers w))"
    "popcount32 (sw_reader_mask w AND NOT (sw_writer_mask w)) = of_nat (card (sharers w - writers w))"
    by (simp_all add: popcount32_eq(1) sharers_def writers_def)
qed

lemma card_sharers: "card (sharers w) \<le> 32" "card (writers w) \<le> 32" "card (sharers w - writers w) \<le> 32"
proof -
  show "card (sharers w) \<le> 32" "card (writers w) \<le> 32" by (simp_all only: sharers_def writers_def card_mask_bits)
  have "mask_bits (sw_reader_mask w AND NOT (sw_writer_mask w)) = sharers w - writers w"
    by (auto simp: sharers_def writers_def mask_bits_def bit_and_iff bit_or_iff bit_not_iff dest: bit_imp_le_length)
  then show "card (sharers w - writers w) \<le> 32" using card_mask_bits by metis
qed

lemma pairs_u32:
  assumes "n \<le> 32"
  shows "(if 1 < (of_nat n :: u32) then of_nat n * (of_nat n - 1) div 2 else 0) = (of_nat (n choose 2) :: u32)"
proof -
  have "unat (of_nat n :: u32) = n" using assms by (intro unat_of_nat_small) simp
  then have g: "1 < (of_nat n :: u32) \<longleftrightarrow> 1 < n" by (simp add: word_less_nat_alt)
  show ?thesis
  proof (cases "1 < n")
    case True
    have "(of_nat n :: u32) * (of_nat n - 1) = of_nat (n * (n - 1))" using True by (simp add: of_nat_diff)
    also have "\<dots> div 2 = of_nat (n * (n - 1) div 2)"
    proof (rule unat_eqI)
      have "n * (n - 1) \<le> 32 * 31" using assms by (intro mult_le_mono) auto
      then have "unat (of_nat (n * (n - 1)) :: u32) = n * (n - 1)"
        "unat (of_nat (n * (n - 1) div 2) :: u32) = n * (n - 1) div 2"
        by (intro unat_of_nat_small, simp)+
      then show "unat ((of_nat (n * (n - 1)) :: u32) div 2) = unat (of_nat (n * (n - 1) div 2) :: u32)"
        by (simp only: unat_div) simp
    qed
    finally show ?thesis using True g by (simp add: choose_two)
  next
    case False
    then have "n = 0 \<or> n = 1" by linarith
    then show ?thesis using g False by (auto simp: choose_two)
  qed
qed

lemma accumulate_eq:
  assumes "sw_active w"
  shows "ps_active_domains (accumulate_pressure_window w s) = ps_active_domains s"
    and "ps_total_budget_bytes (accumulate_pressure_window w s) = ps_total_budget_bytes s"
    and "ps_active_windows (accumulate_pressure_window w s) = ps_active_windows s + 1"
    and "ps_shared_windows (accumulate_pressure_window w s) = ps_shared_windows s + (if 1 < card (sharers w) then 1 else 0)"
    and "ps_participant_links (accumulate_pressure_window w s) = ps_participant_links s + of_nat (card (sharers w))"
    and "ps_writer_links (accumulate_pressure_window w s) = ps_writer_links s + of_nat (card (writers w))"
    and "ps_writer_pairs (accumulate_pressure_window w s) = ps_writer_pairs s + of_nat (card (writers w) choose 2)"
    and "ps_read_write_pairs (accumulate_pressure_window w s)
      = ps_read_write_pairs s + of_nat (card (writers w) * card (sharers w - writers w))"
    and "unat (ps_max_fanout (accumulate_pressure_window w s)) = max (unat (ps_max_fanout s)) (card (sharers w))"
    and "unat (ps_shared_bytes (accumulate_pressure_window w s)) = min (2 ^ 64 - 1) (unat (ps_shared_bytes s) + shared_bytes w)"
    and "unat (ps_weighted_shared_bytes (accumulate_pressure_window w s))
      = min (2 ^ 64 - 1) (unat (ps_weighted_shared_bytes s) + weighted_bytes w)"
proof -
  have u: "unat (of_nat (card (sharers w)) :: u32) = card (sharers w)"
    using card_sharers(1) [of w] by (intro unat_of_nat_small) simp
  then have g: "1 < (of_nat (card (sharers w)) :: u32) \<longleftrightarrow> 1 < card (sharers w)"
    "x < (of_nat (card (sharers w)) :: u32) \<longleftrightarrow> unat x < card (sharers w)" for x
    by (simp_all add: word_less_nat_alt)
  have b: "unat x \<le> 2 ^ 64 - 1" for x :: u64 using word_bounds(1) [of x] by simp
  note d = accumulate_pressure_window_def sharers_popcount Let_def g
  let ?s = "accumulate_pressure_window w s"
  show "ps_active_domains ?s = ps_active_domains s" "ps_total_budget_bytes ?s = ps_total_budget_bytes s"
    "ps_active_windows ?s = ps_active_windows s + 1"
    "ps_shared_windows ?s = ps_shared_windows s + (if 1 < card (sharers w) then 1 else 0)"
    "ps_participant_links ?s = ps_participant_links s + of_nat (card (sharers w))"
    "ps_writer_links ?s = ps_writer_links s + of_nat (card (writers w))"
    "ps_read_write_pairs ?s = ps_read_write_pairs s + of_nat (card (writers w) * card (sharers w - writers w))"
    using assms by (simp_all add: d)
  show "ps_writer_pairs ?s = ps_writer_pairs s + of_nat (card (writers w) choose 2)"
    using assms by (simp add: d flip: pairs_u32 [OF card_sharers(2)])
  show "unat (ps_max_fanout ?s) = max (unat (ps_max_fanout s)) (card (sharers w))"
    using assms by (simp add: d u max_def)
  show "unat (ps_shared_bytes ?s) = min (2 ^ 64 - 1) (unat (ps_shared_bytes s) + shared_bytes w)"
    using assms b [of "ps_shared_bytes s"] by (simp add: d shared_bytes_def sat_add_eq)
  show "unat (ps_weighted_shared_bytes ?s) = min (2 ^ 64 - 1) (unat (ps_weighted_shared_bytes s) + weighted_bytes w)"
    using assms b [of "ps_weighted_shared_bytes s"] by (simp add: d weighted_bytes_def sat_add_eq sat_mul_eq u min_def)
qed

lemma accumulate_inactive: "\<not> sw_active w \<Longrightarrow> accumulate_pressure_window w s = s"
  by (simp add: accumulate_pressure_window_def)

lemma fold_counts:
  "let s' = fold accumulate_pressure_window ws s in
     ps_active_domains s' = ps_active_domains s \<and> ps_total_budget_bytes s' = ps_total_budget_bytes s
   \<and> ps_active_windows s' = ps_active_windows s + of_nat (window_sum (\<lambda>w. 1) ws)
   \<and> ps_shared_windows s' = ps_shared_windows s + of_nat (window_sum (\<lambda>w. if 1 < card (sharers w) then 1 else 0) ws)
   \<and> ps_participant_links s' = ps_participant_links s + of_nat (window_sum (\<lambda>w. card (sharers w)) ws)
   \<and> ps_writer_links s' = ps_writer_links s + of_nat (window_sum (\<lambda>w. card (writers w)) ws)
   \<and> ps_writer_pairs s' = ps_writer_pairs s + of_nat (window_sum (\<lambda>w. card (writers w) choose 2) ws)
   \<and> ps_read_write_pairs s'
      = ps_read_write_pairs s + of_nat (window_sum (\<lambda>w. card (writers w) * card (sharers w - writers w)) ws)"
proof (induction ws arbitrary: s)
  case (Cons w ws)
  then show ?case by (cases "sw_active w") (simp_all add: Let_def accumulate_inactive accumulate_eq)
qed simp

lemma fold_fanout:
  "unat (ps_max_fanout (fold accumulate_pressure_window ws s))
    = fold (\<lambda>w. max (card (sharers w))) (filter sw_active ws) (unat (ps_max_fanout s))"
  by (induction ws arbitrary: s) (auto simp: accumulate_inactive accumulate_eq max.commute)

lemma fold_bytes:
  "unat (ps_shared_bytes (fold accumulate_pressure_window ws s))
    = min (2 ^ 64 - 1) (unat (ps_shared_bytes s) + window_sum shared_bytes ws)
   \<and> unat (ps_weighted_shared_bytes (fold accumulate_pressure_window ws s))
    = min (2 ^ 64 - 1) (unat (ps_weighted_shared_bytes s) + window_sum weighted_bytes ws)"
proof (induction ws arbitrary: s)
  case Nil
  have "unat x \<le> 2 ^ 64 - 1" for x :: u64 using word_bounds(1) [of x] by simp
  then show ?case by simp
next
  case (Cons w ws)
  then show ?case by (cases "sw_active w") (simp_all add: accumulate_inactive accumulate_eq min_def)
qed

lemma domain_fold:
  fixes s0 :: pressure_snapshot
  defines "step \<equiv> \<lambda>d out. if \<not> md_active d then out
              else out\<lparr>ps_active_domains := ps_active_domains out + 1,
                       ps_total_budget_bytes := sat_add_u64 (ps_total_budget_bytes out)
                         (ucast (md_local_budget_kib d) * KB 1)\<rparr>"
  shows "\<exists>a b. fold step ds s0 = s0\<lparr>ps_active_domains := a, ps_total_budget_bytes := b\<rparr>
    \<and> a = ps_active_domains s0 + of_nat (length (filter md_active ds))
    \<and> unat b = min (2 ^ 64 - 1) (unat (ps_total_budget_bytes s0) + budget_bytes ds)"
proof (induction ds arbitrary: s0)
  case Nil
  have "unat (ps_total_budget_bytes s0) \<le> 2 ^ 64 - 1" using word_bounds(1) [of "ps_total_budget_bytes s0"] by simp
  then show ?case by (intro exI [of _ "ps_active_domains s0"] exI [of _ "ps_total_budget_bytes s0"]) (simp add: budget_bytes_def)
next
  case (Cons d ds)
  show ?case
  proof (cases "md_active d")
    case True
    have u: "unat (ucast (md_local_budget_kib d) * KB 1 :: u64) = unat (md_local_budget_kib d) * 1024"
      using word_bounds(2) [of "md_local_budget_kib d"]
      by (simp add: KB_def unat_word_ariths unsigned_ucast_eq take_bit_nat_eq_self)
    have e: "fold step (d # ds) s0 = fold step ds (step d s0)" by simp
    have s: "step d s0 = s0\<lparr>ps_active_domains := ps_active_domains s0 + 1,
        ps_total_budget_bytes := sat_add_u64 (ps_total_budget_bytes s0) (ucast (md_local_budget_kib d) * KB 1)\<rparr>"
      using True by (simp add: step_def)
    show ?thesis unfolding e using Cons.IH [of "step d s0"] True
      by (elim exE, intro exI) (auto simp: s sat_add_eq u budget_bytes_def min_def)
  next
    case False
    then have "fold step (d # ds) s0 = fold step ds s0" by (simp add: step_def)
    then show ?thesis using Cons.IH [of s0] False by (simp add: budget_bytes_def)
  qed
qed

lemma window_sum_le:
  assumes "\<And>w. g w \<le> b" and "length ws \<le> 64"
  shows "window_sum g ws \<le> 64 * b"
proof -
  have "window_sum g ws \<le> length ws * b" by (induction ws) (auto intro: add_mono assms(1) le_trans)
  also have "\<dots> \<le> 64 * b" using assms(2) by simp
  finally show ?thesis .
qed

lemma unat_window_sum:
  assumes "\<And>w. g w \<le> 1024" and "length ws \<le> 64"
  shows "unat (of_nat (window_sum g ws) :: u32) = window_sum g ws"
  using window_sum_le [of g 1024, OF assms] by (intro unat_of_nat_small) simp

lemma fold_max: "fold (\<lambda>w. max (g w)) xs a = Max (insert (a :: nat) (g ` set xs))"
proof (induction xs arbitrary: a)
  case (Cons x xs)
  have "fold (\<lambda>w. max (g w)) (x # xs) a = Max (insert (max (g x) a) (g ` set xs))" using Cons by simp
  also have "\<dots> = Max (insert a (g ` set (x # xs)))" by (cases "xs = []") (simp_all add: ac_simps)
  finally show ?case .
qed simp

lemma snapshot_counts:
  assumes len: "length ws \<le> 64"
    and z: "ps_active_windows s = 0" "ps_shared_windows s = 0" "ps_participant_links s = 0"
    "ps_writer_links s = 0" "ps_writer_pairs s = 0" "ps_read_write_pairs s = 0" "ps_max_fanout s = 0"
  defines "s' \<equiv> fold accumulate_pressure_window ws s"
  shows "ps_active_domains s' = ps_active_domains s \<and> ps_total_budget_bytes s' = ps_total_budget_bytes s
    \<and> unat (ps_active_windows s') = length (filter sw_active ws)
    \<and> unat (ps_shared_windows s') = length (filter (\<lambda>w. 1 < card (sharers w)) (filter sw_active ws))
    \<and> unat (ps_participant_links s') = window_sum (\<lambda>w. card (sharers w)) ws
    \<and> unat (ps_writer_links s') = window_sum (\<lambda>w. card (writers w)) ws
    \<and> unat (ps_writer_pairs s') = window_sum (\<lambda>w. card (writers w) choose 2) ws
    \<and> unat (ps_read_write_pairs s') = window_sum (\<lambda>w. card (writers w) * card (sharers w - writers w)) ws
    \<and> unat (ps_max_fanout s') = Max (insert 0 ((\<lambda>w. card (sharers w)) ` set (filter sw_active ws)))"
proof -
  have b: "card (sharers w) \<le> 1024" "card (writers w) \<le> 1024" "card (writers w) * card (sharers w - writers w) \<le> 1024"
    "card (writers w) choose 2 \<le> 1024" for w
    using card_sharers [of w] mult_le_mono [OF card_sharers(2,3) [of w]]
      mult_le_mono [of "card (writers w)" 32 "card (writers w) - 1" 32] by (auto simp: choose_two intro: le_trans [OF div_le_dividend])
  have n: "window_sum (\<lambda>w. 1) ws = length (filter sw_active ws)"
    "window_sum (\<lambda>w. if 1 < card (sharers w) then 1 else 0) ws = length (filter (\<lambda>w. 1 < card (sharers w)) (filter sw_active ws))"
    by (induction ws) auto
  have u: "unat (of_nat (length (filter P xs)) :: u32) = length (filter P xs)" if "length xs \<le> 64" for P and xs :: "shared_window list"
  proof (rule unat_of_nat_small)
    show "length (filter P xs) < 2 ^ LENGTH(32)" using length_filter_le [of P xs] that by (simp del: length_filter_le)
  qed
  have "length (filter sw_active ws) \<le> 64" using length_filter_le [of sw_active ws] len by (rule le_trans)
  note us = u [OF len, of sw_active] u [OF this, of "\<lambda>w. 1 < card (sharers w)"]
  note sums = unat_window_sum [OF b(1) len] unat_window_sum [OF b(2) len] unat_window_sum [OF b(3) len] unat_window_sum [OF b(4) len]
  show ?thesis
    using fold_counts [of ws s] unfolding s'_def fold_fanout fold_max Let_def n z
    by (elim conjE) (simp only: us sums add_0_left unsigned_0 simp_thms)
qed

section \<open>Authority\<close>

lemma find_domain_locked_nth:
  assumes "fabric_ok f" and "k < length (fb_domains f)"
  shows "find_domain_locked (of_nat (Suc k)) f = Some k"
proof -
  have d: "md_active (fb_domains f ! j)" "md_domain_id (fb_domains f ! j) = of_nat (Suc j)" if "j \<le> k" for j
    using assms that by (simp_all add: fabric_ok_def)
  have "md_domain_id (fb_domains f ! j) \<noteq> of_nat (Suc k)" if "j < k" for j
  proof -
    have "k < 16" using assms by (simp add: fabric_ok_def)
    then have "unat (of_nat (Suc j) :: u32) = Suc j" "unat (of_nat (Suc k) :: u32) = Suc k"
      using that by (intro unat_of_nat_small; simp)+
    then show ?thesis using that d(2) [of j] by (metis less_imp_le nat.inject nat_neq_iff)
  qed
  then show ?thesis using assms(2) d [of k] by (auto simp: find_domain_locked_def find_Some_iff simp del: of_nat_Suc)
qed

lemma mask_test_domain:
  assumes "fabric_ok f" and "find_domain_locked did f = Some j"
  shows "m AND domain_bit did = 0 \<longleftrightarrow> j \<notin> mask_bits m"
  using find_domain_locked_ok [OF assms] mask_test [of j m] assms(1) by (simp add: fabric_ok_def del: of_nat_Suc)

lemma active_window_ok:
  assumes "fabric_ok f" and "find_window_locked wid f = Some i"
  shows "mask_bits (sw_writer_mask (fb_windows f ! i)) \<subseteq> mask_bits (sw_reader_mask (fb_windows f ! i))
    \<and> (\<exists>k < length (fb_domains f). sw_owner_domain_id (fb_windows f ! i) = of_nat (Suc k)
         \<and> k \<in> mask_bits (sw_writer_mask (fb_windows f ! i)))"
  using find_index_SomeD [OF assms(2) [unfolded find_window_locked_def]] assms(1)
  by (auto simp: fabric_ok_def window_ok_def simp del: of_nat_Suc)

lemma attach_permitted:
  assumes ok: "fabric_ok f" and i: "find_window_locked wid f = Some i" and j: "find_domain_locked did f = Some j"
    and m: "j \<in> mask_bits (if wr then sw_writer_mask (fb_windows f ! i) else sw_reader_mask (fb_windows f ! i))"
  shows "fst (memory_fabric_window_attach now wid did wr f) = AIOS_OK"
proof -
  note t = mask_test_domain [OF ok j]
  have "j \<in> mask_bits (sw_reader_mask (fb_windows f ! i))" using m active_window_ok [OF ok i] by (auto split: if_split_asm)
  moreover from this have "domain_bit did \<noteq> 0" using t [of "sw_reader_mask (fb_windows f ! i)"] by auto
  ultimately show ?thesis using m i j by (simp add: memory_fabric_window_attach_def Let_def t split: if_split_asm)
qed

lemma example_init: "fabric_run strict t example_fabric t"
  by (rule fabric_run.init [of 5 example_env _ "fst (memory_fabric_init 5 example_env
     \<lparr>fb_profile = compute_profile example_env, fb_domains = [], fb_windows = [], fb_next_domain_id = 0, fb_next_window_id = 0\<rparr>)"])
    (simp add: example_fabric_def)

lemma example_domains: "length (fb_domains example_fabric) = 4" and example_no_windows: "fb_windows example_fabric = []"
  by code_simp+

lemma example_share_eq:
  "memory_fabric_window_share 9 1 7 4 2 2 True example_fabric example_tmm = Some (AIOS_OK, Some 1, example_shared, example_taken)"
proof -
  have "memory_fabric_window_share 9 1 7 4 2 2 True example_fabric example_tmm \<noteq> None
    \<and> fst (example_share 4) = AIOS_OK \<and> fst (snd (example_share 4)) = Some 1" by code_simp
  then show ?thesis by (auto simp: example_share_def example_shared_def example_taken_def)
qed

lemma example_mask: "mask_open example_fabric (4 OR 2)"
proof -
  have "mask_bits 4 = {2}" "mask_bits 2 = {1}" using mask_bits_exp [of 2] mask_bits_exp [of 1] by simp_all
  moreover have "length (fb_domains example_fabric) = 4" by code_simp
  ultimately show ?thesis unfolding mask_open_def mask_bits_simps(2) by simp
qed

lemma example_run: "fabric_run True example_tmm example_shared example_taken"
  by (intro fabric_run.share [OF example_init _ example_share_eq] impI example_mask)

lemma example_roomy: "roomy_counts example_tmm"
proof -
  have l: "unat (tm_count example_tmm) = 1" by code_simp
  have "live example_tmm = [tm_table example_tmm 0]" unfolding live_def l by simp
  moreover have "tensor_ref_counts example_tmm tid = (if tid = 7 then Some 1 else None)" for tid
    unfolding tensor_ref_counts_def find_tensor_def l by (simp add: example_tmm_def)
  ultimately show ?thesis
    by (auto simp: roomy_counts_def tensors_ok_def example_tmm_def tmm_boot_def split: if_split_asm)
qed

text \<open>
  The accounts after a share from a state with exact accounts: those of the open domains stay exact,
  and the first domain not yet open takes part in one window if the masks name it.
\<close>

lemma share_counts:
  assumes ok: "fabric_ok f" and ex: "accounts_exact f" and s: "share_success now owner tid rm wm access f t f'"
  shows "length (fb_domains f') = length (fb_domains f)"
    and "j < length (fb_domains f) \<Longrightarrow> unat (md_attached_windows (fb_domains f' ! j)) = window_load f' j"
    and "length (fb_domains f) \<in> mask_bits (rm OR wm) \<Longrightarrow> window_load f' (length (fb_domains f)) = 1"
proof -
  from s obtain tensor o' i f1 where p: "find_domain_locked owner f = Some o'" "alloc_window_slot_locked f = Some (i, f1)"
    "f' = shared_fabric now owner tid rm wm access tensor o' i f1" unfolding share_success_def by blast
  let ?w = "new_window now (fb_next_window_id f1) owner tid rm wm access tensor" and ?g = "md_last_activity_ns_update (\<lambda>_. now)"
  let ?m = "sw_reader_mask ?w OR sw_writer_mask ?w"
  have f': "f' = swap_window i ?w ?m 1 o' ?g (fb_next_window_id f1 + 1) f1" by (simp add: p(3) shared_fabric_def Let_def)
  have o: "o' < 32" "owner = of_nat (Suc o')" using find_domain_locked_ok [OF ok p(1)] ok by (simp_all add: fabric_ok_def)
  from alloc_slot_ok [OF ok p(2)] ex have a: "fabric_ok f1" "accounts_exact f1" "i < length (fb_windows f1)"
    "\<not> sw_active (fb_windows f1 ! i)" "fb_domains f1 = fb_domains f" by blast+
  have load: "window_load f' q = window_load f1 q + (if q \<in> sharers ?w then 1 else 0)" for q
    using window_load_update [OF a(3), of ?w q] a(4) by (simp add: f' swap_window_def window_load_def)
  show "length (fb_domains f') = length (fb_domains f)" by (simp add: f' swap_window_def accounted_def a(5))
  show "unat (md_attached_windows (fb_domains f' ! j)) = window_load f' j" if j: "j < length (fb_domains f)"
  proof -
    have "j < length (fb_domains f1)" using j a(5) by simp
    from accounted_nth(3) [OF a(1) this, of ?g ?m o'] show ?thesis
      using a(2,5) j load [of j] by (simp add: f' swap_window_def accounts_exact_def sharers_def)
  qed
  assume m: "length (fb_domains f) \<in> mask_bits (rm OR wm)"
  have "window_load f1 (length (fb_domains f)) = 0"
    using a(2,5) by (auto simp: window_load_def filter_empty_conv accounts_exact_def)
  then show "window_load f' (length (fb_domains f)) = 1"
    using load [of "length (fb_domains f)"] m sharers_new_window [OF o(1)] by (simp add: o(2))
qed

text \<open>A share on a manager state that the operations reach, with one live tensor.\<close>

lemma reachable_share:
  "\<exists>t tid f1 t1. tmm_run 0x200000 t \<and> roomy_counts t \<and> tensor_ref_counts t tid = Some 1
     \<and> memory_fabric_window_share 9 1 tid rm wm 2 True example_fabric t = Some (AIOS_OK, Some 1, f1, t1)"
proof -
  obtain t ta where t: "tmm_run 0x200000 t" "tensors_ok t" "live t = [ta]" "ta_ref_count ta = 1" "ta_id ta \<noteq> 0"
    using live_example by blast
  have one: "tid = ta_id ta \<and> c = 1" if c: "tensor_ref_counts t tid = Some c" for tid c
  proof -
    from c obtain i where i: "find_tensor tid t = Some i" "c = ta_ref_count (tm_table t i)" by (auto simp: tensor_ref_counts_def)
    then show ?thesis using find_tensor_spec(2) [OF i(1)] t(3,4) by auto
  qed
  have "find_tensor (ta_id ta) t \<noteq> None" using t(3) find_tensor_spec(1) [of "ta_id ta" t] by simp
  then obtain c where "tensor_ref_counts t (ta_id ta) = Some c" by (auto simp: tensor_ref_counts_def)
  then have c: "tensor_ref_counts t (ta_id ta) = Some 1" using one by blast
  have room: "roomy_counts t" unfolding roomy_counts_def
  proof (intro conjI allI impI)
    fix tid c assume "tensor_ref_counts t tid = Some c"
    then have c1: "c = 1" using one by blast
    show "0 < c" "unat c + MEMORY_FABRIC_MAX_WINDOWS + 1 < 2 ^ 32" by (simp_all add: c1)
  qed (rule t(2))
  obtain d t1 where dt: "tensor_info (ta_id ta) True t = (AIOS_OK, Some d)" "tensor_ref (ta_id ta) t = (AIOS_OK, t1)"
    using tr.info_live [OF t(2) c] tr.ref_live [OF t(2) c] by blast
  have e: "find_domain_locked 1 example_fabric = Some 0" "alloc_window_slot_locked example_fabric \<noteq> None"
    "fb_next_window_id (snd (the (alloc_window_slot_locked example_fabric))) = 1" by code_simp+
  then obtain i f1 where f1: "alloc_window_slot_locked example_fabric = Some (i, f1)" "fb_next_window_id f1 = 1" by auto
  then have "memory_fabric_window_share 9 1 (ta_id ta) rm wm 2 True example_fabric t
      = Some (AIOS_OK, Some 1, shared_fabric 9 1 (ta_id ta) rm wm 2 d 0 i f1, t1)"
    using share_found [OF t(5) dt, of 9 1 rm wm 2 True example_fabric] e(1) by simp
  then show ?thesis using t(1) room c by blast
qed

section \<open>Properties\<close>

text \<open>
  C29: Along any sequence of fabric calls whose shares name open domains only, the
  attached-window count of every domain is exactly the number of active windows that the domain
  takes part in as a reader or a writer.
\<close>

theorem domain_accounts_exact:
  assumes "fabric_run True t0 f t" and "k < length (fb_domains f)"
  shows "unat (md_attached_windows (fb_domains f ! k)) = window_load f k"
  using run_ok [OF assms(1)] assms(2) by (simp add: accounts_exact_def)

text \<open>
  C30: Without that restriction the count of a domain is too low.  Take any state that shares of
  open domains only have reached.  When a share then succeeds whose masks name the domain that
  will be opened next, and that domain is opened, its attached-window count is 0 although it takes
  part in one active window; the counts of all other domains are still exact.
\<close>

theorem domain_accounts_undercount:
  assumes run: "fabric_run True t0 f t" and k: "k = length (fb_domains f)" "k \<in> mask_bits (rm OR wm)"
    and share: "memory_fabric_window_share now owner tid rm wm access has_out f t = Some (AIOS_OK, wout, f1, t1)"
    and opn: "memory_fabric_domain_open now' role prio rt zc budget has_dout f1 = (AIOS_OK, dout, f2)"
  shows "length (fb_domains f2) = Suc k \<and> md_attached_windows (fb_domains f2 ! k) = 0 \<and> window_load f2 k = 1
    \<and> (\<forall>j < k. unat (md_attached_windows (fb_domains f2 ! j)) = window_load f2 j)"
proof -
  have ok: "fabric_ok f" "accounts_exact f" using run_ok [OF run] by simp_all
  have s: "share_success now owner tid rm wm access f t f1" using share_fabric_cases [OF share] by simp
  note sh = share_counts [OF ok s]
  from domain_open_eq [OF opn [unfolded memory_fabric_domain_open_def]] obtain d where
    d: "f2 = f1\<lparr>fb_domains := fb_domains f1 @ [d], fb_next_domain_id := fb_next_domain_id f1 + 1\<rparr>" "md_attached_windows d = 0"
    by auto
  have "window_load f2 j = window_load f1 j" for j by (simp add: d(1) window_load_def)
  then show ?thesis using sh k d by (simp add: nth_append)
qed

text \<open>
  C28: A domain attaches to a window exactly when the window is active, the domain is open, and
  the domain is among the window's readers, or among its writers when write access is asked
  for.  A refused attach changes nothing, and the owner of a window is never refused.
\<close>

theorem window_attach_authorised:
  assumes run: "fabric_run strict t0 f t" and e: "memory_fabric_window_attach now wid did wr f = (st, f')"
  shows "(st = AIOS_OK \<longleftrightarrow> (\<exists>i j. find_window_locked wid f = Some i \<and> find_domain_locked did f = Some j
            \<and> j \<in> mask_bits (if wr then sw_writer_mask (fb_windows f ! i) else sw_reader_mask (fb_windows f ! i))))
    \<and> (st \<noteq> AIOS_OK \<longrightarrow> f' = f)
    \<and> (\<forall>i. find_window_locked wid f = Some i \<longrightarrow> did = sw_owner_domain_id (fb_windows f ! i) \<longrightarrow> st = AIOS_OK)"
proof -
  have ok: "fabric_ok f" using run_ok [OF run] by blast
  have use: "st = AIOS_OK" if i: "find_window_locked wid f = Some i" and j: "find_domain_locked did f = Some j"
    and m: "j \<in> mask_bits (if wr then sw_writer_mask (fb_windows f ! i) else sw_reader_mask (fb_windows f ! i))" for i j
    using attach_permitted [OF ok i j m, of now] e by simp
  have owner: "st = AIOS_OK" if i: "find_window_locked wid f = Some i" and d: "did = sw_owner_domain_id (fb_windows f ! i)" for i
  proof -
    from active_window_ok [OF ok i] obtain k where k: "k < length (fb_domains f)" "did = of_nat (Suc k)"
      "k \<in> mask_bits (sw_writer_mask (fb_windows f ! i))" "k \<in> mask_bits (sw_reader_mask (fb_windows f ! i))"
      using d by auto
    from use [OF i] find_domain_locked_nth [OF ok k(1)] k(2-4) show ?thesis by simp
  qed
  have "\<exists>i j. find_window_locked wid f = Some i \<and> find_domain_locked did f = Some j
      \<and> j \<in> mask_bits (if wr then sw_writer_mask (fb_windows f ! i) else sw_reader_mask (fb_windows f ! i))"
    if "st = AIOS_OK"
  proof -
    from attach_cases [OF e] that obtain i j where ij: "find_window_locked wid f = Some i" "find_domain_locked did f = Some j"
      "sw_reader_mask (fb_windows f ! i) AND domain_bit did \<noteq> 0"
      "wr \<longrightarrow> sw_writer_mask (fb_windows f ! i) AND domain_bit did \<noteq> 0" by blast
    then show ?thesis using mask_test_domain [OF ok ij(2)] by auto
  qed
  moreover have "st \<noteq> AIOS_OK \<longrightarrow> f' = f" using attach_cases [OF e] by blast
  ultimately show ?thesis using use owner by blast
qed

text \<open>
  C27: Windows hold one tensor reference each.  Along any sequence of fabric calls that starts
  from a tensor manager whose counts leave room, every tensor's count is its count at the
  start plus the number of active windows on it, nothing else of the manager has changed,
  and once no window is active the manager is exactly as it was.
\<close>

theorem window_references_balanced:
  assumes "roomy_counts t0" and "fabric_run strict t0 f t"
  shows "without_counts t = without_counts t0
    \<and> (\<forall>tid. tensor_ref_counts t tid = map_option (\<lambda>c. c + of_nat (windows_on f tid)) (tensor_ref_counts t0 tid))
    \<and> ((\<forall>w \<in> set (fb_windows f). \<not> sw_active w) \<longrightarrow> t = t0)"
proof -
  note bal = run_refs [OF assms]
  have "t = t0" if "\<forall>w \<in> set (fb_windows f). \<not> sw_active w"
  proof (rule tr.state_eq)
    show "tensors_ok t" "tensors_ok t0" "without_counts t = without_counts t0"
      using bal assms(1) by (simp_all add: refs_balanced_def roomy_counts_def)
    have "windows_on f tid = 0" for tid using that by (simp add: windows_on_def filter_empty_conv)
    then show "tensor_ref_counts t = tensor_ref_counts t0"
      using bal by (simp add: refs_balanced_def fun_eq_iff option.map_ident)
  qed
  then show ?thesis using bal by (simp add: refs_balanced_def)
qed

text \<open>
  C31: The pressure snapshot reports what the fabric holds: the numbers of open domains, active
  windows and windows with several participants, the participant and writer links, the pairs
  of writers and of a writer with a reader, the widest sharing, and the budget and shared
  bytes, which stop at the largest 64-bit value.
\<close>

theorem pressure_read_meaning:
  assumes "fabric_run strict t0 f t"
  shows "\<exists>s. memory_fabric_pressure_read True f = (AIOS_OK, Some s)
    \<and> unat (ps_active_domains s) = length (fb_domains f)
    \<and> unat (ps_active_windows s) = length (filter sw_active (fb_windows f))
    \<and> unat (ps_shared_windows s) = length (filter (\<lambda>w. 1 < card (sharers w)) (filter sw_active (fb_windows f)))
    \<and> unat (ps_participant_links s) = window_sum (\<lambda>w. card (sharers w)) (fb_windows f)
    \<and> unat (ps_writer_links s) = window_sum (\<lambda>w. card (writers w)) (fb_windows f)
    \<and> unat (ps_writer_pairs s) = window_sum (\<lambda>w. card (writers w) choose 2) (fb_windows f)
    \<and> unat (ps_read_write_pairs s) = window_sum (\<lambda>w. card (writers w) * card (sharers w - writers w)) (fb_windows f)
    \<and> unat (ps_max_fanout s) = Max (insert 0 ((\<lambda>w. card (sharers w)) ` set (filter sw_active (fb_windows f))))
    \<and> unat (ps_total_budget_bytes s) = min (2 ^ 64 - 1) (budget_bytes (fb_domains f))
    \<and> unat (ps_shared_bytes s) = min (2 ^ 64 - 1) (window_sum shared_bytes (fb_windows f))
    \<and> unat (ps_weighted_shared_bytes s) = min (2 ^ 64 - 1) (window_sum weighted_bytes (fb_windows f))"
proof -
  have ok: "fabric_ok f" using run_ok [OF assms] by blast
  let ?ws = "fb_windows f" and ?ds = "fb_domains f"
  have len: "length ?ws \<le> 64" "length ?ds \<le> 16" using ok by (simp_all add: fabric_ok_def)
  have act: "filter md_active ?ds = ?ds" using ok by (intro filter_True) (auto simp: fabric_ok_def in_set_conv_nth)
  from domain_fold [of ?ds zero_snapshot] obtain a b where s1:
    "memory_fabric_pressure_read True f = (AIOS_OK, Some (fold accumulate_pressure_window ?ws
       (zero_snapshot\<lparr>ps_active_domains := a, ps_total_budget_bytes := b\<rparr>)))"
    "a = of_nat (length ?ds)" "unat b = min (2 ^ 64 - 1) (budget_bytes ?ds)"
    by (auto simp: memory_fabric_pressure_read_def Let_def act zero_snapshot_def)
  let ?s0 = "zero_snapshot\<lparr>ps_active_domains := a, ps_total_budget_bytes := b\<rparr>"
  have u: "unat (of_nat (length ?ds) :: u32) = length ?ds" using len(2) by (intro unat_of_nat_small) simp
  show ?thesis
    by (intro exI [of _ "fold accumulate_pressure_window ?ws ?s0"])
      (use s1 u snapshot_counts [OF len(1), of ?s0] fold_bytes [of ?ws ?s0] in \<open>simp add: Let_def zero_snapshot_def\<close>)
qed

section \<open>Witnesses\<close>

theorem domain_accounts_exact_witness:
  "fabric_run True example_tmm example_shared example_taken
   \<and> unat (md_attached_windows (fb_domains example_shared ! 2)) = window_load example_shared 2"
proof -
  have "2 < length (fb_domains example_shared)" by code_simp
  from example_run domain_accounts_exact [OF example_run this] show ?thesis by blast
qed

theorem window_attach_authorised_witness:
  "fabric_run True example_tmm example_shared example_taken
   \<and> fst (memory_fabric_window_attach 20 1 1 True example_shared) = AIOS_OK
   \<and> memory_fabric_window_attach 20 1 3 True example_shared = (AIOS_ERR_PERM, example_shared)"
proof -
  have w: "find_window_locked 1 example_shared = Some 0" "sw_owner_domain_id (fb_windows example_shared ! 0) = 1"
    "fst (memory_fabric_window_attach 20 1 3 True example_shared) = AIOS_ERR_PERM" by code_simp+
  note a = window_attach_authorised [OF example_run prod.collapse [symmetric]]
  show ?thesis
    using example_run w a [of 20 1 1 True] a [of 20 1 3 True] by (auto intro: prod_eqI)
qed

theorem domain_accounts_undercount_witness:
  "\<exists>t tid f1 t1 dout f2. tmm_run 0x200000 t
     \<and> memory_fabric_window_share 9 1 tid 16 2 2 True example_fabric t = Some (AIOS_OK, Some 1, f1, t1)
     \<and> memory_fabric_domain_open 11 DOMAIN_ROLE_WORKER 90 False False 512 True f1 = (AIOS_OK, dout, f2)
     \<and> md_attached_windows (fb_domains f2 ! 4) = 0 \<and> window_load f2 4 = 1"
proof -
  from reachable_share [of 16 2] obtain t tid f1 t1 where r: "tmm_run 0x200000 t"
    and s: "memory_fabric_window_share 9 1 tid 16 2 2 True example_fabric t = Some (AIOS_OK, Some 1, f1, t1)" by blast
  have run: "fabric_run True t example_fabric t" by (rule example_init)
  have l: "4 = length (fb_domains example_fabric)" by (simp add: example_domains)
  have m: "4 \<in> mask_bits (16 OR 2)" unfolding mask_bits_simps(2) using mask_bits_exp [of 4] by simp
  have "share_success 9 1 tid 16 2 2 example_fabric t f1" using share_fabric_cases [OF s] by simp
  then have "length (fb_domains f1) = 4"
    using share_counts(1) run_ok [OF run] l by metis
  then obtain dout f2 where o: "memory_fabric_domain_open 11 DOMAIN_ROLE_WORKER 90 False False 512 True f1 = (AIOS_OK, dout, f2)"
    by (auto simp: memory_fabric_domain_open_def domain_open_internal_def Let_def)
  from domain_accounts_undercount [OF run l m s o] r s o show ?thesis by blast
qed

theorem window_references_balanced_witness:
  "\<exists>t0 tid f t. tmm_run 0x200000 t0 \<and> roomy_counts t0 \<and> fabric_run True t0 f t \<and> windows_on f tid = 1
     \<and> tensor_ref_counts t0 tid = Some 1 \<and> tensor_ref_counts t tid = Some 2 \<and> without_counts t = without_counts t0"
proof -
  from reachable_share [of 4 2] obtain t0 tid f t where r: "tmm_run 0x200000 t0" "roomy_counts t0" "tensor_ref_counts t0 tid = Some 1"
    and s: "memory_fabric_window_share 9 1 tid 4 2 2 True example_fabric t0 = Some (AIOS_OK, Some 1, f, t)" by blast
  have run0: "fabric_run True t0 example_fabric t0" by (rule example_init)
  have run: "fabric_run True t0 f t" by (intro fabric_run.share [OF run0 _ s] impI example_mask)
  have "share_success 9 1 tid 4 2 2 example_fabric t0 f" using share_fabric_cases [OF s] by simp
  then have "windows_on f tid = windows_on example_fabric tid + 1"
    using share_success_ok(3) [of example_fabric, OF conjunct1 [OF run_ok [OF run0]]] by simp
  then have w: "windows_on f tid = 1" using example_no_windows by (simp add: windows_on_def)
  then have "tensor_ref_counts t tid = Some 2" "without_counts t = without_counts t0"
    using window_references_balanced [OF r(2) run] r(3) by simp_all
  then show ?thesis using r run w by blast
qed

theorem pressure_read_meaning_witness:
  "fabric_run True example_tmm example_shared example_taken
   \<and> (\<exists>s. memory_fabric_pressure_read True example_shared = (AIOS_OK, Some s)
        \<and> unat (ps_active_domains s) = length (fb_domains example_shared)
        \<and> unat (ps_writer_pairs s) = window_sum (\<lambda>w. card (writers w) choose 2) (fb_windows example_shared))"
  using example_run pressure_read_meaning [OF example_run] by blast

end
