(* ===== verification/AI_Sched.thy ===== *)
theory AI_Sched
  imports Linked_List "HOL-Library.Monad_Syntax"
begin

text \<open>
  The AI workload scheduler of \<^verbatim>\<open>kernel/sched/ai_sched.c\<close>: six run queues, one per policy,
  each a doubly linked list of task control blocks in \<^verbatim>\<open>task_pool\<close> ordered by virtual
  runtime.  A pointer to a task is its index in the pool.  Policies keep their C
  representation, because the code receives them from callers unchecked.  The readings of
  the monotonic clock are arguments.  A call whose result is \<open>None\<close> has no defined result: a
  walk around a cyclic queue that never ends, a division by a zero weight, or a read
  outside \<^verbatim>\<open>run_queues\<close>.
\<close>

section \<open>Data\<close>

abbreviation SCHED_POLICY_REALTIME :: u32 where "SCHED_POLICY_REALTIME \<equiv> 0"
abbreviation SCHED_POLICY_INFERENCE :: u32 where "SCHED_POLICY_INFERENCE \<equiv> 1"
abbreviation SCHED_POLICY_TRAINING :: u32 where "SCHED_POLICY_TRAINING \<equiv> 2"
abbreviation SCHED_POLICY_PREPROCESS :: u32 where "SCHED_POLICY_PREPROCESS \<equiv> 3"
abbreviation SCHED_POLICY_BACKGROUND :: u32 where "SCHED_POLICY_BACKGROUND \<equiv> 4"
abbreviation SCHED_POLICY_COUNT :: u32 where "SCHED_POLICY_COUNT \<equiv> 6"

abbreviation NUM_PRIORITY_LEVELS :: nat where "NUM_PRIORITY_LEVELS \<equiv> 6"
abbreviation MAX_TASKS :: u32 where "MAX_TASKS \<equiv> 256"
abbreviation DEFAULT_TIME_SLICE :: u64 where "DEFAULT_TIME_SLICE \<equiv> 10000000"
abbreviation RT_TIME_SLICE :: u64 where "RT_TIME_SLICE \<equiv> 1000000"
abbreviation TRAINING_TIME_SLICE :: u64 where "TRAINING_TIME_SLICE \<equiv> 100000000"

datatype task_state =
    TASK_STATE_READY | TASK_STATE_RUNNING | TASK_STATE_WAITING_GPU | TASK_STATE_WAITING_MEM
  | TASK_STATE_WAITING_IO | TASK_STATE_WAITING_DATA | TASK_STATE_SUSPENDED | TASK_STATE_COMPLETED
  | TASK_STATE_FAILED

record accel_affinity =
  af_preferred_accel :: u32
  af_accel_mask :: u32
  af_strict_affinity :: bool

text \<open>The priority is a signed 32-bit integer.\<close>

record sched_params =
  sp_policy :: u32
  sp_priority :: "32 word"
  sp_deadline_ns :: u64
  sp_time_slice_ns :: u64
  sp_batch_size :: u32
  sp_affinity :: accel_affinity

record ai_task =
  at_id :: u32
  at_pid :: u32
  at_name :: string
  at_state :: task_state
  at_workload :: u32
  at_sched :: sched_params
  at_vruntime :: u64
  at_exec_time :: u64
  at_wait_time :: u64
  at_start_time :: u64
  at_last_ready_ns :: u64
  at_last_scheduled :: u64
  at_model_id :: u32
  at_accel_id :: u32
  at_mem_usage :: u64
  at_compute_ops :: u64
  at_current_batch :: u32
  at_total_batches :: u32
  at_next :: "nat option"
  at_prev :: "nat option"

record sched_stats =
  ss_total_tasks :: u64
  ss_active_tasks :: u64
  ss_completed_tasks :: u64
  ss_failed_tasks :: u64
  ss_context_switches :: u64
  ss_preemptions :: u64
  ss_avg_latency_ns :: u64
  ss_avg_wait_ns :: u64
  ss_gpu_utilization :: u64

record queue_snapshot =
  qs_queue_count :: u32
  qs_queued_tasks :: u32
  qs_runnable_tasks :: u32
  qs_largest_queue :: u32
  qs_largest_queue_policy :: u32
  qs_running :: bool
  qs_running_policy :: u32
  qs_queue_sizes :: "u32 list"

record sched =
  sc_tasks :: "nat \<Rightarrow> ai_task"
  sc_next :: u32
  sc_next_id :: u32
  sc_queues :: "nat \<Rightarrow> nat option"
  sc_sizes :: "nat \<Rightarrow> u32"
  sc_current :: "nat option"
  sc_stats :: sched_stats
  sc_tick_count :: u64
  sc_ready :: bool

definition zero_params :: sched_params where
  "zero_params = \<lparr>sp_policy = 0, sp_priority = 0, sp_deadline_ns = 0, sp_time_slice_ns = 0, sp_batch_size = 0,
     sp_affinity = \<lparr>af_preferred_accel = 0, af_accel_mask = 0, af_strict_affinity = False\<rparr>\<rparr>"

definition zero_sched_stats :: sched_stats where
  "zero_sched_stats = \<lparr>ss_total_tasks = 0, ss_active_tasks = 0, ss_completed_tasks = 0, ss_failed_tasks = 0,
     ss_context_switches = 0, ss_preemptions = 0, ss_avg_latency_ns = 0, ss_avg_wait_ns = 0, ss_gpu_utilization = 0\<rparr>"

text \<open>The static variables as the loader leaves them.\<close>

definition sched_boot :: sched where
  "sched_boot = \<lparr>sc_tasks = (\<lambda>_. \<lparr>at_id = 0, at_pid = 0, at_name = [], at_state = TASK_STATE_READY, at_workload = 0,
        at_sched = zero_params, at_vruntime = 0, at_exec_time = 0, at_wait_time = 0, at_start_time = 0,
        at_last_ready_ns = 0, at_last_scheduled = 0, at_model_id = 0, at_accel_id = 0, at_mem_usage = 0,
        at_compute_ops = 0, at_current_batch = 0, at_total_batches = 0, at_next = None, at_prev = None\<rparr>),
     sc_next = 0, sc_next_id = 1, sc_queues = (\<lambda>_. None), sc_sizes = (\<lambda>_. 0), sc_current = None,
     sc_stats = zero_sched_stats, sc_tick_count = 0, sc_ready = False\<rparr>"

section \<open>Helpers\<close>

definition set_task :: "nat \<Rightarrow> (ai_task \<Rightarrow> ai_task) \<Rightarrow> sched \<Rightarrow> sched" where
  "set_task i f s = s\<lparr>sc_tasks := upd (sc_tasks s) i f\<rparr>"

definition alloc_task :: "sched \<Rightarrow> nat option \<times> sched" where
  "alloc_task s =
     (if MAX_TASKS \<le> sc_next s then (None, s)
      else let task = unat (sc_next s);
               m1 = upd (sc_tasks s) task (at_next_update (\<lambda>_. None));
               m2 = upd m1 task (at_prev_update (\<lambda>_. None))
           in (Some task, s\<lparr>sc_next := sc_next s + 1, sc_tasks := m2\<rparr>))"

definition find_task :: "u32 \<Rightarrow> sched \<Rightarrow> nat option" where
  "find_task tid s = find (\<lambda>i. at_id (sc_tasks s i) = tid) [0..<unat (sc_next s)]"

text \<open>The queue a task belongs to: its policy, or the last level when the policy is out of range.\<close>

definition task_level :: "ai_task \<Rightarrow> nat" where
  "task_level t = (if NUM_PRIORITY_LEVELS \<le> unat (sp_policy (at_sched t)) then NUM_PRIORITY_LEVELS - 1
     else unat (sp_policy (at_sched t)))"

text \<open>The position in the queue, and the links around the task.\<close>

definition link_task :: "nat \<Rightarrow> nat \<Rightarrow> sched \<Rightarrow> sched option" where
  "link_task task level s =
     (let m = sc_tasks s; head = sc_queues s level in
      case head of
        None \<Rightarrow>
          let m1 = upd m task (at_next_update (\<lambda>_. None));
              m2 = upd m1 task (at_prev_update (\<lambda>_. None))
          in Some (s\<lparr>sc_tasks := m2, sc_queues := (sc_queues s)(level := Some task)\<rparr>)
      | Some h \<Rightarrow>
          if at_vruntime (m task) < at_vruntime (m h) then
            let m1 = upd m task (at_next_update (\<lambda>_. Some h));
                m2 = upd m1 task (at_prev_update (\<lambda>_. None));
                m3 = upd m2 h (at_prev_update (\<lambda>_. Some task))
            in Some (s\<lparr>sc_tasks := m3, sc_queues := (sc_queues s)(level := Some task)\<rparr>)
          else do {
            curr \<leftarrow> walk (\<lambda>r. at_next (m r)) (\<lambda>r. at_vruntime (m r) \<le> at_vruntime (m task)) h;
            let m1 = upd m task (at_next_update (\<lambda>_. at_next (m curr)));
            let m2 = upd m1 task (at_prev_update (\<lambda>_. Some curr));
            let m3 = upd_opt m2 (at_next (m2 curr)) (at_prev_update (\<lambda>_. Some task));
            let m4 = upd m3 curr (at_next_update (\<lambda>_. Some task));
            Some (s\<lparr>sc_tasks := m4\<rparr>)
          })"

definition enqueue_task :: "u64 \<Rightarrow> nat \<Rightarrow> sched \<Rightarrow> sched option" where
  "enqueue_task now task s =
     (let level = task_level (sc_tasks s task) in do {
        s1 \<leftarrow> link_task task level s;
        Some (set_task task (\<lambda>t. t\<lparr>at_state := TASK_STATE_READY, at_last_ready_ns := now\<rparr>)
          (s1\<lparr>sc_sizes := (sc_sizes s1)(level := sc_sizes s1 level + 1)\<rparr>))
      })"

definition dequeue_task :: "nat \<Rightarrow> sched \<Rightarrow> sched" where
  "dequeue_task task s =
     (let level = task_level (sc_tasks s task);
          m = sc_tasks s;
          (m1, q1) = (case at_prev (m task) of
              Some p \<Rightarrow> (upd m p (at_next_update (\<lambda>_. at_next (m task))), sc_queues s)
            | None \<Rightarrow> (m, (sc_queues s)(level := at_next (m task))));
          m2 = upd_opt m1 (at_next (m1 task)) (at_prev_update (\<lambda>_. at_prev (m1 task)));
          m3 = upd m2 task (at_next_update (\<lambda>_. None));
          m4 = upd m3 task (at_prev_update (\<lambda>_. None))
      in s\<lparr>sc_tasks := m4, sc_queues := q1, sc_sizes := (sc_sizes s)(level := sc_sizes s level - 1)\<rparr>)"

definition calc_weight :: "sched_params \<Rightarrow> u64" where
  "calc_weight params =
     (let base_weight = (if sp_policy params = SCHED_POLICY_REALTIME then 1
        else if sp_policy params = SCHED_POLICY_INFERENCE then 4
        else if sp_policy params = SCHED_POLICY_TRAINING then 16
        else if sp_policy params = SCHED_POLICY_PREPROCESS then 32
        else if sp_policy params = SCHED_POLICY_BACKGROUND then 64
        else 128)
      in base_weight + scast (sp_priority params))"

definition update_vruntime :: "nat \<Rightarrow> u64 \<Rightarrow> sched \<Rightarrow> sched option" where
  "update_vruntime task delta_ns s =
     (let weight = calc_weight (at_sched (sc_tasks s task)) in
      if weight = 0 then None
      else Some (set_task task (\<lambda>t. t\<lparr>at_vruntime := at_vruntime t + delta_ns div weight,
                                   at_exec_time := at_exec_time t + delta_ns\<rparr>) s))"

section \<open>Operations\<close>

definition ai_sched_init :: "sched \<Rightarrow> aios_status \<times> sched" where
  "ai_sched_init s =
     (AIOS_OK, s\<lparr>sc_queues := (\<lambda>level. if level < NUM_PRIORITY_LEVELS then None else sc_queues s level),
                 sc_sizes := (\<lambda>level. if level < NUM_PRIORITY_LEVELS then 0 else sc_sizes s level),
                 sc_stats := zero_sched_stats, sc_current := None, sc_tick_count := 0, sc_ready := True\<rparr>)"

definition ai_sched_default_params :: "u32 \<Rightarrow> sched_params option \<Rightarrow> sched_params option" where
  "ai_sched_default_params policy params =
     map_option (\<lambda>p.
       let p = p\<lparr>sp_policy := policy, sp_priority := 128, sp_deadline_ns := 0, sp_batch_size := 1,
                 sp_affinity := \<lparr>af_preferred_accel = 0, af_accel_mask = 0xFFFFFFFF, af_strict_affinity = False\<rparr>\<rparr>
       in if policy = SCHED_POLICY_REALTIME
          then p\<lparr>sp_priority := 0, sp_time_slice_ns := RT_TIME_SLICE, sp_deadline_ns := 5 * 1000000\<rparr>
          else if policy = SCHED_POLICY_INFERENCE
          then p\<lparr>sp_priority := 32, sp_time_slice_ns := DEFAULT_TIME_SLICE\<rparr>
          else if policy = SCHED_POLICY_TRAINING
          then p\<lparr>sp_priority := 128, sp_time_slice_ns := TRAINING_TIME_SLICE, sp_batch_size := 32\<rparr>
          else if policy = SCHED_POLICY_PREPROCESS
          then p\<lparr>sp_priority := 192, sp_time_slice_ns := DEFAULT_TIME_SLICE\<rparr>
          else if policy = SCHED_POLICY_BACKGROUND
          then p\<lparr>sp_priority := 255, sp_time_slice_ns := DEFAULT_TIME_SLICE * 2\<rparr>
          else p\<lparr>sp_time_slice_ns := DEFAULT_TIME_SLICE\<rparr>) params"

definition count_created :: "sched_stats \<Rightarrow> sched_stats" where
  "count_created st = st\<lparr>ss_total_tasks := ss_total_tasks st + 1, ss_active_tasks := ss_active_tasks st + 1\<rparr>"

definition ai_task_create ::
  "u64 \<Rightarrow> string \<Rightarrow> u32 \<Rightarrow> sched_params option \<Rightarrow> bool \<Rightarrow> sched \<Rightarrow> aios_status \<times> nat option \<times> sched" where
  "ai_task_create now name workload params has_out s =
     (case params of
        None \<Rightarrow> (AIOS_ERR_INVAL, None, s)
      | Some p \<Rightarrow>
          if \<not> has_out then (AIOS_ERR_INVAL, None, s)
          else case alloc_task s of
            (None, s1) \<Rightarrow> (AIOS_ERR_NOMEM, None, s1)
          | (Some task, s1) \<Rightarrow>
              let tid = sc_next_id s1;
                  s2 = set_task task (\<lambda>t. t\<lparr>at_id := tid, at_pid := tid, at_name := name, at_state := TASK_STATE_READY,
                         at_workload := workload, at_sched := p, at_vruntime := 0, at_exec_time := 0, at_wait_time := 0,
                         at_start_time := now, at_last_ready_ns := now, at_last_scheduled := 0, at_model_id := 0,
                         at_accel_id := 0, at_mem_usage := 0, at_compute_ops := 0, at_current_batch := 0,
                         at_total_batches := sp_batch_size p\<rparr>) (s1\<lparr>sc_next_id := tid + 1\<rparr>)
              in (AIOS_OK, Some task, s2\<lparr>sc_stats := count_created (sc_stats s2)\<rparr>))"

text \<open>What destroying and suspending a task do first.\<close>

definition take_off :: "nat \<Rightarrow> sched \<Rightarrow> sched" where
  "take_off task s =
     (if at_state (sc_tasks s task) = TASK_STATE_RUNNING then s\<lparr>sc_current := None\<rparr>
      else if at_state (sc_tasks s task) = TASK_STATE_READY then dequeue_task task s else s)"

definition ai_task_destroy :: "u32 \<Rightarrow> sched \<Rightarrow> aios_status \<times> sched" where
  "ai_task_destroy tid s =
     (case find_task tid s of
        None \<Rightarrow> (AIOS_ERR_INVAL, s)
      | Some task \<Rightarrow>
          let s1 = set_task task (at_state_update (\<lambda>_. TASK_STATE_COMPLETED)) (take_off task s)
          in (AIOS_OK, s1\<lparr>sc_stats := (sc_stats s1)\<lparr>ss_active_tasks := ss_active_tasks (sc_stats s1) - 1,
                 ss_completed_tasks := ss_completed_tasks (sc_stats s1) + 1\<rparr>\<rparr>))"

definition ai_task_submit :: "u64 \<Rightarrow> u32 \<Rightarrow> sched \<Rightarrow> (aios_status \<times> sched) option" where
  "ai_task_submit now tid s =
     (case find_task tid s of
        None \<Rightarrow> Some (AIOS_ERR_INVAL, s)
      | Some task \<Rightarrow>
          if at_state (sc_tasks s task) \<noteq> TASK_STATE_READY \<and> at_state (sc_tasks s task) \<noteq> TASK_STATE_SUSPENDED
          then Some (AIOS_ERR_INVAL, s)
          else
            let level = unat (sp_policy (at_sched (sc_tasks s task))) in
            if NUM_PRIORITY_LEVELS \<le> level then None
            else
              let s1 = (case sc_queues s level of
                          Some h \<Rightarrow> set_task task (at_vruntime_update (\<lambda>_. at_vruntime (sc_tasks s h))) s
                        | None \<Rightarrow> s)
              in do { s2 \<leftarrow> enqueue_task now task s1; Some (AIOS_OK, s2) })"

definition ai_task_suspend :: "u32 \<Rightarrow> sched \<Rightarrow> aios_status \<times> sched" where
  "ai_task_suspend tid s =
     (case find_task tid s of
        None \<Rightarrow> (AIOS_ERR_INVAL, s)
      | Some task \<Rightarrow> (AIOS_OK, set_task task (at_state_update (\<lambda>_. TASK_STATE_SUSPENDED)) (take_off task s)))"

definition ai_task_resume :: "u64 \<Rightarrow> u32 \<Rightarrow> sched \<Rightarrow> (aios_status \<times> sched) option" where
  "ai_task_resume now tid s =
     (case find_task tid s of
        None \<Rightarrow> Some (AIOS_ERR_INVAL, s)
      | Some task \<Rightarrow>
          if at_state (sc_tasks s task) \<noteq> TASK_STATE_SUSPENDED then Some (AIOS_ERR_INVAL, s)
          else do { s1 \<leftarrow> enqueue_task now task s; Some (AIOS_OK, s1) })"

definition ai_task_set_priority :: "u64 \<Rightarrow> u32 \<Rightarrow> 32 word \<Rightarrow> sched \<Rightarrow> (aios_status \<times> sched) option" where
  "ai_task_set_priority now tid priority s =
     (case find_task tid s of
        None \<Rightarrow> Some (AIOS_ERR_INVAL, s)
      | Some task \<Rightarrow>
          let was_queued = (at_state (sc_tasks s task) = TASK_STATE_READY);
              s1 = (if was_queued then dequeue_task task s else s);
              s2 = set_task task (at_sched_update (sp_priority_update (\<lambda>_. priority))) s1
          in if was_queued then do { s3 \<leftarrow> enqueue_task now task s2; Some (AIOS_OK, s3) } else Some (AIOS_OK, s2))"

definition ai_task_get_priority :: "u32 \<Rightarrow> bool \<Rightarrow> sched \<Rightarrow> aios_status \<times> 32 word option" where
  "ai_task_get_priority tid has_out s =
     (if \<not> has_out then (AIOS_ERR_INVAL, None)
      else case find_task tid s of
        None \<Rightarrow> (AIOS_ERR_INVAL, None)
      | Some task \<Rightarrow> (AIOS_OK, Some (sp_priority (at_sched (sc_tasks s task)))))"

text \<open>A real-time task that has run for longer than its deadline.\<close>

definition deadline_missed :: "nat \<Rightarrow> ai_task \<Rightarrow> bool" where
  "deadline_missed level t \<longleftrightarrow> level = 0 \<and> 0 < sp_deadline_ns (at_sched t) \<and> sp_deadline_ns (at_sched t) < at_exec_time t"

definition fail_task :: "nat \<Rightarrow> sched \<Rightarrow> sched" where
  "fail_task task s =
     (let s1 = set_task task (at_state_update (\<lambda>_. TASK_STATE_FAILED)) (dequeue_task task s)
      in s1\<lparr>sc_stats := (sc_stats s1)\<lparr>ss_failed_tasks := ss_failed_tasks (sc_stats s1) + 1,
              ss_active_tasks := ss_active_tasks (sc_stats s1) - 1\<rparr>\<rparr>)"

definition dispatch_task :: "u64 \<Rightarrow> nat \<Rightarrow> sched \<Rightarrow> sched" where
  "dispatch_task now task s =
     (let s1 = set_task task (\<lambda>t. t\<lparr>at_state := TASK_STATE_RUNNING, at_last_scheduled := now,
                 at_wait_time := at_wait_time t + (now - at_last_ready_ns t)\<rparr>) (dequeue_task task s);
          s2 = (if sc_current s1 \<noteq> Some task
                then s1\<lparr>sc_stats := (sc_stats s1)\<lparr>ss_context_switches := ss_context_switches (sc_stats s1) + 1\<rparr>\<rparr>
                else s1)
      in s2\<lparr>sc_current := Some task\<rparr>)"

fun pick_from :: "u64 \<Rightarrow> nat list \<Rightarrow> sched \<Rightarrow> nat option \<times> sched" where
  "pick_from now [] s = (None, s)"
| "pick_from now (level # levels) s =
     (case sc_queues s level of
        None \<Rightarrow> pick_from now levels s
      | Some task \<Rightarrow>
          if deadline_missed level (sc_tasks s task) then pick_from now levels (fail_task task s)
          else (Some task, dispatch_task now task s))"

definition ai_sched_pick_next :: "u64 \<Rightarrow> sched \<Rightarrow> nat option \<times> sched" where
  "ai_sched_pick_next now s = pick_from now [0..<NUM_PRIORITY_LEVELS] s"

text \<open>
  Whether a queue above a policy has a waiting task.  The loop runs up to the policy itself, so
  it leaves \<^verbatim>\<open>run_queues\<close> when the policy is above 6 and no queue is occupied.
\<close>

definition higher_waiting :: "u32 \<Rightarrow> sched \<Rightarrow> bool option" where
  "higher_waiting policy s =
     (if \<exists>level \<in> set [0..<min (unat policy) NUM_PRIORITY_LEVELS]. sc_queues s level \<noteq> None then Some True
      else if NUM_PRIORITY_LEVELS < unat policy then None else Some False)"

definition requeue_current :: "u64 \<Rightarrow> nat \<Rightarrow> sched \<Rightarrow> sched option" where
  "requeue_current now task s = enqueue_task now task (s\<lparr>sc_current := None\<rparr>)"

definition count_preemption :: "sched \<Rightarrow> sched" where
  "count_preemption s = s\<lparr>sc_stats := (sc_stats s)\<lparr>ss_preemptions := ss_preemptions (sc_stats s) + 1\<rparr>\<rparr>"

definition ai_sched_tick :: "u64 \<Rightarrow> u64 \<Rightarrow> sched \<Rightarrow> sched option" where
  "ai_sched_tick now_ns ready_ns s =
     (let s1 = s\<lparr>sc_tick_count := sc_tick_count s + 1\<rparr> in
      case sc_current s1 of
        None \<Rightarrow> Some s1
      | Some task \<Rightarrow>
          let elapsed_ns = now_ns - at_last_scheduled (sc_tasks s1 task) in do {
            s2 \<leftarrow> update_vruntime task elapsed_ns s1;
            if sp_time_slice_ns (at_sched (sc_tasks s2 task)) \<le> elapsed_ns then requeue_current ready_ns task s2
            else do {
              waiting \<leftarrow> higher_waiting (sp_policy (at_sched (sc_tasks s2 task))) s2;
              if waiting then map_option count_preemption (requeue_current ready_ns task s2) else Some s2
            }
          })"

definition ai_sched_yield :: "u64 \<Rightarrow> sched \<Rightarrow> sched option" where
  "ai_sched_yield now s = (case sc_current s of None \<Rightarrow> Some s | Some task \<Rightarrow> requeue_current now task s)"

definition ai_sched_preempt :: "u64 \<Rightarrow> u32 \<Rightarrow> sched \<Rightarrow> sched option" where
  "ai_sched_preempt now tid s =
     (case find_task tid s of
        None \<Rightarrow> Some s
      | Some task \<Rightarrow>
          if at_state (sc_tasks s task) \<noteq> TASK_STATE_RUNNING then Some s
          else map_option count_preemption (requeue_current now task s))"

text \<open>The loop of the batch submission; the submission number \<open>n\<close> reads \<open>clock n\<close>.\<close>

fun batch_from :: "(nat \<Rightarrow> u64) \<Rightarrow> nat \<Rightarrow> nat option list \<Rightarrow> sched \<Rightarrow> (aios_status \<times> sched) option" where
  "batch_from clock n [] s = Some (AIOS_OK, s)"
| "batch_from clock n (None # tasks) s = batch_from clock n tasks s"
| "batch_from clock n (Some task # tasks) s =
     do { (status, s1) \<leftarrow> ai_task_submit (clock n) (at_id (sc_tasks s task)) s;
          if status \<noteq> AIOS_OK then Some (status, s1) else batch_from clock (Suc n) tasks s1 }"

definition ai_sched_batch_submit :: "(nat \<Rightarrow> u64) \<Rightarrow> nat option list option \<Rightarrow> sched \<Rightarrow> (aios_status \<times> sched) option" where
  "ai_sched_batch_submit clock tasks s =
     (case tasks of
        None \<Rightarrow> Some (AIOS_ERR_INVAL, s)
      | Some ts \<Rightarrow> if ts = [] then Some (AIOS_ERR_INVAL, s) else batch_from clock 0 ts s)"

definition ai_sched_stats :: "bool \<Rightarrow> sched \<Rightarrow> sched_stats option" where
  "ai_sched_stats has_out s = (if \<not> has_out then None else Some (sc_stats s))"

definition snapshot_queue :: "sched \<Rightarrow> nat \<Rightarrow> queue_snapshot \<Rightarrow> queue_snapshot" where
  "snapshot_queue s i out =
     (let out1 = out\<lparr>qs_queue_sizes := (qs_queue_sizes out)[i := sc_sizes s i],
                     qs_queued_tasks := qs_queued_tasks out + sc_sizes s i\<rparr>
      in if qs_largest_queue out1 < sc_sizes s i
         then out1\<lparr>qs_largest_queue := sc_sizes s i, qs_largest_queue_policy := of_nat i\<rparr> else out1)"

definition ai_sched_queue_snapshot :: "bool \<Rightarrow> sched \<Rightarrow> aios_status \<times> queue_snapshot option" where
  "ai_sched_queue_snapshot has_out s =
     (if \<not> has_out \<or> \<not> sc_ready s then (AIOS_ERR_INVAL, None)
      else
        let out = \<lparr>qs_queue_count = SCHED_POLICY_COUNT, qs_queued_tasks = 0, qs_runnable_tasks = 0, qs_largest_queue = 0,
              qs_largest_queue_policy = SCHED_POLICY_COUNT, qs_running = (sc_current s \<noteq> None),
              qs_running_policy = (case sc_current s of Some task \<Rightarrow> sp_policy (at_sched (sc_tasks s task))
                                   | None \<Rightarrow> SCHED_POLICY_COUNT), qs_queue_sizes = replicate 6 0\<rparr>;
            out1 = fold (snapshot_queue s) [0..<NUM_PRIORITY_LEVELS] out
        in (AIOS_OK, Some (out1\<lparr>qs_runnable_tasks := qs_queued_tasks out1 + (if qs_running out1 then 1 else 0)\<rparr>)))"

end
