(* ===== verification/AI_Sched_Inv.thy ===== *)
theory AI_Sched_Inv
  imports AI_Sched
begin

text \<open>
  The invariant of the scheduler: the run queues are linked lists in the order of virtual
  runtime, they hold exactly the waiting tasks, and at most one task runs.  A step takes one
  task out of its queue or off the processor and gives it a new state; the lemmas follow
  that shape.
\<close>

section \<open>What the run queues promise\<close>

interpretation tq: linked_nodes at_next at_prev at_next_update at_prev_update
  by unfold_locales simp_all

text \<open>A task without its links.\<close>

definition tcore :: "ai_task \<Rightarrow> ai_task" where
  "tcore t = t\<lparr>at_next := None, at_prev := None\<rparr>"

definition by_vruntime :: "(nat \<Rightarrow> ai_task) \<Rightarrow> nat list \<Rightarrow> bool" where
  "by_vruntime m xs \<longleftrightarrow> sorted_wrt (\<lambda>x y. at_vruntime (m x) \<le> at_vruntime (m y)) xs"

text \<open>The six queues \<open>qs\<close> hold exactly the tasks \<open>Q\<close>, each in the queue of its level.\<close>

definition queues_ok :: "sched \<Rightarrow> nat set \<Rightarrow> (nat \<Rightarrow> nat list) \<Rightarrow> bool" where
  "queues_ok s Q qs \<longleftrightarrow> (\<forall>l < NUM_PRIORITY_LEVELS.
     tq.chain (sc_tasks s) (sc_queues s l) (qs l) \<and> by_vruntime (sc_tasks s) (qs l)
   \<and> set (qs l) = {i \<in> Q. task_level (sc_tasks s i) = l} \<and> sc_sizes s l = of_nat (length (qs l)))"

definition params_ok :: "sched_params \<Rightarrow> bool" where
  "params_ok p \<longleftrightarrow> unat (sp_policy p) < NUM_PRIORITY_LEVELS \<and> calc_weight p \<noteq> 0"

text \<open>
  The tasks that wait in a run queue: the ready ones, except the ones in \<open>fr\<close>, which have been created
  but not submitted.
\<close>

definition queued :: "sched \<Rightarrow> nat set \<Rightarrow> nat set" where
  "queued s fr = {i. i < unat (sc_next s) \<and> at_state (sc_tasks s i) = TASK_STATE_READY \<and> i \<notin> fr}"

definition tasks_ok :: "sched \<Rightarrow> bool" where
  "tasks_ok s \<longleftrightarrow> sc_next s \<le> MAX_TASKS \<and> sc_next_id s = sc_next s + 1
     \<and> (\<forall>i < unat (sc_next s). at_id (sc_tasks s i) = of_nat (Suc i) \<and> params_ok (at_sched (sc_tasks s i)))"

definition sched_inv :: "sched \<Rightarrow> nat set \<Rightarrow> bool" where
  "sched_inv s fr \<longleftrightarrow> tasks_ok s \<and> (\<exists>qs. queues_ok s (queued s fr) qs)
     \<and> (\<forall>i. sc_current s = Some i \<longleftrightarrow> i < unat (sc_next s) \<and> at_state (sc_tasks s i) = TASK_STATE_RUNNING)
     \<and> fr \<subseteq> {i. i < unat (sc_next s) \<and> at_state (sc_tasks s i) = TASK_STATE_READY}"

text \<open>
  The states that a disciplined caller reaches, with the set of tasks not yet submitted:
  every task is submitted once after its creation and not destroyed, suspended or
  re-prioritised before that; policies are in range and weights not zero; and a task is
  picked only when none is running.
\<close>

inductive sched_run :: "sched \<Rightarrow> nat set \<Rightarrow> bool" where
  init: "ai_sched_init sched_boot = (st, s) \<Longrightarrow> sched_run s {}"
| create: "sched_run s fr \<Longrightarrow> (\<forall>p. params = Some p \<longrightarrow> params_ok p) \<Longrightarrow>
    ai_task_create now name w params has_out s = (st, out, s') \<Longrightarrow> sched_run s' (fr \<union> set_option out)"
| submit: "sched_run s fr \<Longrightarrow> (\<forall>i. find_task tid s = Some i \<longrightarrow> i \<notin> queued s fr) \<Longrightarrow>
    ai_task_submit now tid s = Some (st, s') \<Longrightarrow> sched_run s' (fr - set_option (find_task tid s))"
| destroy: "sched_run s fr \<Longrightarrow> (\<forall>i. find_task tid s = Some i \<longrightarrow> i \<notin> fr) \<Longrightarrow>
    ai_task_destroy tid s = (st, s') \<Longrightarrow> sched_run s' fr"
| suspend: "sched_run s fr \<Longrightarrow> (\<forall>i. find_task tid s = Some i \<longrightarrow> i \<notin> fr) \<Longrightarrow>
    ai_task_suspend tid s = (st, s') \<Longrightarrow> sched_run s' fr"
| resume: "sched_run s fr \<Longrightarrow> ai_task_resume now tid s = Some (st, s') \<Longrightarrow> sched_run s' fr"
| set_priority: "sched_run s fr \<Longrightarrow>
    (\<forall>i. find_task tid s = Some i \<longrightarrow> i \<notin> fr \<and> params_ok ((at_sched (sc_tasks s i))\<lparr>sp_priority := prio\<rparr>)) \<Longrightarrow>
    ai_task_set_priority now tid prio s = Some (st, s') \<Longrightarrow> sched_run s' fr"
| pick: "sched_run s fr \<Longrightarrow> sc_current s = None \<Longrightarrow> ai_sched_pick_next now s = (out, s') \<Longrightarrow> sched_run s' fr"
| tick: "sched_run s fr \<Longrightarrow> ai_sched_tick now ready s = Some s' \<Longrightarrow> sched_run s' fr"
| yield: "sched_run s fr \<Longrightarrow> ai_sched_yield now s = Some s' \<Longrightarrow> sched_run s' fr"
| preempt: "sched_run s fr \<Longrightarrow> ai_sched_preempt now tid s = Some s' \<Longrightarrow> sched_run s' fr"

text \<open>
  A step changes one task \<open>i\<close>.  In \<open>mid i s fr t\<close>, \<open>t\<close> is the state in which \<open>i\<close> has left its queue
  and the processor, and everything else is as in \<open>s\<close>.
\<close>

definition mid :: "nat \<Rightarrow> sched \<Rightarrow> nat set \<Rightarrow> sched \<Rightarrow> bool" where
  "mid i s fr t \<longleftrightarrow> (\<exists>qs. queues_ok t (queued s fr - {i}) qs)
     \<and> (\<forall>x. x \<noteq> i \<longrightarrow> tcore (sc_tasks t x) = tcore (sc_tasks s x))
     \<and> at_id (sc_tasks t i) = at_id (sc_tasks s i) \<and> params_ok (at_sched (sc_tasks t i))
     \<and> sc_next t = sc_next s \<and> sc_next_id t = sc_next_id s
     \<and> sc_current t = (if sc_current s = Some i then None else sc_current s)"

lemma tcore_fields:
  assumes "tcore a = tcore b"
  shows "at_id a = at_id b" "at_state a = at_state b" "at_sched a = at_sched b" "at_vruntime a = at_vruntime b"
    "at_exec_time a = at_exec_time b" "at_last_scheduled a = at_last_scheduled b" "task_level a = task_level b"
proof -
  show "at_id a = at_id b" "at_state a = at_state b" "at_sched a = at_sched b" "at_vruntime a = at_vruntime b"
    "at_exec_time a = at_exec_time b" "at_last_scheduled a = at_last_scheduled b"
    using arg_cong [OF assms, of at_id] arg_cong [OF assms, of at_state] arg_cong [OF assms, of at_sched]
      arg_cong [OF assms, of at_vruntime] arg_cong [OF assms, of at_exec_time] arg_cong [OF assms, of at_last_scheduled]
    by (simp_all add: tcore_def)
  then show "task_level a = task_level b" by (simp add: task_level_def)
qed

lemma tcore_links [simp]: "tcore (at_next_update f t) = tcore t" "tcore (at_prev_update f t) = tcore t"
  by (simp_all add: tcore_def)

lemma tcore_state: "tcore (t\<lparr>at_state := x\<rparr>) = (tcore t)\<lparr>at_state := x\<rparr>"
  by (simp add: tcore_def)

lemma tcore_upd [simp]:
  "tcore (upd m r (at_next_update f) x) = tcore (m x)" "tcore (upd m r (at_prev_update f) x) = tcore (m x)"
  "tcore (upd_opt m o' (at_next_update f) x) = tcore (m x)" "tcore (upd_opt m o' (at_prev_update f) x) = tcore (m x)"
  by (auto simp: upd_def upd_opt_def split: option.split)

lemma task_level_less: "task_level t < NUM_PRIORITY_LEVELS"
  by (simp add: task_level_def)

lemma by_vruntime_cong:
  assumes "\<And>x. x \<in> set xs \<Longrightarrow> at_vruntime (m' x) = at_vruntime (m x)"
  shows "by_vruntime m' xs = by_vruntime m xs"
  unfolding by_vruntime_def using assms by (auto intro!: sorted_wrt_mono_rel simp: sorted_wrt_iff_nth_less)

lemma by_vruntime_insert:
  fixes m task
  defines "P \<equiv> \<lambda>x. at_vruntime (m x) \<le> at_vruntime (m task)"
  assumes "by_vruntime m xs"
  shows "by_vruntime m (takeWhile P xs @ task # dropWhile P xs)"
proof -
  have s: "by_vruntime m (takeWhile P xs @ dropWhile P xs)" using assms(2) by simp
  have le: "at_vruntime (m task) \<le> at_vruntime (m y)" if y: "y \<in> set (dropWhile P xs)" for y
  proof -
    obtain z zs where z: "dropWhile P xs = z # zs" using y by (cases "dropWhile P xs") auto
    then have "\<not> P z" using hd_dropWhile [of P xs] by simp
    moreover have "y = z \<or> at_vruntime (m z) \<le> at_vruntime (m y)"
      using s y z by (auto simp: by_vruntime_def sorted_wrt_append)
    ultimately show ?thesis by (auto simp: P_def)
  qed
  have "P x" if "x \<in> set (takeWhile P xs)" for x using set_takeWhileD [OF that] by simp
  then have "at_vruntime (m x) \<le> at_vruntime (m task)" if "x \<in> set (takeWhile P xs)" for x using that by (simp add: P_def)
  then show ?thesis using s le unfolding by_vruntime_def sorted_wrt_append by (auto intro: order_trans)
qed

lemma link_task_spec:
  fixes s task l xs
  defines "P \<equiv> \<lambda>x. at_vruntime (sc_tasks s x) \<le> at_vruntime (sc_tasks s task)"
  assumes ch: "tq.chain (sc_tasks s) (sc_queues s l) xs" and t: "task \<notin> set xs"
  shows "\<exists>m q. link_task task l s = Some (s\<lparr>sc_tasks := m, sc_queues := q\<rparr>)
    \<and> tq.chain m (q l) (takeWhile P xs @ task # dropWhile P xs)
    \<and> (\<forall>x. tcore (m x) = tcore (sc_tasks s x))
    \<and> (\<forall>x. x \<notin> insert task (set xs) \<longrightarrow> m x = sc_tasks s x)
    \<and> (\<forall>k. k \<noteq> l \<longrightarrow> q k = sc_queues s k)"
proof -
  let ?m = "sc_tasks s"
  note head = tq.chain_head [OF ch]
  show ?thesis
  proof (cases "takeWhile P xs")
    case Nil
    let ?m' = "upd_opt (upd (upd ?m task (at_next_update (\<lambda>_. sc_queues s l))) task (at_prev_update (\<lambda>_. None)))
      (sc_queues s l) (at_prev_update (\<lambda>_. Some task))"
    have drop: "dropWhile P xs = xs" using takeWhile_dropWhile_id [of P xs] Nil by simp
    have "link_task task l s = Some (s\<lparr>sc_tasks := ?m', sc_queues := (sc_queues s)(l := Some task)\<rparr>)"
      using Nil head by (cases xs) (auto simp: link_task_def upd_opt_def Let_def P_def split: if_split_asm)
    moreover have "tq.chain ?m' (Some task) (task # xs)"
      by (rule tq.chain_insert_front [OF ch t refl])
    moreover have "?m' x = ?m x" if "x \<notin> insert task (set xs)" for x
      using that head by (cases xs) (auto simp: upd_def upd_opt_def)
    ultimately show ?thesis
      using drop Nil by (intro exI [of _ ?m'] exI [of _ "(sc_queues s)(l := Some task)"]) simp
  next
    case (Cons h ys)
    then obtain pre c where tw: "takeWhile P xs = pre @ [c]" by (metis append_butlast_last_id list.discI)
    obtain post where post: "dropWhile P xs = post" by blast
    have xs: "xs = pre @ c # post" using takeWhile_dropWhile_id [of P xs] tw post by simp
    obtain zs where z: "xs = h # zs" "P h" using Cons by (cases xs) (auto split: if_split_asm)
    have cb: "c \<noteq> task" using t xs by auto
    have "h # takeWhile P zs = pre @ [c]" using tw z by simp
    then have "last (h # takeWhile P zs) = c" by simp
    then have w: "walk (\<lambda>r. at_next (?m r)) P h = Some c"
      using tq.chain_walk [of ?m "sc_queues s l" h zs P] ch z by simp
    let ?m' = "upd (upd_opt (upd (upd ?m task (at_next_update (\<lambda>_. at_next (?m c)))) task (at_prev_update (\<lambda>_. Some c)))
      (at_next (?m c)) (at_prev_update (\<lambda>_. Some task))) c (at_next_update (\<lambda>_. Some task))"
    have ins: "link_task task l s = Some (s\<lparr>sc_tasks := ?m', sc_queues := sc_queues s\<rparr>)"
      using w head z cb unfolding link_task_def Let_def P_def by (auto simp: upd_def)
    have ch': "tq.chain ?m' (sc_queues s l) (pre @ c # task # post)"
      by (rule tq.chain_insert_after [OF _ _ refl]) (use ch t xs in auto)
    have nc: "at_next (?m c) = first_ref post None" using tq.chain_neighbours(1) ch xs by metis
    have frame: "?m' x = ?m x" if "x \<notin> insert task (set xs)" for x
    proof -
      have "at_next (?m c) \<noteq> Some x" using nc that xs by (auto dest!: first_ref_in)
      then show ?thesis using that xs by (auto simp: upd_def upd_opt_def split: option.split)
    qed
    show ?thesis using ins ch' frame tw post by (intro exI [of _ ?m'] exI [of _ "sc_queues s"]) simp
  qed
qed

text \<open>Enqueueing a task that is in no queue.\<close>

lemma enqueue_ok:
  assumes ok: "queues_ok s Q qs" and i: "i \<notin> Q"
  shows "\<exists>m q z qs'. enqueue_task now i s = Some (s\<lparr>sc_tasks := m, sc_queues := q, sc_sizes := z\<rparr>)
    \<and> queues_ok (s\<lparr>sc_tasks := m, sc_queues := q, sc_sizes := z\<rparr>) (insert i Q) qs'
    \<and> (\<forall>x. tcore (m x) = tcore (if x = i then (sc_tasks s i)\<lparr>at_state := TASK_STATE_READY, at_last_ready_ns := now\<rparr> else sc_tasks s x))"
proof -
  let ?l = "task_level (sc_tasks s i)" and ?f = "\<lambda>t. t\<lparr>at_state := TASK_STATE_READY, at_last_ready_ns := now\<rparr>"
  have q: "tq.chain (sc_tasks s) (sc_queues s k) (qs k)" "by_vruntime (sc_tasks s) (qs k)"
    "set (qs k) = {j \<in> Q. task_level (sc_tasks s j) = k}" "sc_sizes s k = of_nat (length (qs k))" if "k < NUM_PRIORITY_LEVELS" for k
    using ok that by (auto simp: queues_ok_def)
  note l = task_level_less [of "sc_tasks s i"]
  have "i \<notin> set (qs ?l)" using q(3) [OF l] i by auto
  from link_task_spec [OF q(1) [OF l] this] obtain m q' ys where
    link: "link_task i ?l s = Some (s\<lparr>sc_tasks := m, sc_queues := q'\<rparr>)" "tq.chain m (q' ?l) ys"
    and core: "\<And>x. tcore (m x) = tcore (sc_tasks s x)"
    and frame: "\<And>x. x \<notin> insert i (set (qs ?l)) \<Longrightarrow> m x = sc_tasks s x" "\<And>k. k \<noteq> ?l \<Longrightarrow> q' k = sc_queues s k"
    and ys: "ys = takeWhile (\<lambda>x. at_vruntime (sc_tasks s x) \<le> at_vruntime (sc_tasks s i)) (qs ?l)
       @ i # dropWhile (\<lambda>x. at_vruntime (sc_tasks s x) \<le> at_vruntime (sc_tasks s i)) (qs ?l)" by blast
  define m' where "m' = upd m i ?f"
  define qs' where "qs' = qs(?l := ys)"
  define z where "z = (sc_sizes s)(?l := sc_sizes s ?l + 1)"
  have links: "at_next (m' x) = at_next (m x)" "at_prev (m' x) = at_prev (m x)" for x by (simp_all add: m'_def upd_def)
  have f: "at_vruntime (m' x) = at_vruntime (sc_tasks s x)" "task_level (m' x) = task_level (sc_tasks s x)" for x
    by (simp_all add: m'_def upd_def task_level_def tcore_fields(3,4) [OF core])
  have lst: "length ys = Suc (length (qs ?l))" "set ys = insert i (set (qs ?l))"
    unfolding ys by (rule insert_split)+
  have "tq.chain m' (q' k) (qs' k) \<and> by_vruntime m' (qs' k)
      \<and> set (qs' k) = {j \<in> insert i Q. task_level (m' j) = k} \<and> z k = of_nat (length (qs' k))" if k: "k < NUM_PRIORITY_LEVELS" for k
  proof (cases "k = ?l")
    case True
    have "tq.chain m' (q' ?l) ys" by (rule tq.chain_frame [OF link(2)]) (simp add: links)
    moreover have "by_vruntime m' ys"
      using by_vruntime_insert [OF q(2) [OF l], of i] by (simp add: ys by_vruntime_cong [of _ m' "sc_tasks s"] f)
    ultimately show ?thesis using True q(3,4) [OF l] lst by (auto simp: qs'_def z_def f)
  next
    case False
    have disj: "x \<notin> insert i (set (qs ?l))" if "x \<in> set (qs k)" for x
      using that q(3) [OF k] q(3) [OF l] False i by auto
    have "tq.chain m' (q' k) (qs k)"
      using frame(2) [OF False] by (simp, intro tq.chain_frame [OF q(1) [OF k]]) (use disj frame(1) links in auto)
    then show ?thesis using False q(2-4) [OF k] by (auto simp: qs'_def z_def f by_vruntime_cong [of _ m' "sc_tasks s"])
  qed
  then have ok': "queues_ok (s\<lparr>sc_tasks := m', sc_queues := q', sc_sizes := z\<rparr>) (insert i Q) qs'"
    by (simp add: queues_ok_def)
  have "enqueue_task now i s = Some (s\<lparr>sc_tasks := m', sc_queues := q', sc_sizes := z\<rparr>)"
    by (simp add: enqueue_task_def Let_def link(1) set_task_def m'_def z_def)
  moreover have "tcore (m' x) = tcore (if x = i then ?f (sc_tasks s i) else sc_tasks s x)" for x
  proof -
    have "tcore (?f t) = ?f (tcore t)" for t by (simp add: tcore_def)
    then show ?thesis by (simp add: m'_def upd_def core)
  qed
  ultimately show ?thesis using ok' by blast
qed

text \<open>Dequeueing a task that is in its queue.\<close>

lemma dequeue_ok:
  assumes ok: "queues_ok s Q qs" and i: "i \<in> Q"
  shows "\<exists>m q z qs'. dequeue_task i s = s\<lparr>sc_tasks := m, sc_queues := q, sc_sizes := z\<rparr>
    \<and> queues_ok (s\<lparr>sc_tasks := m, sc_queues := q, sc_sizes := z\<rparr>) (Q - {i}) qs'
    \<and> (\<forall>x. tcore (m x) = tcore (sc_tasks s x))"
proof -
  let ?m = "sc_tasks s" and ?l = "task_level (sc_tasks s i)"
  have q: "tq.chain ?m (sc_queues s k) (qs k)" "by_vruntime ?m (qs k)"
    "set (qs k) = {j \<in> Q. task_level (?m j) = k}" "sc_sizes s k = of_nat (length (qs k))" if "k < NUM_PRIORITY_LEVELS" for k
    using ok that by (auto simp: queues_ok_def)
  note l = task_level_less [of "?m i"]
  have "i \<in> set (qs ?l)" using q(3) [OF l] i by auto
  then obtain xs ys where qs: "qs ?l = xs @ i # ys" by (auto simp: in_set_conv_decomp)
  have d: "distinct (xs @ i # ys)" using tq.chain_distinct [OF q(1) [OF l]] qs by simp
  note ch = q(1) [OF l, unfolded qs]
  define m1 where "m1 = upd_opt ?m (at_prev (?m i)) (at_next_update (\<lambda>_. at_next (?m i)))"
  define m2 where "m2 = upd_opt m1 (at_next (m1 i)) (at_prev_update (\<lambda>_. at_prev (m1 i)))"
  define m' where "m' = upd (upd m2 i (at_next_update (\<lambda>_. None))) i (at_prev_update (\<lambda>_. None))"
  define q' where "q' = (if at_prev (?m i) = None then (sc_queues s)(?l := at_next (?m i)) else sc_queues s)"
  define z where "z = (sc_sizes s)(?l := sc_sizes s ?l - 1)"
  have deq: "dequeue_task i s = s\<lparr>sc_tasks := m', sc_queues := q', sc_sizes := z\<rparr>"
    by (cases "at_prev (?m i)") (simp_all add: dequeue_task_def Let_def m'_def m2_def m1_def q'_def z_def upd_opt_def cong: option.case_cong)
  have core: "tcore (m' x) = tcore (?m x)" for x by (simp add: m'_def m2_def m1_def)
  have nb: "at_next (?m i) = first_ref ys None" "at_prev (?m i) = last_ref None xs" using tq.chain_neighbours [OF ch] by simp_all
  have frame: "m' x = ?m x" if "x \<notin> set (qs ?l)" for x
  proof -
    have "at_prev (?m i) \<noteq> Some x" "at_next (?m i) \<noteq> Some x" "x \<noteq> i"
      using that nb qs by (auto dest: first_ref_in last_ref_in)
    moreover have "m1 i = ?m i" using nb(2) d by (auto simp: m1_def upd_opt_def upd_def split: option.split dest: last_ref_in)
    ultimately have "m2 x = m1 x" "m1 x = ?m x"
      by (auto simp: m2_def m1_def upd_def upd_opt_def split: option.split)
    then show ?thesis using \<open>x \<noteq> i\<close> by (simp add: m'_def upd_def)
  qed
  have f: "at_vruntime (m' x) = at_vruntime (?m x)" "task_level (m' x) = task_level (?m x)" for x
    by (simp_all add: tcore_fields(4,7) [OF core])
  have "tq.chain m' (q' k) ((qs(?l := xs @ ys)) k) \<and> by_vruntime m' ((qs(?l := xs @ ys)) k)
      \<and> set ((qs(?l := xs @ ys)) k) = {j \<in> Q - {i}. task_level (m' j) = k} \<and> z k = of_nat (length ((qs(?l := xs @ ys)) k))"
    if k: "k < NUM_PRIORITY_LEVELS" for k
  proof (cases "k = ?l")
    case True
    have "tq.chain m' (if at_prev (?m i) = None then at_next (?m i) else sc_queues s ?l) (xs @ ys)"
      by (rule tq.chain_delete [OF ch m1_def m2_def]) (simp add: m'_def upd_def)
    moreover have "by_vruntime m' (xs @ ys)"
      using q(2) [OF l] unfolding qs by_vruntime_cong [of _ m' ?m, OF f(1)] by (simp add: by_vruntime_def sorted_wrt_append)
    ultimately show ?thesis using True q(3,4) [OF l] d qs by (auto simp: q'_def z_def f)
  next
    case False
    have "tq.chain m' (sc_queues s k) (qs k)"
      by (rule tq.chain_frame [OF q(1) [OF k]]) (use q(3) [OF k] q(3) [OF l] False frame in auto)
    then show ?thesis using False q(2-4) [OF k] by (auto simp: q'_def z_def f by_vruntime_cong [of _ m' ?m])
  qed
  then have "queues_ok (s\<lparr>sc_tasks := m', sc_queues := q', sc_sizes := z\<rparr>) (Q - {i}) (qs(?l := xs @ ys))"
    unfolding queues_ok_def by simp
  then show ?thesis using deq core by blast
qed

section \<open>Steps\<close>

lemma find_task_SomeD:
  assumes "find_task tid s = Some i"
  shows "i < unat (sc_next s)" and "at_id (sc_tasks s i) = tid"
  using find_index_SomeD [OF assms [unfolded find_task_def]] by simp_all

lemma queues_ok_frame [simp]:
  "queues_ok (s\<lparr>sc_stats := a\<rparr>) Q qs = queues_ok s Q qs" "queues_ok (s\<lparr>sc_current := c\<rparr>) Q qs = queues_ok s Q qs"
  "queues_ok (s\<lparr>sc_tick_count := n\<rparr>) Q qs = queues_ok s Q qs"
  by (simp_all add: queues_ok_def)

lemma sched_inv_frame [simp]:
  "sched_inv (s\<lparr>sc_stats := a\<rparr>) fr = sched_inv s fr" "sched_inv (s\<lparr>sc_tick_count := n\<rparr>) fr = sched_inv s fr"
  by (simp_all add: sched_inv_def tasks_ok_def queued_def)

lemma queues_ok_set_task:
  assumes "queues_ok s Q qs" and "i \<notin> Q"
  shows "queues_ok (set_task i f s) Q qs"
  unfolding queues_ok_def
proof (intro allI impI)
  fix l assume "l < NUM_PRIORITY_LEVELS"
  then have q: "tq.chain (sc_tasks s) (sc_queues s l) (qs l)" "by_vruntime (sc_tasks s) (qs l)"
    "set (qs l) = {j \<in> Q. task_level (sc_tasks s j) = l}" "sc_sizes s l = of_nat (length (qs l))"
    using assms(1) by (auto simp: queues_ok_def)
  have same: "sc_tasks (set_task i f s) x = sc_tasks s x" if "x \<in> Q" for x
    using that assms(2) by (auto simp: set_task_def upd_def)
  have "tq.chain (sc_tasks (set_task i f s)) (sc_queues s l) (qs l)"
    by (rule tq.chain_frame [OF q(1)]) (use q(3) same in auto)
  moreover have "by_vruntime (sc_tasks (set_task i f s)) (qs l)"
    using q(2) by (subst by_vruntime_cong [of _ _ "sc_tasks s"]) (use q(3) same in auto)
  moreover have "{j \<in> Q. task_level (sc_tasks (set_task i f s) j) = l} = set (qs l)" using q(3) same by auto
  ultimately show "tq.chain (sc_tasks (set_task i f s)) (sc_queues (set_task i f s) l) (qs l)
      \<and> by_vruntime (sc_tasks (set_task i f s)) (qs l)
      \<and> set (qs l) = {j \<in> Q. task_level (sc_tasks (set_task i f s) j) = l}
      \<and> sc_sizes (set_task i f s) l = of_nat (length (qs l))"
    using q(4) by (simp add: set_task_def)
qed

lemma mid_set_task:
  assumes "mid i s fr t" and "\<And>a. at_id (f a) = at_id a" and "params_ok (at_sched (f (sc_tasks t i)))"
  shows "mid i s fr (set_task i f t)"
proof -
  from assms(1) obtain qs where "queues_ok t (queued s fr - {i}) qs" by (auto simp: mid_def)
  then have "queues_ok (set_task i f t) (queued s fr - {i}) qs" by (rule queues_ok_set_task) simp
  moreover have "sc_tasks (set_task i f t) x = (if x = i then f (sc_tasks t i) else sc_tasks t x)" for x
    by (simp add: set_task_def upd_def)
  ultimately show ?thesis using assms unfolding mid_def by (auto simp: set_task_def)
qed

lemma mid_stats [simp]: "mid i s fr (t\<lparr>sc_stats := a\<rparr>) = mid i s fr t"
  by (simp add: mid_def)

lemma mid_of_waiting:
  assumes "sched_inv s fr" and "i < unat (sc_next s)" and "i \<notin> queued s fr" and "sc_current s \<noteq> Some i"
  shows "mid i s fr s"
  using assms by (auto simp: mid_def sched_inv_def tasks_ok_def)

lemma mid_of_current:
  assumes inv: "sched_inv s fr" and c: "sc_current s = Some i"
  shows "mid i s fr (s\<lparr>sc_current := None\<rparr>)"
proof -
  have i: "i < unat (sc_next s)" "at_state (sc_tasks s i) = TASK_STATE_RUNNING" using inv c by (auto simp: sched_inv_def)
  then have "queued s fr - {i} = queued s fr" by (auto simp: queued_def)
  then show ?thesis using inv i(1) c by (auto simp: mid_def sched_inv_def tasks_ok_def)
qed

lemma mid_of_dequeue:
  assumes inv: "sched_inv s fr" and i: "i \<in> queued s fr"
  shows "mid i s fr (dequeue_task i s)"
proof -
  from inv obtain qs where "queues_ok s (queued s fr) qs" by (auto simp: sched_inv_def)
  from dequeue_ok [OF this i] obtain m q z qs' where
    d: "dequeue_task i s = s\<lparr>sc_tasks := m, sc_queues := q, sc_sizes := z\<rparr>"
    "queues_ok (s\<lparr>sc_tasks := m, sc_queues := q, sc_sizes := z\<rparr>) (queued s fr - {i}) qs'"
    "\<And>x. tcore (m x) = tcore (sc_tasks s x)" by blast
  have "sc_current s \<noteq> Some i" using inv i by (auto simp: sched_inv_def queued_def)
  moreover have "params_ok (at_sched (sc_tasks s i))" using inv i by (auto simp: sched_inv_def tasks_ok_def queued_def)
  ultimately show ?thesis
    using d(2,3) tcore_fields(1,3) [OF d(3)] unfolding mid_def d(1) by auto
qed

lemma mid_of_take_off:
  assumes inv: "sched_inv s fr" and i: "i < unat (sc_next s)" "i \<notin> fr"
  shows "mid i s fr (take_off i s)"
proof -
  consider "at_state (sc_tasks s i) = TASK_STATE_RUNNING" | "at_state (sc_tasks s i) = TASK_STATE_READY"
    | "at_state (sc_tasks s i) \<noteq> TASK_STATE_RUNNING" "at_state (sc_tasks s i) \<noteq> TASK_STATE_READY" by blast
  then show ?thesis
  proof cases
    case 1
    then have "sc_current s = Some i" using inv i by (auto simp: sched_inv_def)
    from mid_of_current [OF inv this] 1 show ?thesis by (simp add: take_off_def)
  next
    case 2
    then have "i \<in> queued s fr" using i by (simp add: queued_def)
    from mid_of_dequeue [OF inv this] 2 show ?thesis by (simp add: take_off_def)
  next
    case 3
    then show ?thesis using inv i mid_of_waiting [of s fr i] by (auto simp: take_off_def queued_def sched_inv_def)
  qed
qed

text \<open>The step ends when the task gets its new state.\<close>

lemma inv_of_mid:
  assumes inv: "sched_inv s fr" and i: "i < unat (sc_next s)" and m: "mid i s fr t"
    and u: "tcore (sc_tasks u i) = tcore (f (sc_tasks t i))" "\<And>x. x \<noteq> i \<Longrightarrow> tcore (sc_tasks u x) = tcore (sc_tasks t x)"
    and f: "at_id (f (sc_tasks t i)) = at_id (sc_tasks t i)" "at_sched (f (sc_tasks t i)) = at_sched (sc_tasks t i)"
    and rest: "sc_next u = sc_next t" "sc_next_id u = sc_next_id t"
    and q: "queues_ok u (if at_state (f (sc_tasks t i)) = TASK_STATE_READY then insert i (queued s fr - {i}) else queued s fr - {i}) qs"
    and c: "sc_current u = (if at_state (f (sc_tasks t i)) = TASK_STATE_RUNNING then Some i else sc_current t)"
    and run: "at_state (f (sc_tasks t i)) = TASK_STATE_RUNNING \<Longrightarrow> sc_current t = None"
  shows "sched_inv u (fr - {i})"
proof -
  have ti: "at_state (sc_tasks u i) = at_state (f (sc_tasks t i))" "at_id (sc_tasks u i) = at_id (sc_tasks s i)"
    "at_sched (sc_tasks u i) = at_sched (sc_tasks t i)"
    using tcore_fields(1-3) [OF u(1)] f m by (simp_all add: mid_def)
  have tx: "at_state (sc_tasks u x) = at_state (sc_tasks s x)" "at_id (sc_tasks u x) = at_id (sc_tasks s x)"
    "at_sched (sc_tasks u x) = at_sched (sc_tasks s x)" if "x \<noteq> i" for x
  proof -
    have "tcore (sc_tasks u x) = tcore (sc_tasks s x)" using u(2) [OF that] m that by (simp add: mid_def)
    from tcore_fields(1-3) [OF this] show "at_state (sc_tasks u x) = at_state (sc_tasks s x)"
      "at_id (sc_tasks u x) = at_id (sc_tasks s x)" "at_sched (sc_tasks u x) = at_sched (sc_tasks s x)" by simp_all
  qed
  have st: "at_state (sc_tasks u x) = (if x = i then at_state (f (sc_tasks t i)) else at_state (sc_tasks s x))"
    "at_id (sc_tasks u x) = at_id (sc_tasks s x)"
    "at_sched (sc_tasks u x) = (if x = i then at_sched (sc_tasks t i) else at_sched (sc_tasks s x))" for x
    using ti tx by (cases "x = i"; simp)+
  have nx: "sc_next u = sc_next s" "sc_next_id u = sc_next_id s" using m rest by (auto simp: mid_def)
  have "queued u (fr - {i}) = (if at_state (f (sc_tasks t i)) = TASK_STATE_READY then insert i (queued s fr - {i}) else queued s fr - {i})"
    using i by (auto simp: queued_def st nx)
  then have 1: "\<exists>qs. queues_ok u (queued u (fr - {i})) qs" using q by auto
  have 2: "tasks_ok u" using inv m by (auto simp: sched_inv_def tasks_ok_def st nx mid_def)
  have cs: "sc_current s = Some j \<longleftrightarrow> j < unat (sc_next s) \<and> at_state (sc_tasks s j) = TASK_STATE_RUNNING" for j
    using inv by (simp add: sched_inv_def)
  have ct: "sc_current t = (if sc_current s = Some i then None else sc_current s)" using m by (simp add: mid_def)
  have 3: "sc_current u = Some j \<longleftrightarrow> j < unat (sc_next u) \<and> at_state (sc_tasks u j) = TASK_STATE_RUNNING" for j
  proof (cases "at_state (f (sc_tasks t i)) = TASK_STATE_RUNNING")
    case True
    then have "sc_current s = None \<or> sc_current s = Some i" using run ct by (auto split: if_split_asm)
    then show ?thesis using True i cs [of j] by (auto simp: c st nx)
  next
    case False
    then show ?thesis using cs [of j] by (auto simp: c ct st nx)
  qed
  have "fr - {i} \<subseteq> {j. j < unat (sc_next u) \<and> at_state (sc_tasks u j) = TASK_STATE_READY}"
    using inv by (auto simp: sched_inv_def st nx)
  then show ?thesis using 1 2 3 by (simp add: sched_inv_def)
qed

lemma enqueue_inv:
  assumes inv: "sched_inv s fr" and i: "i < unat (sc_next s)" and m: "mid i s fr t"
  shows "\<exists>u. enqueue_task now i t = Some u \<and> sched_inv u (fr - {i}) \<and> sc_current u = sc_current t"
proof -
  let ?f = "\<lambda>a. a\<lparr>at_state := TASK_STATE_READY, at_last_ready_ns := now\<rparr>"
  from m obtain qs where "queues_ok t (queued s fr - {i}) qs" by (auto simp: mid_def)
  from enqueue_ok [OF this, of i now] obtain m' q z qs' where
    e: "enqueue_task now i t = Some (t\<lparr>sc_tasks := m', sc_queues := q, sc_sizes := z\<rparr>)"
    and q: "queues_ok (t\<lparr>sc_tasks := m', sc_queues := q, sc_sizes := z\<rparr>) (insert i (queued s fr - {i})) qs'"
    and c: "\<And>x. tcore (m' x) = tcore (if x = i then ?f (sc_tasks t i) else sc_tasks t x)" by auto
  have "sched_inv (t\<lparr>sc_tasks := m', sc_queues := q, sc_sizes := z\<rparr>) (fr - {i})"
    by (rule inv_of_mid [OF inv i m, of _ ?f qs']) (use q c in \<open>simp_all add: c\<close>)
  then show ?thesis using e by simp
qed

lemma set_state_inv:
  assumes inv: "sched_inv s fr" and i: "i < unat (sc_next s)" and m: "mid i s fr t"
    and f: "\<And>a. at_id (f a) = at_id a" "\<And>a. at_sched (f a) = at_sched a" "\<And>a. at_state (f a) = st"
    and st: "st \<noteq> TASK_STATE_READY" "st = TASK_STATE_RUNNING \<Longrightarrow> sc_current t = None"
  shows "sched_inv ((set_task i f t)\<lparr>sc_current := (if st = TASK_STATE_RUNNING then Some i else sc_current t)\<rparr>) (fr - {i})"
proof -
  from m obtain qs where "queues_ok t (queued s fr - {i}) qs" by (auto simp: mid_def)
  then have "queues_ok (set_task i f t) (queued s fr - {i}) qs" by (rule queues_ok_set_task) simp
  then show ?thesis
    by (intro inv_of_mid [OF inv i m, of _ f qs]) (use f st in \<open>simp_all add: set_task_def upd_def\<close>)
qed

lemma set_state_inv':
  assumes "sched_inv s fr" and "i < unat (sc_next s)" and "mid i s fr t"
    and "st \<noteq> TASK_STATE_READY" and "st \<noteq> TASK_STATE_RUNNING"
  shows "sched_inv (set_task i (at_state_update (\<lambda>_. st)) t) (fr - {i})"
  using set_state_inv [OF assms(1-3), of "at_state_update (\<lambda>_. st)" st] assms(4,5) by (simp add: set_task_def)

lemma update_inv:
  assumes inv: "sched_inv s fr" and i: "i \<notin> queued s fr"
    and f: "\<And>a. at_id (f a) = at_id a" "\<And>a. at_state (f a) = at_state a" "params_ok (at_sched (f (sc_tasks s i)))"
  shows "sched_inv (set_task i f s) fr"
proof -
  from inv obtain qs where "queues_ok s (queued s fr) qs" by (auto simp: sched_inv_def)
  then have "queues_ok (set_task i f s) (queued s fr) qs" using i by (rule queues_ok_set_task)
  moreover have st: "at_state (sc_tasks (set_task i f s) x) = at_state (sc_tasks s x)" for x
    by (simp add: set_task_def upd_def f)
  moreover have "tasks_ok (set_task i f s)"
    using inv f by (auto simp: sched_inv_def tasks_ok_def set_task_def upd_def)
  moreover have "sc_next (set_task i f s) = sc_next s" "sc_current (set_task i f s) = sc_current s"
    by (simp_all add: set_task_def)
  ultimately show ?thesis using inv unfolding sched_inv_def queued_def by auto
qed

section \<open>Every operation keeps the invariant\<close>

lemma init_inv: "ai_sched_init sched_boot = (st, s) \<Longrightarrow> sched_inv s {}"
  by (auto simp: ai_sched_init_def sched_boot_def sched_inv_def tasks_ok_def queued_def queues_ok_def by_vruntime_def
      intro!: exI [of _ "\<lambda>_. []"])

lemma alloc_task_eq:
  assumes "sc_next s < MAX_TASKS"
  shows "alloc_task s = (Some (unat (sc_next s)), s\<lparr>sc_next := sc_next s + 1,
     sc_tasks := (sc_tasks s)(unat (sc_next s) := (sc_tasks s (unat (sc_next s)))\<lparr>at_next := None, at_prev := None\<rparr>)\<rparr>)"
  using assms by (simp add: alloc_task_def Let_def upd_def not_le)

lemma create_inv:
  assumes inv: "sched_inv s fr" and p: "\<forall>p. params = Some p \<longrightarrow> params_ok p"
    and e: "ai_task_create now name w params has_out s = (st, out, s')"
  shows "sched_inv s' (fr \<union> set_option out)"
proof (cases "params = None \<or> \<not> has_out \<or> \<not> sc_next s < MAX_TASKS")
  case True
  moreover have "alloc_task s = (None, s)" if "\<not> sc_next s < MAX_TASKS" using that by (simp add: alloc_task_def not_less)
  ultimately have "s' = s \<and> out = None"
    using e by (cases params; cases has_out; cases "sc_next s < MAX_TASKS") (simp_all add: ai_task_create_def)
  then show ?thesis using inv by simp
next
  case False
  then obtain pr where pr: "params = Some pr" "params_ok pr" and lt: "sc_next s < MAX_TASKS" "has_out" using p by auto
  let ?n = "unat (sc_next s)"
  have n: "unat (sc_next s + 1) = Suc ?n"
    using lt(1) unat_add_no_wrap [of "sc_next s" 1] by (simp add: word_less_nat_alt)
  have out: "out = Some ?n" using e pr(1) lt by (simp add: ai_task_create_def alloc_task_eq Let_def)
  have tk: "sc_tasks s' x = sc_tasks s x" if "x \<noteq> ?n" for x
    using e pr(1) lt that by (auto simp: ai_task_create_def alloc_task_eq Let_def set_task_def upd_def)
  have new: "at_id (sc_tasks s' ?n) = sc_next_id s" "at_sched (sc_tasks s' ?n) = pr" "at_state (sc_tasks s' ?n) = TASK_STATE_READY"
    using e pr(1) lt by (auto simp: ai_task_create_def alloc_task_eq Let_def set_task_def upd_def)
  have rest: "sc_next s' = sc_next s + 1" "sc_next_id s' = sc_next_id s + 1" "sc_queues s' = sc_queues s" "sc_sizes s' = sc_sizes s"
    "sc_current s' = sc_current s"
    using e pr(1) lt by (auto simp: ai_task_create_def alloc_task_eq Let_def set_task_def)
  have fr: "?n \<notin> fr" using inv by (auto simp: sched_inv_def)
  have Q: "queued s' (insert ?n fr) = queued s fr"
    using tk by (auto simp: queued_def rest n less_Suc_eq)
  from inv obtain qs where qs: "queues_ok s (queued s fr) qs" by (auto simp: sched_inv_def)
  have "queues_ok (set_task ?n (\<lambda>_. sc_tasks s' ?n) s) (queued s fr) qs"
    by (rule queues_ok_set_task [OF qs]) (simp add: queued_def)
  moreover have "sc_tasks (set_task ?n (\<lambda>_. sc_tasks s' ?n) s) = sc_tasks s'" using tk by (auto simp: set_task_def upd_def)
  ultimately have 1: "queues_ok s' (queued s fr) qs" by (simp add: queues_ok_def set_task_def rest)
  have ok: "tasks_ok s" using inv by (simp add: sched_inv_def)
  have 2: "tasks_ok s'"
    using ok tk new pr(2) lt(1) by (auto simp: tasks_ok_def rest n less_Suc_eq word_less_nat_alt word_le_nat_alt)
  have cur: "sc_current s = Some j \<longleftrightarrow> j < ?n \<and> at_state (sc_tasks s j) = TASK_STATE_RUNNING" for j
    using inv by (simp add: sched_inv_def)
  have 3: "sc_current s' = Some j \<longleftrightarrow> j < unat (sc_next s') \<and> at_state (sc_tasks s' j) = TASK_STATE_RUNNING" for j
    using cur [of j] tk [of j] new(3) by (cases "j = ?n") (auto simp: rest n less_Suc_eq)
  have "insert ?n fr \<subseteq> {j. j < unat (sc_next s') \<and> at_state (sc_tasks s' j) = TASK_STATE_READY}"
    using inv new(3) tk by (auto simp: sched_inv_def rest n less_Suc_eq)
  then show ?thesis using 1 2 3 Q out by (auto simp: sched_inv_def)
qed

lemma destroy_inv:
  assumes inv: "sched_inv s fr" and fr: "\<forall>i. find_task tid s = Some i \<longrightarrow> i \<notin> fr"
    and e: "ai_task_destroy tid s = (st, s')"
  shows "sched_inv s' fr"
proof (cases "find_task tid s")
  case (Some i)
  note i = find_task_SomeD(1) [OF Some]
  have "sched_inv (set_task i (at_state_update (\<lambda>_. TASK_STATE_COMPLETED)) (take_off i s)) (fr - {i})"
    using fr Some by (intro set_state_inv' [OF inv i] mid_of_take_off [OF inv i]) auto
  then show ?thesis using e Some fr by (auto simp: ai_task_destroy_def Let_def)
qed (use e inv in \<open>simp add: ai_task_destroy_def\<close>)

lemma suspend_inv:
  assumes inv: "sched_inv s fr" and fr: "\<forall>i. find_task tid s = Some i \<longrightarrow> i \<notin> fr"
    and e: "ai_task_suspend tid s = (st, s')"
  shows "sched_inv s' fr"
proof (cases "find_task tid s")
  case (Some i)
  note i = find_task_SomeD(1) [OF Some]
  have "sched_inv (set_task i (at_state_update (\<lambda>_. TASK_STATE_SUSPENDED)) (take_off i s)) (fr - {i})"
    using fr Some by (intro set_state_inv' [OF inv i] mid_of_take_off [OF inv i]) auto
  then show ?thesis using e Some fr by (auto simp: ai_task_suspend_def)
qed (use e inv in \<open>simp add: ai_task_suspend_def\<close>)

lemma not_running: "sched_inv s fr \<Longrightarrow> at_state (sc_tasks s i) \<noteq> TASK_STATE_RUNNING \<Longrightarrow> sc_current s \<noteq> Some i"
  by (auto simp: sched_inv_def)

lemma submit_inv:
  assumes inv: "sched_inv s fr" and nq: "\<forall>i. find_task tid s = Some i \<longrightarrow> i \<notin> queued s fr"
  shows "\<exists>st s'. ai_task_submit now tid s = Some (st, s') \<and> sched_inv s' (fr - set_option (find_task tid s))"
proof (cases "find_task tid s")
  case None
  then show ?thesis using inv by (auto simp: ai_task_submit_def)
next
  case (Some i)
  note i = find_task_SomeD(1) [OF Some]
  let ?st = "at_state (sc_tasks s i)" and ?l = "unat (sp_policy (at_sched (sc_tasks s i)))"
  show ?thesis
  proof (cases "?st = TASK_STATE_READY \<or> ?st = TASK_STATE_SUSPENDED")
    case True
    have po: "params_ok (at_sched (sc_tasks s i))" using inv i by (auto simp: sched_inv_def tasks_ok_def)
    define t where "t = (case sc_queues s ?l of Some h \<Rightarrow> set_task i (at_vruntime_update (\<lambda>_. at_vruntime (sc_tasks s h))) s | None \<Rightarrow> s)"
    have "mid i s fr s" by (rule mid_of_waiting [OF inv i]) (use nq Some True not_running [OF inv, of i] in auto)
    then have "mid i s fr t" using po by (auto simp: t_def intro!: mid_set_task split: option.split)
    from enqueue_inv [OF inv i this, of now] show ?thesis
      using Some True po by (auto simp: ai_task_submit_def Let_def t_def params_ok_def)
  next
    case False
    then have "i \<notin> fr" using inv by (auto simp: sched_inv_def)
    then show ?thesis using False Some inv by (auto simp: ai_task_submit_def)
  qed
qed

lemma resume_inv:
  assumes inv: "sched_inv s fr"
  shows "\<exists>st s'. ai_task_resume now tid s = Some (st, s') \<and> sched_inv s' fr"
proof (cases "find_task tid s")
  case (Some i)
  note i = find_task_SomeD(1) [OF Some]
  show ?thesis
  proof (cases "at_state (sc_tasks s i) = TASK_STATE_SUSPENDED")
    case True
    then have fr: "fr - {i} = fr" using inv by (auto simp: sched_inv_def)
    have "mid i s fr s" by (rule mid_of_waiting [OF inv i]) (use True not_running [OF inv, of i] in \<open>auto simp: queued_def\<close>)
    from enqueue_inv [OF inv i this, of now] show ?thesis using Some True fr by (auto simp: ai_task_resume_def)
  qed (use Some inv in \<open>auto simp: ai_task_resume_def\<close>)
qed (use inv in \<open>auto simp: ai_task_resume_def\<close>)

lemma set_priority_inv:
  assumes inv: "sched_inv s fr"
    and ok: "\<forall>i. find_task tid s = Some i \<longrightarrow> i \<notin> fr \<and> params_ok ((at_sched (sc_tasks s i))\<lparr>sp_priority := prio\<rparr>)"
  shows "\<exists>st s'. ai_task_set_priority now tid prio s = Some (st, s') \<and> sched_inv s' fr"
proof (cases "find_task tid s")
  case (Some i)
  note i = find_task_SomeD(1) [OF Some]
  let ?f = "at_sched_update (sp_priority_update (\<lambda>_. prio))"
  have ok': "i \<notin> fr" "params_ok ((at_sched (sc_tasks s i))\<lparr>sp_priority := prio\<rparr>)" using ok Some by auto
  show ?thesis
  proof (cases "at_state (sc_tasks s i) = TASK_STATE_READY")
    case True
    then have q: "i \<in> queued s fr" using i ok' by (simp add: queued_def)
    from inv obtain qs where "queues_ok s (queued s fr) qs" by (auto simp: sched_inv_def)
    from dequeue_ok [OF this q] obtain m q' z where d: "dequeue_task i s = s\<lparr>sc_tasks := m, sc_queues := q', sc_sizes := z\<rparr>"
      and c: "\<And>x. tcore (m x) = tcore (sc_tasks s x)" by blast
    have "at_sched (sc_tasks (dequeue_task i s) i) = at_sched (sc_tasks s i)" using tcore_fields(3) [OF c [of i]] by (simp add: d)
    then have "mid i s fr (set_task i ?f (dequeue_task i s))"
      using ok' by (intro mid_set_task [OF mid_of_dequeue [OF inv q]]) simp_all
    from enqueue_inv [OF inv i this, of now] show ?thesis using Some True ok' by (auto simp: ai_task_set_priority_def Let_def)
  next
    case False
    have "sched_inv (set_task i ?f s) fr" by (rule update_inv [OF inv]) (use False ok' in \<open>simp_all add: queued_def\<close>)
    then show ?thesis using Some False by (simp add: ai_task_set_priority_def Let_def)
  qed
qed (use inv in \<open>auto simp: ai_task_set_priority_def\<close>)

lemma inv_params: "sched_inv s fr \<Longrightarrow> i < unat (sc_next s) \<Longrightarrow> params_ok (at_sched (sc_tasks s i))"
  by (auto simp: sched_inv_def tasks_ok_def)

lemma queue_head:
  assumes inv: "sched_inv s fr" and l: "l < NUM_PRIORITY_LEVELS"
  shows "sc_queues s l = None \<longleftrightarrow> (\<forall>j \<in> queued s fr. task_level (sc_tasks s j) \<noteq> l)"
    and "sc_queues s l = Some h \<Longrightarrow> h \<in> queued s fr \<and> task_level (sc_tasks s h) = l
      \<and> (\<forall>j \<in> queued s fr. task_level (sc_tasks s j) = l \<longrightarrow> at_vruntime (sc_tasks s h) \<le> at_vruntime (sc_tasks s j))"
proof -
  from inv obtain qs where "queues_ok s (queued s fr) qs" by (auto simp: sched_inv_def)
  then have q: "tq.chain (sc_tasks s) (sc_queues s l) (qs l)" "by_vruntime (sc_tasks s) (qs l)"
    "set (qs l) = {j \<in> queued s fr. task_level (sc_tasks s j) = l}" using l by (auto simp: queues_ok_def)
  note h = tq.chain_head [OF q(1)]
  show "sc_queues s l = None \<longleftrightarrow> (\<forall>j \<in> queued s fr. task_level (sc_tasks s j) \<noteq> l)"
    using h q(3) by (cases "qs l") auto
  assume "sc_queues s l = Some h"
  then obtain xs where "qs l = h # xs" using h by (cases "qs l") auto
  then show "h \<in> queued s fr \<and> task_level (sc_tasks s h) = l
      \<and> (\<forall>j \<in> queued s fr. task_level (sc_tasks s j) = l \<longrightarrow> at_vruntime (sc_tasks s h) \<le> at_vruntime (sc_tasks s j))"
    using q(2,3) by (auto simp: by_vruntime_def)
qed

lemma dequeued_task:
  assumes inv: "sched_inv s fr" and i: "i \<in> queued s fr"
  shows "tcore (sc_tasks (dequeue_task i s) x) = tcore (sc_tasks s x)" and "sc_current (dequeue_task i s) = sc_current s"
    and "sc_next (dequeue_task i s) = sc_next s"
proof -
  from inv obtain qs where "queues_ok s (queued s fr) qs" by (auto simp: sched_inv_def)
  from dequeue_ok [OF this i] obtain m q z where
    d: "dequeue_task i s = s\<lparr>sc_tasks := m, sc_queues := q, sc_sizes := z\<rparr>" "\<And>x. tcore (m x) = tcore (sc_tasks s x)" by blast
  show "tcore (sc_tasks (dequeue_task i s) x) = tcore (sc_tasks s x)" "sc_current (dequeue_task i s) = sc_current s"
    "sc_next (dequeue_task i s) = sc_next s" by (simp_all add: d)
qed

lemma queuedD: "i \<in> queued s fr \<Longrightarrow> i < unat (sc_next s) \<and> i \<notin> fr"
  by (simp add: queued_def)

text \<open>A task whose deadline has passed leaves its queue as failed.\<close>

lemma fail_inv:
  assumes inv: "sched_inv s fr" and i: "i \<in> queued s fr"
  shows "sched_inv (fail_task i s) fr" and "queued (fail_task i s) fr = queued s fr - {i}"
    and "sc_current (fail_task i s) = sc_current s" and "at_state (sc_tasks (fail_task i s) i) = TASK_STATE_FAILED"
    and "x \<noteq> i \<Longrightarrow> tcore (sc_tasks (fail_task i s) x) = tcore (sc_tasks s x)"
proof -
  note l = queuedD [OF i] and d = dequeued_task [OF inv i]
  have "sched_inv (set_task i (at_state_update (\<lambda>_. TASK_STATE_FAILED)) (dequeue_task i s)) (fr - {i})"
    using l by (intro set_state_inv' [OF inv] mid_of_dequeue [OF inv i]) auto
  then show "sched_inv (fail_task i s) fr" using l by (simp add: fail_task_def Let_def)
  have t: "sc_tasks (fail_task i s) y = (if y = i then (sc_tasks (dequeue_task i s) i)\<lparr>at_state := TASK_STATE_FAILED\<rparr>
      else sc_tasks (dequeue_task i s) y)" for y by (simp add: fail_task_def Let_def set_task_def upd_def)
  show c: "x \<noteq> i \<Longrightarrow> tcore (sc_tasks (fail_task i s) x) = tcore (sc_tasks s x)" for x by (simp add: t d)
  show f: "at_state (sc_tasks (fail_task i s) i) = TASK_STATE_FAILED" by (simp add: t)
  have "sc_next (fail_task i s) = sc_next s" by (simp add: fail_task_def Let_def set_task_def d)
  then show "queued (fail_task i s) fr = queued s fr - {i}"
  proof (intro set_eqI)
    fix y
    show "sc_next (fail_task i s) = sc_next s \<Longrightarrow> y \<in> queued (fail_task i s) fr \<longleftrightarrow> y \<in> queued s fr - {i}"
      using f tcore_fields(2) [OF c, of y] by (cases "y = i") (simp_all add: queued_def)
  qed
  show "sc_current (fail_task i s) = sc_current s" by (simp add: fail_task_def Let_def set_task_def d)
qed

lemma dispatch_inv:
  assumes inv: "sched_inv s fr" and i: "i \<in> queued s fr" and c: "sc_current s = None"
  shows "sched_inv (dispatch_task now i s) fr" and "sc_current (dispatch_task now i s) = Some i"
    and "at_state (sc_tasks (dispatch_task now i s) i) = TASK_STATE_RUNNING"
proof -
  let ?f = "\<lambda>t. t\<lparr>at_state := TASK_STATE_RUNNING, at_last_scheduled := now, at_wait_time := at_wait_time t + (now - at_last_ready_ns t)\<rparr>"
  note l = queuedD [OF i] and d = dequeued_task [OF inv i]
  have e: "dispatch_task now i s = ((set_task i ?f (dequeue_task i s))\<lparr>sc_current := Some i\<rparr>)
      \<lparr>sc_stats := sc_stats (dispatch_task now i s)\<rparr>"
    by (simp add: dispatch_task_def Let_def set_task_def d c)
  have "sched_inv ((set_task i ?f (dequeue_task i s))\<lparr>sc_current := (if TASK_STATE_RUNNING = TASK_STATE_RUNNING
      then Some i else sc_current (dequeue_task i s))\<rparr>) (fr - {i})"
    using l d c by (intro set_state_inv [OF inv] mid_of_dequeue [OF inv i]) simp_all
  then show "sched_inv (dispatch_task now i s) fr" using l by (subst e) simp
  show "sc_current (dispatch_task now i s) = Some i" by (simp add: dispatch_task_def Let_def)
  show "at_state (sc_tasks (dispatch_task now i s) i) = TASK_STATE_RUNNING" by (subst e) (simp add: set_task_def upd_def)
qed

lemma pick_from_inv:
  assumes "sched_inv s fr" and "sc_current s = None" and "set levels \<subseteq> {..<NUM_PRIORITY_LEVELS}"
  shows "sched_inv (snd (pick_from now levels s)) fr"
  using assms
proof (induction now levels s rule: pick_from.induct)
  case (2 now level levels s)
  show ?case
  proof (cases "sc_queues s level")
    case (Some task)
    then have q: "task \<in> queued s fr" using queue_head(2) [OF 2(3), of level task] 2(5) by simp
    from fail_inv [OF 2(3) q] dispatch_inv [OF 2(3) q 2(4)] show ?thesis using 2 Some by simp
  qed (use 2 in simp)
qed simp

lemma requeue_inv:
  assumes inv: "sched_inv s fr" and c: "sc_current s = Some i"
    and m: "mid i s fr t"
  shows "\<exists>u. enqueue_task now i t = Some u \<and> sched_inv u fr \<and> sc_current u = None"
proof -
  have i: "i < unat (sc_next s)" "at_state (sc_tasks s i) = TASK_STATE_RUNNING" using inv c by (auto simp: sched_inv_def)
  then have "fr - {i} = fr" using inv by (auto simp: sched_inv_def)
  with enqueue_inv [OF inv i(1) m, of now] m c show ?thesis by (auto simp: mid_def)
qed

lemma yield_inv:
  assumes "sched_inv s fr"
  shows "\<exists>u. ai_sched_yield now s = Some u \<and> sched_inv u fr"
  using assms requeue_inv [OF assms _ mid_of_current [OF assms]]
  by (cases "sc_current s") (auto simp: ai_sched_yield_def requeue_current_def)

lemma preempt_inv:
  assumes inv: "sched_inv s fr"
  shows "\<exists>u. ai_sched_preempt now tid s = Some u \<and> sched_inv u fr"
proof (cases "find_task tid s")
  case (Some i)
  show ?thesis
  proof (cases "at_state (sc_tasks s i) = TASK_STATE_RUNNING")
    case True
    then have c: "sc_current s = Some i" using find_task_SomeD(1) [OF Some] inv by (auto simp: sched_inv_def)
    from requeue_inv [OF inv c mid_of_current [OF inv c], of now] Some True show ?thesis
      by (auto simp: ai_sched_preempt_def requeue_current_def count_preemption_def)
  qed (use Some inv in \<open>simp add: ai_sched_preempt_def\<close>)
qed (use inv in \<open>simp add: ai_sched_preempt_def\<close>)

lemma higher_waiting_eq:
  assumes inv: "sched_inv s fr" and p: "params_ok (at_sched a)"
  shows "higher_waiting (sp_policy (at_sched a)) s = Some (\<exists>j \<in> queued s fr. task_level (sc_tasks s j) < task_level a)"
proof -
  have l: "unat (sp_policy (at_sched a)) = task_level a" "task_level a < NUM_PRIORITY_LEVELS"
    using p by (simp_all add: params_ok_def task_level_def)
  have "(\<exists>l < task_level a. sc_queues s l \<noteq> None) \<longleftrightarrow> (\<exists>j \<in> queued s fr. task_level (sc_tasks s j) < task_level a)"
    using queue_head(1) [OF inv] l(2) by (metis less_trans)
  then show ?thesis using l by (auto simp: higher_waiting_def)
qed

lemma tick_inv:
  assumes inv: "sched_inv s fr"
  shows "\<exists>u. ai_sched_tick now ready s = Some u \<and> sched_inv u fr
    \<and> (\<forall>i. sc_current u = Some i \<longleftrightarrow> sc_current s = Some i
        \<and> now - at_last_scheduled (sc_tasks s i) < sp_time_slice_ns (at_sched (sc_tasks s i))
        \<and> \<not> (\<exists>j \<in> queued s fr. task_level (sc_tasks s j) < task_level (sc_tasks s i)))"
proof (cases "sc_current s")
  case None
  then show ?thesis using inv by (simp add: ai_sched_tick_def)
next
  case (Some i)
  let ?e = "now - at_last_scheduled (sc_tasks s i)" and ?w = "calc_weight (at_sched (sc_tasks s i))"
  let ?f = "\<lambda>t. t\<lparr>at_vruntime := at_vruntime t + ?e div ?w, at_exec_time := at_exec_time t + ?e\<rparr>"
  let ?s1 = "s\<lparr>sc_tick_count := sc_tick_count s + 1\<rparr>"
  let ?s2 = "set_task i ?f ?s1"
  have i: "i < unat (sc_next s)" "at_state (sc_tasks s i) = TASK_STATE_RUNNING" using inv Some by (auto simp: sched_inv_def)
  have po: "params_ok (at_sched (sc_tasks s i))" using inv_params [OF inv i(1)] .
  have inv1: "sched_inv ?s1 fr" using inv by simp
  have Q: "queued ?s1 fr = queued s fr" by (simp add: queued_def)
  have u: "update_vruntime i ?e ?s1 = Some ?s2" using po by (simp add: update_vruntime_def params_ok_def)
  have inv2: "sched_inv ?s2 fr" by (rule update_inv [OF inv1]) (use i po in \<open>auto simp: queued_def\<close>)
  have t: "at_sched (sc_tasks ?s2 i) = at_sched (sc_tasks s i)" "task_level (sc_tasks ?s2 x) = task_level (sc_tasks s x)"
    "queued ?s2 fr = queued s fr" for x
    by (auto simp: set_task_def upd_def task_level_def queued_def)
  have "mid i ?s1 fr (set_task i ?f (?s1\<lparr>sc_current := None\<rparr>))"
    by (rule mid_set_task [OF mid_of_current [OF inv1]]) (use Some po in simp_all)
  moreover have "set_task i ?f (?s1\<lparr>sc_current := None\<rparr>) = ?s2\<lparr>sc_current := None\<rparr>" by (simp add: set_task_def)
  ultimately have "mid i ?s1 fr (?s2\<lparr>sc_current := None\<rparr>)" by simp
  from requeue_inv [OF inv1 _ this, of ready] Some obtain v where
    v: "requeue_current ready i ?s2 = Some v" "sched_inv v fr" "sc_current v = None" by (auto simp: requeue_current_def)
  let ?hw = "\<exists>j \<in> queued s fr. task_level (sc_tasks s j) < task_level (sc_tasks s i)"
  have hw: "higher_waiting (sp_policy (at_sched (sc_tasks s i))) ?s2 = Some ?hw"
    using higher_waiting_eq [OF inv2 po] by (simp add: t)
  have e: "ai_sched_tick now ready s = (if sp_time_slice_ns (at_sched (sc_tasks s i)) \<le> ?e then Some v
      else if ?hw then Some (count_preemption v) else Some ?s2)"
    using Some by (simp add: ai_sched_tick_def Let_def u t(1) v(1) hw)
  show ?thesis
  proof (cases "sp_time_slice_ns (at_sched (sc_tasks s i)) \<le> ?e \<or> ?hw")
    case True
    then obtain w where w: "ai_sched_tick now ready s = Some w" "sched_inv w fr" "sc_current w = None"
      using v e by (cases "sp_time_slice_ns (at_sched (sc_tasks s i)) \<le> ?e") (simp_all add: count_preemption_def)
    have "\<not> (?e < sp_time_slice_ns (at_sched (sc_tasks s i)) \<and> \<not> ?hw)" using True by (meson leD)
    then have "\<not> (sc_current s = Some x \<and> now - at_last_scheduled (sc_tasks s x) < sp_time_slice_ns (at_sched (sc_tasks s x))
        \<and> \<not> (\<exists>j \<in> queued s fr. task_level (sc_tasks s j) < task_level (sc_tasks s x)))" for x
      using Some by (metis option.inject)
    then show ?thesis using w by (intro exI [of _ w]) simp
  next
    case False
    then show ?thesis using e inv2 Some by (auto simp: set_task_def)
  qed
qed

lemma sched_run_inv: "sched_run s fr \<Longrightarrow> sched_inv s fr"
proof (induction rule: sched_run.induct)
  case (submit s fr tid now st s')
  then show ?case using submit_inv [of s fr tid now] by auto
next
  case (resume s fr now tid st s')
  then show ?case using resume_inv [of s fr now tid] by auto
next
  case (set_priority s fr tid prio now st s')
  then show ?case using set_priority_inv [of s fr tid prio now] by auto
next
  case (pick s fr now out s')
  have "sched_inv (snd (pick_from now [0..<NUM_PRIORITY_LEVELS] s)) fr"
    by (rule pick_from_inv) (use pick in auto)
  then show ?case using pick.hyps(3) by (simp only: ai_sched_pick_next_def snd_conv)
next
  case (tick s fr now ready s')
  then show ?case using tick_inv [of s fr now ready] by auto
next
  case (yield s fr now s')
  then show ?case using yield_inv [of s fr now] by auto
next
  case (preempt s fr now tid s')
  then show ?case using preempt_inv [of s fr now tid] by auto
next
  case (init st s)
  then show ?case by (rule init_inv)
next
  case (create s fr params now name w has_out st out s')
  show ?case by (rule create_inv [OF create.IH create.hyps(2,3)])
next
  case (destroy s fr tid st s')
  show ?case by (rule destroy_inv [OF destroy.IH destroy.hyps(2,3)])
next
  case (suspend s fr tid st s')
  show ?case by (rule suspend_inv [OF suspend.IH suspend.hyps(2,3)])
qed

end
