(* ===== verification/AI_Sched_Correct.thy ===== *)
theory AI_Sched_Correct
  imports AI_Sched_Inv
begin

text \<open>
  The properties of the scheduler under a disciplined caller: which task is picked, when the
  running task is preempted, and the shape of the run queues.
\<close>

section \<open>What a pick promises\<close>

text \<open>The real-time task at the head of its queue, if it has outrun its deadline.\<close>

definition late_head :: "sched \<Rightarrow> nat option" where
  "late_head s = (case sc_queues s 0 of None \<Rightarrow> None
     | Some h \<Rightarrow> if deadline_missed 0 (sc_tasks s h) then Some h else None)"

text \<open>The tasks a pick chooses from: those that wait, without the real-time ones when their head is late.\<close>

definition candidates :: "sched \<Rightarrow> nat set \<Rightarrow> nat set" where
  "candidates s fr = {j \<in> queued s fr. late_head s \<noteq> None \<longrightarrow> task_level (sc_tasks s j) \<noteq> 0}"

text \<open>The first task by level and, within a level, by virtual runtime.\<close>

definition first_of :: "sched \<Rightarrow> nat set \<Rightarrow> nat \<Rightarrow> bool" where
  "first_of s js i \<longleftrightarrow> i \<in> js \<and> (\<forall>j \<in> js. task_level (sc_tasks s i) < task_level (sc_tasks s j)
     \<or> task_level (sc_tasks s i) = task_level (sc_tasks s j) \<and> at_vruntime (sc_tasks s i) \<le> at_vruntime (sc_tasks s j))"

text \<open>The state in which a pick makes its choice: a late head has failed.\<close>

definition after_miss :: "sched \<Rightarrow> sched" where
  "after_miss s = (case late_head s of None \<Rightarrow> s | Some h \<Rightarrow> fail_task h s)"

text \<open>
  Two tasks of one policy: the first waits in its queue, the second has only been created.
\<close>

definition inference_params :: sched_params where
  "inference_params = the (ai_sched_default_params SCHED_POLICY_INFERENCE (Some zero_params))"

definition one_task :: sched where
  "one_task = (let s0 = snd (ai_sched_init sched_boot);
     s1 = snd (snd (ai_task_create 1 ''a'' 0 (Some inference_params) True s0))
     in snd (the (ai_task_submit 2 1 s1)))"

definition two_tasks :: sched where
  "two_tasks = snd (snd (ai_task_create 3 ''b'' 0 (Some inference_params) True one_task))"

definition running_task :: sched where
  "running_task = snd (ai_sched_pick_next 9 two_tasks)"

section \<open>Picking a task\<close>

lemma head_first:
  assumes inv: "sched_inv s fr" and l: "l < NUM_PRIORITY_LEVELS" and h: "sc_queues s l = Some h"
    and js: "js \<subseteq> {j \<in> queued s fr. l \<le> task_level (sc_tasks s j)}" and i: "h \<in> js"
  shows "first_of s js h"
  using queue_head(2) [OF inv l h] js i by (auto simp: first_of_def)

lemma pick_below:
  assumes inv: "sched_inv s fr" and l: "set levels \<subseteq> {..<NUM_PRIORITY_LEVELS}" "0 \<notin> set levels" "sorted levels"
  defines "js \<equiv> {j \<in> queued s fr. task_level (sc_tasks s j) \<in> set levels}"
  shows "pick_from now levels s = (None, s) \<and> js = {}
    \<or> (\<exists>i. pick_from now levels s = (Some i, dispatch_task now i s) \<and> first_of s js i)"
  unfolding js_def using l
proof (induction levels)
  case (Cons l levels)
  have l6: "l < NUM_PRIORITY_LEVELS" "l \<noteq> 0" using Cons.prems by auto
  show ?case
  proof (cases "sc_queues s l")
    case None
    then have "{j \<in> queued s fr. task_level (sc_tasks s j) \<in> set (l # levels)} = {j \<in> queued s fr. task_level (sc_tasks s j) \<in> set levels}"
      using queue_head(1) [OF inv l6(1)] by auto
    then show ?thesis using Cons None by simp
  next
    case (Some h)
    have "first_of s {j \<in> queued s fr. task_level (sc_tasks s j) \<in> set (l # levels)} h"
      using queue_head(2) [OF inv l6(1) Some] Cons.prems(3) by (intro head_first [OF inv l6(1) Some]) auto
    then show ?thesis using Some l6(2) by (simp add: deadline_missed_def)
  qed
qed simp

lemma levels_split: "[0..<NUM_PRIORITY_LEVELS] = 0 # [1..<NUM_PRIORITY_LEVELS]"
  by (simp add: upt_rec)

lemma pick_next_levels:
  "ai_sched_pick_next now s = (case sc_queues s 0 of
     None \<Rightarrow> pick_from now [1..<NUM_PRIORITY_LEVELS] s
   | Some h \<Rightarrow> if deadline_missed 0 (sc_tasks s h) then pick_from now [1..<NUM_PRIORITY_LEVELS] (fail_task h s)
       else (Some h, dispatch_task now h s))"
  by (simp only: ai_sched_pick_next_def levels_split pick_from.simps)

lemma pick_lower:
  assumes "sched_inv s fr"
  defines "js \<equiv> {j \<in> queued s fr. task_level (sc_tasks s j) \<noteq> 0}"
  shows "pick_from now [1..<NUM_PRIORITY_LEVELS] s = (None, s) \<and> js = {}
    \<or> (\<exists>i. pick_from now [1..<NUM_PRIORITY_LEVELS] s = (Some i, dispatch_task now i s) \<and> first_of s js i)"
proof -
  have "task_level (sc_tasks s j) \<in> set [1..<NUM_PRIORITY_LEVELS] \<longleftrightarrow> task_level (sc_tasks s j) \<noteq> 0" for j
    using task_level_less [of "sc_tasks s j"] by auto
  then have js: "js = {j \<in> queued s fr. task_level (sc_tasks s j) \<in> set [1..<NUM_PRIORITY_LEVELS]}" unfolding js_def by simp
  show ?thesis unfolding js by (rule pick_below [OF assms(1)]) auto
qed

lemma after_miss_inv:
  assumes inv: "sched_inv s fr"
  shows "sched_inv (after_miss s) fr" and "sc_current (after_miss s) = sc_current s"
    and "tcore (sc_tasks (after_miss s) j)
      = tcore (if late_head s = Some j then (sc_tasks s j)\<lparr>at_state := TASK_STATE_FAILED\<rparr> else sc_tasks s j)"
    and "queued (after_miss s) fr = queued s fr - set_option (late_head s)"
    and "late_head s = Some h \<Longrightarrow> task_level (sc_tasks s h) = 0 \<and> h \<in> queued s fr"
proof -
  have q: "task_level (sc_tasks s h) = 0 \<and> h \<in> queued s fr" if "late_head s = Some h" for h
    using that queue_head(2) [OF inv, of 0] by (auto simp: late_head_def split: option.split_asm if_split_asm)
  then show "late_head s = Some h \<Longrightarrow> task_level (sc_tasks s h) = 0 \<and> h \<in> queued s fr" .
  show "sched_inv (after_miss s) fr" "sc_current (after_miss s) = sc_current s"
    "queued (after_miss s) fr = queued s fr - set_option (late_head s)"
    using inv q fail_inv(1-3) [OF inv] by (auto simp: after_miss_def split: option.split)
  have "tcore (sc_tasks (fail_task j s) j) = tcore ((sc_tasks s j)\<lparr>at_state := TASK_STATE_FAILED\<rparr>)" if "j \<in> queued s fr"
    using dequeued_task(1) [OF inv that, of j] by (simp add: fail_task_def Let_def set_task_def upd_def tcore_state)
  then show "tcore (sc_tasks (after_miss s) j)
      = tcore (if late_head s = Some j then (sc_tasks s j)\<lparr>at_state := TASK_STATE_FAILED\<rparr> else sc_tasks s j)"
    using q fail_inv(5) [OF inv] by (auto simp: after_miss_def split: option.split)
qed

lemma pick_next_choice:
  assumes inv: "sched_inv s fr"
  shows "ai_sched_pick_next now s = (None, after_miss s) \<and> candidates s fr = {}
    \<or> (\<exists>i. ai_sched_pick_next now s = (Some i, dispatch_task now i (after_miss s)) \<and> first_of s (candidates s fr) i)"
proof -
  note a = after_miss_inv [OF inv]
  have fields: "task_level (sc_tasks (after_miss s) j) = task_level (sc_tasks s j)"
    "at_vruntime (sc_tasks (after_miss s) j) = at_vruntime (sc_tasks s j)" for j
    using tcore_fields(4,7) [OF a(3) [of j]] by (simp_all add: task_level_def split: if_split_asm)
  then have firsts: "first_of (after_miss s) js = first_of s js" for js by (simp add: first_of_def fun_eq_iff)
  have low: "{j \<in> queued (after_miss s) fr. task_level (sc_tasks (after_miss s) j) \<noteq> 0} = {j \<in> queued s fr. task_level (sc_tasks s j) \<noteq> 0}"
    using a(4,5) by (auto simp: fields)
  note lower = pick_lower [OF a(1), of now, unfolded low firsts]
  show ?thesis
  proof (cases "sc_queues s 0")
    case None
    then have "late_head s = None" "candidates s fr = {j \<in> queued s fr. task_level (sc_tasks s j) \<noteq> 0}" "after_miss s = s"
      using queue_head(1) [OF inv, of 0] by (auto simp: candidates_def after_miss_def late_head_def)
    then show ?thesis using lower None by (simp add: pick_next_levels)
  next
    case (Some h)
    show ?thesis
    proof (cases "deadline_missed 0 (sc_tasks s h)")
      case True
      then have "late_head s = Some h" using Some by (simp add: late_head_def)
      then show ?thesis using lower Some True by (simp add: pick_next_levels candidates_def after_miss_def)
    next
      case False
      then have n: "late_head s = None" using Some by (simp add: late_head_def)
      have "first_of s (candidates s fr) h" using n queue_head(2) [OF inv _ Some]
        by (intro head_first [OF inv _ Some]) (auto simp: candidates_def)
      then show ?thesis using Some False n by (simp add: pick_next_levels after_miss_def)
    qed
  qed
qed

lemma dispatch_frame:
  assumes "sched_inv s fr" and "i \<in> queued s fr" and "j \<noteq> i"
  shows "tcore (sc_tasks (dispatch_task now i s) j) = tcore (sc_tasks s j)"
  using dequeued_task(1) [OF assms(1,2), of j] assms(3)
  by (simp add: dispatch_task_def Let_def set_task_def upd_def)

text \<open>
  C33: In a state that a disciplined caller reaches and in which no task is running, a pick
  dispatches the first of its candidates by level and virtual runtime, which then runs and is the
  current task; it dispatches nothing exactly when there is no candidate.  The candidates are the
  tasks that wait in the queues.  Only when the head of the real-time queue has outrun its
  deadline does this pick pass over every real-time task, and it then marks that head as failed.
  Of the other tasks nothing but the queue links changes.
\<close>

theorem pick_next_selects:
  assumes "sched_run s fr" and c: "sc_current s = None" and e: "ai_sched_pick_next now s = (out, s')"
  shows "(case out of
      None \<Rightarrow> candidates s fr = {} \<and> sc_current s' = None
    | Some i \<Rightarrow> first_of s (candidates s fr) i \<and> sc_current s' = Some i \<and> at_state (sc_tasks s' i) = TASK_STATE_RUNNING)
    \<and> (\<forall>j. out \<noteq> Some j \<longrightarrow> tcore (sc_tasks s' j)
        = tcore (if late_head s = Some j then (sc_tasks s j)\<lparr>at_state := TASK_STATE_FAILED\<rparr> else sc_tasks s j))"
proof -
  have inv: "sched_inv s fr" using assms(1) by (rule sched_run_inv)
  note a = after_miss_inv [OF inv]
  from pick_next_choice [OF inv, of now] show ?thesis
  proof (elim disjE exE conjE)
    assume "ai_sched_pick_next now s = (None, after_miss s)" "candidates s fr = {}"
    then show ?thesis using e a(2,3) c by simp
  next
    fix i assume p: "ai_sched_pick_next now s = (Some i, dispatch_task now i (after_miss s))" "first_of s (candidates s fr) i"
    then have "i \<in> queued (after_miss s) fr" using a(4,5) by (auto simp: first_of_def candidates_def)
    note d = dispatch_inv(2,3) [OF a(1) this] dispatch_frame [OF a(1) this]
    have s': "out = Some i" "s' = dispatch_task now i (after_miss s)" using e p(1) by simp_all
    have "tcore (sc_tasks s' j) = tcore (if late_head s = Some j then (sc_tasks s j)\<lparr>at_state := TASK_STATE_FAILED\<rparr> else sc_tasks s j)"
      if "j \<noteq> i" for j using d(3) [OF that] a(3) s'(2) by simp
    then show ?thesis using p(2) d(1,2) a(2) c unfolding s' by simp
  qed
qed

section \<open>Ticks and queues\<close>

text \<open>
  C34: In every state that a disciplined caller reaches, where policies are in range and weights
  not zero, a clock tick returns, and a task holds the processor after it exactly if it held it
  before, its time slice has not run out, and no task of a higher level waits.
\<close>

theorem tick_preempts:
  assumes "sched_run s fr"
  shows "\<exists>s'. ai_sched_tick now ready s = Some s' \<and> (\<forall>i. sc_current s' = Some i \<longleftrightarrow>
    sc_current s = Some i
    \<and> now - at_last_scheduled (sc_tasks s i) < sp_time_slice_ns (at_sched (sc_tasks s i))
    \<and> (\<forall>j \<in> queued s fr. task_level (sc_tasks s i) \<le> task_level (sc_tasks s j)))"
proof -
  have "(\<not> (\<exists>j \<in> queued s fr. task_level (sc_tasks s j) < task_level (sc_tasks s i)))
      = (\<forall>j \<in> queued s fr. task_level (sc_tasks s i) \<le> task_level (sc_tasks s j))" for i by (auto simp: not_less)
  with tick_inv [OF sched_run_inv [OF assms], of now ready] show ?thesis by auto
qed

text \<open>
  C32: In every state that a disciplined caller reaches, the six run queues are well-linked
  lists in the order of virtual runtime that hold every waiting task once, in the queue of
  its level; the queue sizes are their lengths; and the running task is the current one.
\<close>

theorem run_queues_wellformed:
  assumes "sched_run s fr"
  shows "\<exists>qs. (\<forall>l < NUM_PRIORITY_LEVELS. tq.chain (sc_tasks s) (sc_queues s l) (qs l)
        \<and> by_vruntime (sc_tasks s) (qs l) \<and> distinct (qs l)
        \<and> set (qs l) = {i \<in> queued s fr. task_level (sc_tasks s i) = l} \<and> unat (sc_sizes s l) = length (qs l))
    \<and> (\<forall>i. sc_current s = Some i \<longleftrightarrow> i < unat (sc_next s) \<and> at_state (sc_tasks s i) = TASK_STATE_RUNNING)"
proof -
  have inv: "sched_inv s fr" using assms by (rule sched_run_inv)
  then obtain qs where ok: "queues_ok s (queued s fr) qs" by (auto simp: sched_inv_def)
  have "distinct (qs l) \<and> unat (sc_sizes s l) = length (qs l)" if l: "l < NUM_PRIORITY_LEVELS" for l
  proof -
    have q: "tq.chain (sc_tasks s) (sc_queues s l) (qs l)" "set (qs l) = {i \<in> queued s fr. task_level (sc_tasks s i) = l}"
      "sc_sizes s l = of_nat (length (qs l))" using ok l by (auto simp: queues_ok_def)
    have d: "distinct (qs l)" using tq.chain_distinct [OF q(1)] .
    have "set (qs l) \<subseteq> {..<unat (sc_next s)}" using q(2) by (auto simp: queued_def)
    then have "length (qs l) \<le> unat (sc_next s)" using card_mono [of "{..<unat (sc_next s)}" "set (qs l)"] distinct_card [OF d] by simp
    also have "\<dots> \<le> 256" using inv by (simp add: sched_inv_def tasks_ok_def word_le_nat_alt)
    finally show ?thesis using d unat_of_nat_small [of "length (qs l)", where ?'a = 32] by (simp add: q(3))
  qed
  then show ?thesis using ok inv by (intro exI [of _ qs]) (auto simp: queues_ok_def sched_inv_def)
qed

lemma two_tasks_run: "sched_run one_task {}" "sched_run two_tasks {1}"
proof -
  let ?s0 = "snd (ai_sched_init sched_boot)"
  let ?c = "ai_task_create 1 ''a'' 0 (Some inference_params) True ?s0"
  let ?d = "ai_task_create 3 ''b'' 0 (Some inference_params) True one_task"
  have p: "\<forall>p. Some inference_params = Some p \<longrightarrow> params_ok p" by (simp, code_simp)
  have o: "fst (snd ?c) = Some 0" "find_task 1 (snd (snd ?c)) = Some 0" "fst (snd ?d) = Some 1"
    "ai_task_submit 2 1 (snd (snd ?c)) \<noteq> None" by code_simp+
  have 0: "sched_run ?s0 {}" by (rule sched_run.init [of "fst (ai_sched_init sched_boot)"]) simp
  have "sched_run (snd (snd ?c)) ({} \<union> set_option (fst (snd ?c)))" by (rule sched_run.create [OF 0 p, of 1 "''a''" 0 True "fst ?c"]) simp
  then have 1: "sched_run (snd (snd ?c)) {0}" by (simp add: o(1))
  from o(4) obtain st where e: "ai_task_submit 2 1 (snd (snd ?c)) = Some (st, one_task)"
    by (auto simp: one_task_def Let_def)
  from sched_run.submit [OF 1 _ e] show 2: "sched_run one_task {}" by (simp add: o(2) queued_def)
  have "sched_run (snd (snd ?d)) ({} \<union> set_option (fst (snd ?d)))" by (rule sched_run.create [OF 2 p, of 3 "''b''" 0 True "fst ?d"]) simp
  then show "sched_run two_tasks {1}" by (simp add: o(3) two_tasks_def)
qed

lemma sched_example_idle: "sc_current two_tasks = None"
  by code_simp

section \<open>Witnesses\<close>

theorem pick_next_selects_witness:
  "\<exists>s fr s'. sched_run s fr \<and> sc_current s = None \<and> ai_sched_pick_next 9 s = (Some 0, s') \<and> late_head s = None
     \<and> first_of s (candidates s fr) 0 \<and> sc_current s' = Some 0 \<and> at_state (sc_tasks s' 0) = TASK_STATE_RUNNING
     \<and> tcore (sc_tasks s' 1) = tcore (sc_tasks s 1)"
proof -
  have c: "sc_current two_tasks = None" "fst (ai_sched_pick_next 9 two_tasks) = Some 0" "late_head two_tasks = None" by code_simp+
  then have e: "ai_sched_pick_next 9 two_tasks = (Some 0, snd (ai_sched_pick_next 9 two_tasks))" by (simp add: prod_eq_iff)
  from pick_next_selects [OF two_tasks_run(2) c(1) e] c two_tasks_run(2) e show ?thesis
    by (intro exI [of _ two_tasks] exI [of _ "{1}"] exI [of _ "snd (ai_sched_pick_next 9 two_tasks)"]) simp
qed

lemma running_run: "sched_run running_task {1}" and running_current: "sc_current running_task = Some 0"
proof -
  show "sched_run running_task {1}" unfolding running_task_def
    by (rule sched_run.pick [OF two_tasks_run(2) sched_example_idle surjective_pairing])
  show "sc_current running_task = Some 0" by code_simp
qed

theorem tick_preempts_witness:
  "\<exists>s fr s' s''. sched_run s fr \<and> sc_current s = Some 0
     \<and> ai_sched_tick 10 11 s = Some s' \<and> sc_current s' = Some 0
     \<and> ai_sched_tick 10000009 10000010 s = Some s'' \<and> sc_current s'' = None"
proof -
  have d: "at_last_scheduled (sc_tasks running_task 0) = 9" "sp_time_slice_ns (at_sched (sc_tasks running_task 0)) = 10000000"
    "\<not> at_state (sc_tasks running_task 0) = TASK_STATE_READY" "unat (sc_next running_task) = 2" by code_simp+
  have "x \<notin> queued running_task {1}" for x using d(3,4) by (cases "x = 0") (auto simp: queued_def)
  then have q: "queued running_task {1} = {}" by blast
  obtain s' where s': "ai_sched_tick 10 11 running_task = Some s'" "sc_current s' = Some 0"
    using tick_preempts [OF running_run, of 10 11] running_current d q by auto
  have "\<not> (10000009 :: u64) - 9 < 10000000" by simp
  then obtain s'' where s'': "ai_sched_tick 10000009 10000010 running_task = Some s''" "\<And>i. sc_current s'' \<noteq> Some i"
    using tick_preempts [OF running_run, of 10000009 10000010] running_current d(1,2) by (metis option.inject)
  then have "sc_current s'' = None" by (cases "sc_current s''") auto
  then show ?thesis using running_run running_current s' s'' by blast
qed

theorem run_queues_wellformed_witness:
  "\<exists>s fr. sched_run s fr \<and> sc_queues s 1 = Some 0 \<and>
    (\<exists>qs. (\<forall>l < NUM_PRIORITY_LEVELS. tq.chain (sc_tasks s) (sc_queues s l) (qs l)
        \<and> by_vruntime (sc_tasks s) (qs l) \<and> distinct (qs l)
        \<and> set (qs l) = {i \<in> queued s fr. task_level (sc_tasks s i) = l} \<and> unat (sc_sizes s l) = length (qs l))
    \<and> (\<forall>i. sc_current s = Some i \<longleftrightarrow> i < unat (sc_next s) \<and> at_state (sc_tasks s i) = TASK_STATE_RUNNING))"
proof (rule exI [of _ two_tasks], rule exI [of _ "{1}"], rule conjI, rule two_tasks_run(2), rule conjI)
  show "sc_queues two_tasks 1 = Some 0" by code_simp
qed (rule run_queues_wellformed [OF two_tasks_run(2)])

end
