(* ===== verification/AI_Sched_Misuse.thy ===== *)
theory AI_Sched_Misuse
  imports AI_Sched_Correct
begin

text \<open>
  Two ways in which a caller breaks the run queues of \<^verbatim>\<open>kernel/sched/ai_sched.c\<close>: suspending a task
  that was never submitted, and submitting a task that already waits.  Both start from any state
  that a disciplined caller reaches.
\<close>

text \<open>States that agree in everything but the queue sizes.\<close>

definition same_tasks :: "sched \<Rightarrow> sched \<Rightarrow> bool" where
  "same_tasks s t \<longleftrightarrow> s\<lparr>sc_sizes := (\<lambda>_. 0)\<rparr> = t\<lparr>sc_sizes := (\<lambda>_. 0)\<rparr>"

text \<open>The states the scheduler reaches on its own: by picks on an idle processor, ticks, yields and preemptions.\<close>

inductive sched_goes :: "sched \<Rightarrow> sched \<Rightarrow> bool" for s where
  start: "sched_goes s s"
| pick: "sched_goes s t \<Longrightarrow> sc_current t = None \<Longrightarrow> ai_sched_pick_next now t = (out, t') \<Longrightarrow> sched_goes s t'"
| tick: "sched_goes s t \<Longrightarrow> ai_sched_tick now ready t = Some t' \<Longrightarrow> sched_goes s t'"
| yield: "sched_goes s t \<Longrightarrow> ai_sched_yield now t = Some t' \<Longrightarrow> sched_goes s t'"
| preempt: "sched_goes s t \<Longrightarrow> ai_sched_preempt now tid t = Some t' \<Longrightarrow> sched_goes s t'"

text \<open>The tasks that wait on one level.\<close>

definition waiting_on :: "nat \<Rightarrow> sched \<Rightarrow> nat set \<Rightarrow> nat set" where
  "waiting_on l s fr = {j \<in> queued s fr. task_level (sc_tasks s j) = l}"

section \<open>The queue sizes do not matter to the order of tasks\<close>

lemma same_tasksE:
  assumes "same_tasks s t"
  obtains z where "t = s\<lparr>sc_sizes := z\<rparr>"
proof (rule that)
  show "t = s\<lparr>sc_sizes := sc_sizes t\<rparr>" using assms by (cases s; cases t) (simp add: same_tasks_def)
qed

lemma same_tasksI: "same_tasks s (s\<lparr>sc_sizes := z\<rparr>)"
  by (simp add: same_tasks_def)

lemma same_tasks_dequeue: "same_tasks s t \<Longrightarrow> same_tasks (dequeue_task i s) (dequeue_task i t)"
  by (elim same_tasksE) (simp add: same_tasks_def dequeue_task_def Let_def split: option.split)

lemma same_tasks_fields:
  assumes "same_tasks s t"
  shows "sc_queues t = sc_queues s" "sc_tasks t = sc_tasks s" "sc_current t = sc_current s" "sc_next t = sc_next s"
  using assms by (elim same_tasksE, simp)+

lemma same_tasks_update:
  assumes "same_tasks s t"
  shows "same_tasks (set_task i g s) (set_task i g t)" "same_tasks (sc_stats_update h s) (sc_stats_update h t)"
    "same_tasks (sc_current_update k s) (sc_current_update k t)"
  using assms by (elim same_tasksE, simp add: same_tasks_def set_task_def)+

lemma same_tasks_fail:
  assumes "same_tasks s t"
  shows "same_tasks (fail_task i s) (fail_task i t)"
  using same_tasks_dequeue [OF assms, of i]
  by (elim same_tasksE) (simp add: fail_task_def Let_def set_task_def same_tasks_def)

lemma same_tasks_dispatch:
  assumes "same_tasks s t"
  shows "same_tasks (dispatch_task now i s) (dispatch_task now i t)"
  using same_tasks_dequeue [OF assms, of i]
  by (elim same_tasksE) (simp add: dispatch_task_def Let_def set_task_def same_tasks_def)

lemma same_tasks_pick:
  "same_tasks s t \<Longrightarrow> fst (pick_from now ls t) = fst (pick_from now ls s) \<and> same_tasks (snd (pick_from now ls s)) (snd (pick_from now ls t))"
  by (induction ls arbitrary: s t) (auto simp: same_tasks_fields same_tasks_fail same_tasks_dispatch split: option.split)

lemma same_tasks_link: "link_task i l (s\<lparr>sc_sizes := z\<rparr>) = map_option (sc_sizes_update (\<lambda>_. z)) (link_task i l s)"
  by (simp add: link_task_def Let_def split: option.split Option.bind_split)

lemma same_tasks_enqueue:
  assumes "same_tasks s t" and "enqueue_task now i s = Some s'"
  shows "\<exists>t'. enqueue_task now i t = Some t' \<and> same_tasks s' t'"
proof -
  obtain z where t: "t = s\<lparr>sc_sizes := z\<rparr>" using assms(1) by (rule same_tasksE)
  then show ?thesis using assms(2)
    by (auto simp: enqueue_task_def Let_def same_tasks_link set_task_def same_tasks_def split: Option.bind_split_asm)
qed

lemma same_tasks_requeue:
  assumes "same_tasks s t" and "requeue_current now i s = Some s'"
  shows "\<exists>t'. requeue_current now i t = Some t' \<and> same_tasks s' t'"
  using same_tasks_enqueue [OF same_tasks_update(3) [OF assms(1)]] assms(2) unfolding requeue_current_def by blast

lemma same_tasks_count: "same_tasks s t \<Longrightarrow> same_tasks (count_preemption s) (count_preemption t)"
  by (elim same_tasksE) (simp add: same_tasks_def count_preemption_def)

lemma same_tasks_higher: "same_tasks s t \<Longrightarrow> higher_waiting p t = higher_waiting p s"
  by (simp add: higher_waiting_def same_tasks_fields)

lemma same_tasks_yield:
  assumes "same_tasks s t" and "ai_sched_yield now s = Some s'"
  shows "\<exists>t'. ai_sched_yield now t = Some t' \<and> same_tasks s' t'"
  using assms same_tasks_requeue [OF assms(1), of now _ s']
  by (auto simp: ai_sched_yield_def same_tasks_fields split: option.split_asm)

lemma same_tasks_preempt:
  assumes "same_tasks s t" and "ai_sched_preempt now tid s = Some s'"
  shows "\<exists>t'. ai_sched_preempt now tid t = Some t' \<and> same_tasks s' t'"
proof -
  have f: "find_task tid t = find_task tid s" using same_tasks_fields [OF assms(1)] by (simp add: find_task_def)
  show ?thesis
  proof (cases "find_task tid s")
    case (Some i)
    show ?thesis
    proof (cases "at_state (sc_tasks s i) = TASK_STATE_RUNNING")
      case True
      then obtain u where u: "requeue_current now i s = Some u" "s' = count_preemption u"
        using assms(2) Some by (auto simp: ai_sched_preempt_def)
      from same_tasks_requeue [OF assms(1) u(1)] Some True show ?thesis
        by (auto simp: ai_sched_preempt_def f same_tasks_fields [OF assms(1)] u(2) intro: same_tasks_count)
    qed (use assms Some f same_tasks_fields [OF assms(1)] in \<open>simp add: ai_sched_preempt_def\<close>)
  qed (use assms f in \<open>simp add: ai_sched_preempt_def\<close>)
qed

lemma same_tasks_tick:
  assumes "same_tasks s t" and "ai_sched_tick now ready s = Some s'"
  shows "\<exists>t'. ai_sched_tick now ready t = Some t' \<and> same_tasks s' t'"
proof (cases "sc_current s")
  case None
  have "same_tasks (s\<lparr>sc_tick_count := sc_tick_count s + 1\<rparr>) (t\<lparr>sc_tick_count := sc_tick_count t + 1\<rparr>)"
    using assms(1) by (elim same_tasksE) (simp add: same_tasks_def)
  then show ?thesis using None assms same_tasks_fields(3) [OF assms(1)] by (auto simp: ai_sched_tick_def)
next
  case (Some i)
  let ?s1 = "s\<lparr>sc_tick_count := sc_tick_count s + 1\<rparr>" and ?t1 = "t\<lparr>sc_tick_count := sc_tick_count t + 1\<rparr>"
  let ?e = "now - at_last_scheduled (sc_tasks s i)"
  have 1: "same_tasks ?s1 ?t1" using assms(1) by (elim same_tasksE) (simp add: same_tasks_def)
  from assms(2) Some obtain s2 where s2: "update_vruntime i ?e ?s1 = Some s2"
    by (cases "update_vruntime i ?e ?s1") (simp_all add: ai_sched_tick_def Let_def)
  then obtain t2 where t2: "update_vruntime i ?e ?t1 = Some t2" "same_tasks s2 t2"
    using same_tasks_update(1) [OF 1] same_tasks_fields(2) [OF assms(1)]
    by (auto simp: update_vruntime_def Let_def split: if_split_asm)
  note f = same_tasks_fields(2) [OF t2(2)] same_tasks_higher [OF t2(2)]
  have es: "ai_sched_tick now ready s = (if sp_time_slice_ns (at_sched (sc_tasks s2 i)) \<le> ?e then requeue_current ready i s2
      else do { waiting \<leftarrow> higher_waiting (sp_policy (at_sched (sc_tasks s2 i))) s2;
        if waiting then map_option count_preemption (requeue_current ready i s2) else Some s2 })"
    using Some s2 by (simp add: ai_sched_tick_def Let_def)
  have et: "ai_sched_tick now ready t = (if sp_time_slice_ns (at_sched (sc_tasks s2 i)) \<le> ?e then requeue_current ready i t2
      else do { waiting \<leftarrow> higher_waiting (sp_policy (at_sched (sc_tasks s2 i))) s2;
        if waiting then map_option count_preemption (requeue_current ready i t2) else Some t2 })"
    using Some t2(1) same_tasks_fields(2,3) [OF assms(1)] by (simp add: ai_sched_tick_def Let_def f)
  show ?thesis
  proof (cases "sp_time_slice_ns (at_sched (sc_tasks s2 i)) \<le> ?e")
    case True
    then show ?thesis using es et assms(2) same_tasks_requeue [OF t2(2)] by simp
  next
    case False
    then obtain w where w: "higher_waiting (sp_policy (at_sched (sc_tasks s2 i))) s2 = Some w"
      using es assms(2) by (cases "higher_waiting (sp_policy (at_sched (sc_tasks s2 i))) s2") simp_all
    show ?thesis
    proof (cases w)
      case True
      then obtain u where u: "requeue_current ready i s2 = Some u" "s' = count_preemption u"
        using False w es assms(2) by (cases "requeue_current ready i s2") simp_all
      from same_tasks_requeue [OF t2(2) u(1)] False w True et show ?thesis by (auto simp: u(2) intro: same_tasks_count)
    qed (use False w es et assms(2) t2(2) in auto)
  qed
qed

section \<open>Tasks the queues have lost\<close>

text \<open>
  When the queues are in order but for their sizes and leave out the tasks in \<open>fr\<close>, they do so for as
  long as the scheduler goes on by itself.
\<close>

lemma goes_keeps:
  assumes "sched_goes s u" and "same_tasks s t" and "sched_inv t fr"
  shows "\<exists>t'. same_tasks u t' \<and> sched_inv t' fr"
  using assms
proof (induction rule: sched_goes.induct)
  case start
  then show ?case by blast
next
  case (pick u now out u')
  then obtain t' where t': "same_tasks u t'" "sched_inv t' fr" by blast
  have "sched_inv (snd (pick_from now [0..<NUM_PRIORITY_LEVELS] t')) fr"
    using pick.hyps(2) same_tasks_fields(3) [OF t'(1)] by (intro pick_from_inv [OF t'(2)]) auto
  moreover have "same_tasks u' (snd (pick_from now [0..<NUM_PRIORITY_LEVELS] t'))"
    using same_tasks_pick [OF t'(1)] pick.hyps(3) unfolding ai_sched_pick_next_def by (metis snd_conv)
  ultimately show ?case by blast
next
  case (tick u now ready u')
  then obtain t' where t': "same_tasks u t'" "sched_inv t' fr" by blast
  from same_tasks_tick [OF t'(1) tick.hyps(2)] tick_inv [OF t'(2), of now ready] show ?case by auto
next
  case (yield u now u')
  then obtain t' where t': "same_tasks u t'" "sched_inv t' fr" by blast
  from same_tasks_yield [OF t'(1) yield.hyps(2)] yield_inv [OF t'(2), of now] show ?case by auto
next
  case (preempt u now tid u')
  then obtain t' where t': "same_tasks u t'" "sched_inv t' fr" by blast
  from same_tasks_preempt [OF t'(1) preempt.hyps(2)] preempt_inv [OF t'(2), of now tid] show ?case by auto
qed

lemma lost_not_picked:
  assumes "same_tasks u t" and inv: "sched_inv t fr" and "j \<in> fr"
  shows "at_state (sc_tasks u j) = TASK_STATE_READY" and "fst (ai_sched_pick_next now u) \<noteq> Some j"
proof -
  show "at_state (sc_tasks u j) = TASK_STATE_READY"
    using inv assms(3) same_tasks_fields(2) [OF assms(1)] by (auto simp: sched_inv_def)
  have "fst (ai_sched_pick_next now u) = fst (ai_sched_pick_next now t)"
    using same_tasks_pick [OF assms(1)] by (simp add: ai_sched_pick_next_def)
  then show "fst (ai_sched_pick_next now u) \<noteq> Some j"
    using pick_next_choice [OF inv, of now] assms(3) by (auto simp: first_of_def candidates_def queued_def)
qed

lemma find_own_id:
  assumes inv: "sched_inv s fr" and i: "i < unat (sc_next s)"
  shows "find_task (at_id (sc_tasks s i)) s = Some i"
proof -
  have ids: "unat (at_id (sc_tasks s j)) = Suc j" if "j < unat (sc_next s)" for j
  proof -
    have ok: "sc_next s \<le> MAX_TASKS" "at_id (sc_tasks s j) = of_nat (Suc j)"
      using inv that unfolding sched_inv_def tasks_ok_def by blast+
    have "unat (sc_next s) \<le> 256" using ok(1) by (simp add: word_le_nat_alt)
    then have "Suc j < 2 ^ LENGTH(32)" using that by simp
    then show ?thesis unfolding ok(2) by (rule unat_of_nat_small)
  qed
  have "find_task (at_id (sc_tasks s i)) s \<noteq> None" using i unfolding find_task_def find_None_iff by fastforce
  then obtain j where j: "find_task (at_id (sc_tasks s i)) s = Some j" by blast
  have "Suc j = Suc i" unfolding ids [OF find_task_SomeD(1) [OF j], symmetric] ids [OF i, symmetric]
    by (simp only: find_task_SomeD(2) [OF j])
  then show ?thesis using j by simp
qed

text \<open>What is left after a task has been created and suspended without having been submitted.\<close>

lemma create_suspend:
  assumes inv: "sched_inv s fr" and p: "params_ok p"
    and e: "ai_task_create now name w (Some p) True s = (AIOS_OK, Some i, s1)"
  defines "s2 \<equiv> snd (ai_task_suspend (at_id (sc_tasks s1 i)) s1)" and "l \<equiv> unat (sp_policy p)"
  shows "fst (ai_task_suspend (at_id (sc_tasks s1 i)) s1) = AIOS_OK" and "i = unat (sc_next s)"
    and "sc_queues s2 = (sc_queues s)(l := None)" and "sc_sizes s2 = (sc_sizes s)(l := sc_sizes s l - 1)"
    and "sc_tasks s2 = (sc_tasks s)(i := (sc_tasks s1 i)\<lparr>at_state := TASK_STATE_SUSPENDED\<rparr>)"
    and "sc_next s2 = sc_next s1" and "sc_next_id s2 = sc_next_id s1" and "sc_current s2 = sc_current s"
    and "unat (sc_next s1) = Suc i"
proof -
  have lt: "sc_next s < MAX_TASKS"
  proof (rule ccontr)
    assume "\<not> sc_next s < MAX_TASKS"
    then have "alloc_task s = (None, s)" by (simp add: alloc_task_def not_less)
    then show False using e by (simp add: ai_task_create_def)
  qed
  show i: "i = unat (sc_next s)" using e lt by (simp add: ai_task_create_def alloc_task_eq Let_def)
  have new: "at_next (sc_tasks s1 i) = None" "at_prev (sc_tasks s1 i) = None" "at_state (sc_tasks s1 i) = TASK_STATE_READY"
    "at_sched (sc_tasks s1 i) = p" "sc_queues s1 = sc_queues s" "sc_sizes s1 = sc_sizes s" "sc_current s1 = sc_current s"
    "sc_next s1 = sc_next s + 1" "\<And>x. x \<noteq> i \<Longrightarrow> sc_tasks s1 x = sc_tasks s x"
    using e lt by (auto simp: ai_task_create_def alloc_task_eq Let_def set_task_def upd_def)
  show n: "unat (sc_next s1) = Suc i"
    using lt unat_add_no_wrap [of "sc_next s" 1] by (simp add: new(8) i word_less_nat_alt)
  have inv1: "sched_inv s1 (fr \<union> set_option (Some i))" using create_inv [OF inv _ e] p by simp
  have f: "find_task (at_id (sc_tasks s1 i)) s1 = Some i" by (rule find_own_id [OF inv1]) (simp add: n)
  then show "fst (ai_task_suspend (at_id (sc_tasks s1 i)) s1) = AIOS_OK" by (simp add: ai_task_suspend_def)
  have lev: "task_level (sc_tasks s1 i) = l" using p by (simp add: task_level_def new(4) l_def params_ok_def)
  have idem: "(sc_tasks s1)(i := (sc_tasks s1 i)\<lparr>at_next := None, at_prev := None\<rparr>) = sc_tasks s1"
    using new(1,2) by (intro fun_upd_idem) (cases "sc_tasks s1 i", simp)
  have d: "sc_tasks (dequeue_task i s1) = sc_tasks s1" "sc_queues (dequeue_task i s1) = (sc_queues s)(l := None)"
    "sc_sizes (dequeue_task i s1) = (sc_sizes s)(l := sc_sizes s l - 1)" "sc_next (dequeue_task i s1) = sc_next s1"
    "sc_next_id (dequeue_task i s1) = sc_next_id s1" "sc_current (dequeue_task i s1) = sc_current s1"
    by (simp_all add: dequeue_task_def Let_def lev new(1,2,5,6) upd_def upd_opt_def idem)
  have s2: "s2 = set_task i (at_state_update (\<lambda>_. TASK_STATE_SUSPENDED)) (dequeue_task i s1)"
    by (simp add: s2_def ai_task_suspend_def f take_off_def new(3))
  show "sc_queues s2 = (sc_queues s)(l := None)" "sc_sizes s2 = (sc_sizes s)(l := sc_sizes s l - 1)"
    "sc_next s2 = sc_next s1" "sc_next_id s2 = sc_next_id s1" "sc_current s2 = sc_current s"
    by (simp_all add: s2 d set_task_def new(7))
  show "sc_tasks s2 = (sc_tasks s)(i := (sc_tasks s1 i)\<lparr>at_state := TASK_STATE_SUSPENDED\<rparr>)"
    using new(9) by (simp add: s2 d set_task_def upd_def fun_eq_iff)
qed

lemma create_suspend_inv:
  assumes inv: "sched_inv s fr" and p: "params_ok p"
    and e: "ai_task_create now name w (Some p) True s = (AIOS_OK, Some i, s1)"
  defines "s2 \<equiv> snd (ai_task_suspend (at_id (sc_tasks s1 i)) s1)" and "l \<equiv> unat (sp_policy p)"
  shows "sched_inv (s2\<lparr>sc_sizes := (sc_sizes s)(l := 0)\<rparr>) (fr \<union> waiting_on l s fr)"
proof -
  note c = create_suspend [OF inv p e, folded s2_def l_def]
  let ?t = "s2\<lparr>sc_sizes := (sc_sizes s)(l := 0)\<rparr>" and ?fr = "fr \<union> waiting_on l s fr"
  have inv1: "sched_inv s1 (fr \<union> set_option (Some i))" using create_inv [OF inv _ e] p by simp
  have tk: "sc_tasks s2 j = sc_tasks s j" if "j < i" for j using that by (simp add: c(5))
  have "tasks_ok s1" "tasks_ok s" using inv1 inv by (simp_all add: sched_inv_def)
  then have 1: "tasks_ok ?t" using c(9) by (auto simp: tasks_ok_def c(5,6,7) c(2) [symmetric] less_Suc_eq)
  have Q: "queued ?t ?fr = queued s fr - waiting_on l s fr"
    by (auto simp: queued_def c(5,6,9) c(2) [symmetric] less_Suc_eq waiting_on_def)
  from inv obtain qs where qs: "queues_ok s (queued s fr) qs" by (auto simp: sched_inv_def)
  have "queues_ok ?t (queued ?t ?fr) (qs(l := []))"
    unfolding queues_ok_def
  proof (intro allI impI)
    fix m assume m: "m < NUM_PRIORITY_LEVELS"
    from qs m have q: "tq.chain (sc_tasks s) (sc_queues s m) (qs m)" "by_vruntime (sc_tasks s) (qs m)"
      "set (qs m) = {j \<in> queued s fr. task_level (sc_tasks s j) = m}" "sc_sizes s m = of_nat (length (qs m))"
      by (auto simp: queues_ok_def)
    have below: "j < i" if "j \<in> queued s fr" for j using that by (simp add: queued_def c(2))
    have same: "sc_tasks s2 j = sc_tasks s j" if "j \<in> set (qs m)" for j using that q(3) below tk by blast
    have ch: "tq.chain (sc_tasks s2) (sc_queues s m) (qs m)" by (rule tq.chain_frame [OF q(1)]) (simp add: same)
    have bv: "by_vruntime (sc_tasks s2) (qs m)" using q(2) same by (subst by_vruntime_cong) auto
    have lv: "{j \<in> queued ?t ?fr. task_level (sc_tasks ?t j) = m} = (if m = l then {} else set (qs m))"
      unfolding Q q(3) using below tk by (auto simp: waiting_on_def)
    show "tq.chain (sc_tasks ?t) (sc_queues ?t m) ((qs(l := [])) m) \<and> by_vruntime (sc_tasks ?t) ((qs(l := [])) m)
      \<and> set ((qs(l := [])) m) = {j \<in> queued ?t ?fr. task_level (sc_tasks ?t j) = m}
      \<and> sc_sizes ?t m = of_nat (length ((qs(l := [])) m))"
      unfolding lv using ch bv q(4) by (simp add: c(3) by_vruntime_def)
  qed
  moreover have "sc_current ?t = Some j \<longleftrightarrow> j < unat (sc_next ?t) \<and> at_state (sc_tasks ?t j) = TASK_STATE_RUNNING" for j
    using inv by (auto simp: c(5,6,8,9) sched_inv_def c(2) [symmetric] less_Suc_eq)
  moreover have "?fr \<subseteq> {j. j < unat (sc_next ?t) \<and> at_state (sc_tasks ?t j) = TASK_STATE_READY}"
    using inv by (auto simp: c(5,6,9) sched_inv_def c(2) [symmetric] less_Suc_eq waiting_on_def queued_def)
  ultimately show ?thesis using 1 unfolding sched_inv_def by blast
qed

section \<open>Misuse\<close>

text \<open>
  C35: A task that has been created but not submitted already counts as ready, so suspending it
  unlinks it from a queue it is not in.  Take any state that a disciplined caller reaches, create a
  task with parameters in range and suspend it at once: the suspension succeeds, the run queue of
  the task's policy is empty and its size is one less.  Every task that was waiting there stays
  ready, and for as long as the scheduler goes on by picks, ticks, yields and preemptions it stays
  so and no pick returns it.
\<close>

theorem suspend_unsubmitted_drops_queue:
  assumes "sched_run s fr" and "params_ok p"
    and "ai_task_create now name w (Some p) True s = (AIOS_OK, Some i, s1)"
    and "ai_task_suspend (at_id (sc_tasks s1 i)) s1 = (st, s2)"
  defines "l \<equiv> unat (sp_policy p)"
  shows "st = AIOS_OK \<and> sc_queues s2 l = None \<and> sc_sizes s2 l = sc_sizes s l - 1
    \<and> (\<forall>u j now. sched_goes s2 u \<longrightarrow> j \<in> waiting_on l s fr \<longrightarrow>
         at_state (sc_tasks u j) = TASK_STATE_READY \<and> fst (ai_sched_pick_next now u) \<noteq> Some j)"
proof -
  have inv: "sched_inv s fr" using assms(1) by (rule sched_run_inv)
  note c = create_suspend [OF inv assms(2,3)]
  note ci = create_suspend_inv [OF inv assms(2,3)]
  have "at_state (sc_tasks u j) = TASK_STATE_READY \<and> fst (ai_sched_pick_next now u) \<noteq> Some j"
    if "sched_goes s2 u" "j \<in> waiting_on l s fr" for u j now
  proof -
    from goes_keeps [OF that(1) same_tasksI ci [unfolded assms(4) snd_conv]] obtain t where
      t: "same_tasks u t" "sched_inv t (fr \<union> waiting_on l s fr)" by (auto simp: l_def)
    have "j \<in> fr \<union> waiting_on l s fr" using that(2) by simp
    from lost_not_picked [OF t this] show ?thesis by blast
  qed
  then show ?thesis using c(1,3,4) unfolding assms(4) l_def by simp
qed






section \<open>Witnesses\<close>

theorem suspend_unsubmitted_drops_queue_witness:
  "\<exists>s fr s1 s2. sched_run s fr \<and> 0 \<in> queued s fr \<and> fst (ai_sched_pick_next 9 s) = Some 0
     \<and> ai_task_create 3 ''b'' 0 (Some inference_params) True s = (AIOS_OK, Some 1, s1)
     \<and> ai_task_suspend 2 s1 = (AIOS_OK, s2) \<and> sc_queues s2 1 = None
     \<and> at_state (sc_tasks s2 0) = TASK_STATE_READY \<and> fst (ai_sched_pick_next 9 s2) \<noteq> Some 0"
proof -
  have p: "params_ok inference_params" "unat (sp_policy inference_params) = 1" by code_simp+
  have c: "fst (ai_task_create 3 ''b'' 0 (Some inference_params) True one_task) = AIOS_OK"
    "fst (snd (ai_task_create 3 ''b'' 0 (Some inference_params) True one_task)) = Some 1"
    "at_id (sc_tasks two_tasks 1) = 2" "at_state (sc_tasks one_task 0) = TASK_STATE_READY" "0 < unat (sc_next one_task)"
    "task_level (sc_tasks one_task 0) = 1" "fst (ai_sched_pick_next 9 one_task) = Some 0" by code_simp+
  have e: "ai_task_create 3 ''b'' 0 (Some inference_params) True one_task = (AIOS_OK, Some 1, two_tasks)"
    using c(1,2) by (simp add: two_tasks_def prod_eq_iff)
  have q: "0 \<in> queued one_task {}" using c(4,5) by (simp add: queued_def)
  then have w: "0 \<in> waiting_on 1 one_task {}" using c(6) by (simp add: waiting_on_def)
  obtain st s2 where s2: "ai_task_suspend 2 two_tasks = (st, s2)" by fastforce
  from suspend_unsubmitted_drops_queue [OF two_tasks_run(1) p(1) e, unfolded c(3) p(2), OF s2]
  have "st = AIOS_OK" "sc_queues s2 1 = None" "at_state (sc_tasks s2 0) = TASK_STATE_READY" "fst (ai_sched_pick_next 9 s2) \<noteq> Some 0"
    using w sched_goes.start [of s2] by blast+
  then show ?thesis using two_tasks_run(1) q c(7) e s2 by blast
qed


end
