(* ===== verification/Kernel_String.thy ===== *)
theory Kernel_String
  imports Prelude
begin

text \<open>
  The memory and string routines of \<^verbatim>\<open>kernel/lib/string.c\<close>.  Memory maps 64-bit addresses to
  bytes; a pointer is an address, and \<^verbatim>\<open>p[i]\<close> is the byte at \<open>p + i\<close>.  A counted loop is a
  recursion on the number of steps left.  A loop that stops at a terminating zero may run
  forever, which is the value \<open>None\<close>.
\<close>

section \<open>The routines\<close>

type_synonym memory = "u64 \<Rightarrow> u8"

text \<open>The element \<^verbatim>\<open>p[i]\<close>.\<close>

definition elem :: "u64 \<Rightarrow> nat \<Rightarrow> u64" where
  "elem p i = p + of_nat i"

primrec memset_from :: "u64 \<Rightarrow> u8 \<Rightarrow> nat \<Rightarrow> nat \<Rightarrow> memory \<Rightarrow> memory" where
  "memset_from d v i 0 m = m"
| "memset_from d v i (Suc n) m = memset_from d v (Suc i) n (m(elem d i := v))"

definition memset :: "u64 \<Rightarrow> 32 word \<Rightarrow> u64 \<Rightarrow> memory \<Rightarrow> u64 \<times> memory" where
  "memset dest val count m = (dest, memset_from dest (ucast val) 0 (unat count) m)"

primrec memcpy_from :: "u64 \<Rightarrow> u64 \<Rightarrow> nat \<Rightarrow> nat \<Rightarrow> memory \<Rightarrow> memory" where
  "memcpy_from d s i 0 m = m"
| "memcpy_from d s i (Suc n) m = memcpy_from d s (Suc i) n (m(elem d i := m (elem s i)))"

definition memcpy :: "u64 \<Rightarrow> u64 \<Rightarrow> u64 \<Rightarrow> memory \<Rightarrow> u64 \<times> memory" where
  "memcpy dest src count m = (dest, memcpy_from dest src 0 (unat count) m)"

text \<open>The loop of \<^verbatim>\<open>memmove\<close> that counts down.\<close>

primrec memmove_down :: "u64 \<Rightarrow> u64 \<Rightarrow> nat \<Rightarrow> memory \<Rightarrow> memory" where
  "memmove_down d s 0 m = m"
| "memmove_down d s (Suc n) m = memmove_down d s n (m(elem d n := m (elem s n)))"

definition memmove :: "u64 \<Rightarrow> u64 \<Rightarrow> u64 \<Rightarrow> memory \<Rightarrow> u64 \<times> memory" where
  "memmove dest src count m =
     (dest, if dest < src then memcpy_from dest src 0 (unat count) m
            else if src < dest then memmove_down dest src (unat count) m else m)"

primrec memcmp_from :: "u64 \<Rightarrow> u64 \<Rightarrow> nat \<Rightarrow> nat \<Rightarrow> memory \<Rightarrow> int" where
  "memcmp_from a b i 0 m = 0"
| "memcmp_from a b i (Suc n) m =
     (if m (elem a i) \<noteq> m (elem b i) then uint (m (elem a i)) - uint (m (elem b i)) else memcmp_from a b (Suc i) n m)"

definition memcmp :: "u64 \<Rightarrow> u64 \<Rightarrow> u64 \<Rightarrow> memory \<Rightarrow> int" where
  "memcmp s1 s2 count m = memcmp_from s1 s2 0 (unat count) m"

partial_function (option) strlen_from :: "u64 \<Rightarrow> u64 \<Rightarrow> memory \<Rightarrow> u64 option" where
  "strlen_from str len m = (if m (str + len) \<noteq> 0 then strlen_from str (len + 1) m else Some len)"

definition strlen :: "u64 \<Rightarrow> memory \<Rightarrow> u64 option" where
  "strlen str m = strlen_from str 0 m"

partial_function (option) strcmp :: "u64 \<Rightarrow> u64 \<Rightarrow> memory \<Rightarrow> int option" where
  "strcmp s1 s2 m =
     (if m s1 \<noteq> 0 \<and> m s1 = m s2 then strcmp (s1 + 1) (s2 + 1) m else Some (uint (m s1) - uint (m s2)))"

primrec strncmp_from :: "u64 \<Rightarrow> u64 \<Rightarrow> nat \<Rightarrow> nat \<Rightarrow> memory \<Rightarrow> int" where
  "strncmp_from s1 s2 i 0 m = 0"
| "strncmp_from s1 s2 i (Suc n) m =
     (if m (elem s1 i) \<noteq> m (elem s2 i) then uint (m (elem s1 i)) - uint (m (elem s2 i))
      else if m (elem s1 i) = 0 then 0 else strncmp_from s1 s2 (Suc i) n m)"

definition strncmp :: "u64 \<Rightarrow> u64 \<Rightarrow> u64 \<Rightarrow> memory \<Rightarrow> int" where
  "strncmp s1 s2 n m = strncmp_from s1 s2 0 (unat n) m"

partial_function (option) strcpy_from :: "u64 \<Rightarrow> u64 \<Rightarrow> memory \<Rightarrow> memory option" where
  "strcpy_from d s m =
     (let c = m s; m1 = m(d := c) in if c \<noteq> 0 then strcpy_from (d + 1) (s + 1) m1 else Some m1)"

definition strcpy :: "u64 \<Rightarrow> u64 \<Rightarrow> memory \<Rightarrow> (u64 \<times> memory) option" where
  "strcpy dest src m = map_option (Pair dest) (strcpy_from dest src m)"

primrec strncpy_from :: "u64 \<Rightarrow> u64 \<Rightarrow> nat \<Rightarrow> nat \<Rightarrow> memory \<Rightarrow> memory" where
  "strncpy_from d s i 0 m = m"
| "strncpy_from d s i (Suc n) m =
     (if m (elem s i) \<noteq> 0 then strncpy_from d s (Suc i) n (m(elem d i := m (elem s i)))
      else memset_from d 0 i (Suc n) m)"

definition strncpy :: "u64 \<Rightarrow> u64 \<Rightarrow> u64 \<Rightarrow> memory \<Rightarrow> u64 \<times> memory" where
  "strncpy dest src n m = (dest, strncpy_from dest src 0 (unat n) m)"

section \<open>What copying should do\<close>

text \<open>The bytes of a buffer, and memory with a buffer replaced by what another buffer held.\<close>

definition buffer :: "u64 \<Rightarrow> nat \<Rightarrow> u64 set" where
  "buffer p n = {a. unat p \<le> unat a \<and> unat a < unat p + n}"

definition copied :: "u64 \<Rightarrow> u64 \<Rightarrow> nat \<Rightarrow> memory \<Rightarrow> memory" where
  "copied d s n m = (\<lambda>a. if a \<in> buffer d n then m (s + (a - d)) else m a)"

section \<open>Addresses in a buffer\<close>

lemma unat_elem:
  assumes "unat p + i < 2 ^ 64"
  shows "unat (elem p i) = unat p + i"
proof -
  have "i < 2 ^ 64" using assms by simp
  then have "unat (of_nat i :: u64) = i" by (intro unat_of_nat_small) simp
  then show ?thesis using assms by (simp add: elem_def unat_add_no_wrap)
qed

lemma elem_in_buffer:
  assumes "unat p + n \<le> 2 ^ 64" and "i < n"
  shows "elem p i \<in> buffer p n"
  using assms by (simp add: buffer_def unat_elem)

lemma elem_eq_iff:
  assumes "unat p + n \<le> 2 ^ 64" and "i < n" and "j < n"
  shows "elem p i = elem p j \<longleftrightarrow> i = j"
proof
  assume "elem p i = elem p j"
  then have "unat (elem p i) = unat (elem p j)" by simp
  then show "i = j" using assms by (simp add: unat_elem)
qed simp

lemma buffer_elem:
  assumes "a \<in> buffer p n" and "unat p + n \<le> 2 ^ 64"
  shows "\<exists>i < n. a = elem p i"
proof -
  have "unat a - unat p < n" "unat p \<le> unat a" using assms(1) by (auto simp: buffer_def)
  moreover from this have "a = elem p (unat a - unat p)"
    using assms by (intro unat_eqI) (simp add: unat_elem)
  ultimately show ?thesis by blast
qed

lemma copied_elem: "i < n \<Longrightarrow> unat d + n \<le> 2 ^ 64 \<Longrightarrow> copied d s n m (elem d i) = m (elem s i)"
  by (simp add: copied_def elem_in_buffer) (simp add: elem_def)

lemma copied_outside: "a \<notin> buffer d n \<Longrightarrow> copied d s n m a = m a"
  by (simp add: copied_def)

lemma buffer_image: "unat p + n \<le> 2 ^ 64 \<Longrightarrow> buffer p n = elem p ` {0..<n}"
  using buffer_elem [of _ p n] by (force simp: elem_in_buffer)

section \<open>What the loops do\<close>

lemma memset_from_eq: "memset_from d v i n m a = (if a \<in> elem d ` {i..<i + n} then v else m a)"
proof (induction n arbitrary: i m)
  case (Suc n)
  have "{i..<i + Suc n} = insert i {Suc i..<Suc i + n}" by auto
  then show ?case using Suc.IH by simp
qed simp

lemma memset_eq:
  assumes "unat d + unat n \<le> 2 ^ 64"
  shows "snd (memset d v n m) = (\<lambda>a. if a \<in> buffer d (unat n) then ucast v else m a)"
  by (simp add: fun_eq_iff memset_def memset_from_eq buffer_image [OF assms])

lemma memcpy_from_frame: "a \<notin> elem d ` {i..<i + n} \<Longrightarrow> memcpy_from d s i n m a = m a"
proof (induction n arbitrary: i m)
  case (Suc n)
  have "{i..<i + Suc n} = insert i {Suc i..<Suc i + n}" by auto
  then show ?case using Suc by simp
qed simp

text \<open>Counting up is right when no byte is overwritten before it is read.\<close>

lemma memcpy_from_elem:
  assumes "\<forall>j k. i \<le> j \<longrightarrow> j < k \<longrightarrow> k < i + n \<longrightarrow> elem d j \<noteq> elem s k \<and> elem d j \<noteq> elem d k"
    and "i \<le> k" and "k < i + n"
  shows "memcpy_from d s i n m (elem d k) = m (elem s k)"
  using assms
proof (induction n arbitrary: i m)
  case (Suc n)
  let ?m = "m(elem d i := m (elem s i))"
  show ?case
  proof (cases "k = i")
    case True
    have "elem d i \<notin> elem d ` {Suc i..<Suc i + n}" using Suc.prems(1) by auto
    then show ?thesis using True by (simp add: memcpy_from_frame)
  next
    case False
    have "memcpy_from d s (Suc i) n ?m (elem d k) = ?m (elem s k)"
      using Suc.prems False by (intro Suc.IH) auto
    moreover have "elem d i \<noteq> elem s k" using Suc.prems False by auto
    ultimately show ?thesis by simp
  qed
qed simp

lemma memmove_down_frame: "a \<notin> elem d ` {0..<n} \<Longrightarrow> memmove_down d s n m a = m a"
proof (induction n arbitrary: m)
  case (Suc n)
  then show ?case by (simp add: atLeast0_lessThan_Suc)
qed simp

lemma memmove_down_elem:
  assumes "\<forall>j k. k < j \<longrightarrow> j < n \<longrightarrow> elem d j \<noteq> elem s k \<and> elem d j \<noteq> elem d k"
    and "k < n"
  shows "memmove_down d s n m (elem d k) = m (elem s k)"
  using assms
proof (induction n arbitrary: m)
  case (Suc n)
  let ?m = "m(elem d n := m (elem s n))"
  show ?case
  proof (cases "k = n")
    case True
    have "elem d n \<notin> elem d ` {0..<n}" using Suc.prems(1) by auto
    then show ?thesis using True by (simp add: memmove_down_frame)
  next
    case False
    have "memmove_down d s n ?m (elem d k) = ?m (elem s k)"
      using Suc.prems False by (intro Suc.IH) auto
    moreover have "elem d n \<noteq> elem s k" using Suc.prems False by auto
    ultimately show ?thesis by simp
  qed
qed simp

text \<open>A memory that holds the source's bytes in the destination and is unchanged elsewhere is the copy.\<close>

lemma copiedI:
  assumes "unat d + n \<le> 2 ^ 64"
    and "\<And>k. k < n \<Longrightarrow> m' (elem d k) = m (elem s k)"
    and "\<And>a. a \<notin> elem d ` {0..<n} \<Longrightarrow> m' a = m a"
  shows "m' = copied d s n m"
proof
  fix a
  show "m' a = copied d s n m a"
  proof (cases "a \<in> buffer d n")
    case True
    then obtain k where "k < n" "a = elem d k" using buffer_elem [OF True assms(1)] by blast
    then show ?thesis using assms by (simp add: copied_elem)
  next
    case False
    then show ?thesis using assms(1,3) by (simp add: copied_outside buffer_image)
  qed
qed

lemma elem_neq:
  assumes "unat p + i < 2 ^ 64" and "unat q + j < 2 ^ 64" and "unat p + i \<noteq> unat q + j"
  shows "elem p i \<noteq> elem q j"
  using assms unat_elem by metis

lemma memcpy_from_copied:
  assumes "unat d + n \<le> 2 ^ 64" and "unat s + n \<le> 2 ^ 64" and "unat d \<le> unat s \<or> unat s + n \<le> unat d"
  shows "memcpy_from d s 0 n m = copied d s n m"
proof (rule copiedI)
  have "elem d j \<noteq> elem s k \<and> elem d j \<noteq> elem d k" if "j < k" "k < n" for j k
    using assms that by (intro conjI elem_neq) auto
  then show "memcpy_from d s 0 n m (elem d k) = m (elem s k)" if "k < n" for k
    using that by (intro memcpy_from_elem) auto
qed (use assms(1) in \<open>auto simp: memcpy_from_frame\<close>)

lemma memmove_down_copied:
  assumes "unat d + n \<le> 2 ^ 64" and "unat s + n \<le> 2 ^ 64" and "unat s \<le> unat d"
  shows "memmove_down d s n m = copied d s n m"
proof (rule copiedI)
  have "elem d j \<noteq> elem s k \<and> elem d j \<noteq> elem d k" if "k < j" "j < n" for j k
    using assms that by (intro conjI elem_neq) auto
  then show "memmove_down d s n m (elem d k) = m (elem s k)" if "k < n" for k
    using that by (intro memmove_down_elem) auto
qed (use assms(1) in \<open>auto simp: memmove_down_frame\<close>)

lemma copied_self: "copied d d n m = m"
  by (simp add: copied_def fun_eq_iff)

lemma memcpy_eq:
  assumes "unat d + unat n \<le> 2 ^ 64" and "unat s + unat n \<le> 2 ^ 64"
    and "unat d \<le> unat s \<or> unat s + unat n \<le> unat d"
  shows "snd (memcpy d s n m) = copied d s (unat n) m"
  using memcpy_from_copied [OF assms] by (simp add: memcpy_def)

section \<open>Moving is copying at once\<close>

text \<open>
  C13: \<^verbatim>\<open>memmove\<close> is the simultaneous copy.  Whatever the overlap of the two buffers, the destination
  ends with the bytes the source held before the call, every other byte is unchanged and the
  destination pointer is returned.  The two buffers must not run past the end of the address
  space.  \<^verbatim>\<open>memcpy\<close> agrees with it when the destination starts at or before the source or the buffers do not
  overlap.
\<close>

theorem memmove_copies:
  assumes "unat dest + unat count \<le> 2 ^ 64" and "unat src + unat count \<le> 2 ^ 64"
  shows "memmove dest src count m = (dest, copied dest src (unat count) m) \<and>
    (unat dest \<le> unat src \<or> unat src + unat count \<le> unat dest \<longrightarrow>
     memcpy dest src count m = memmove dest src count m)"
proof -
  have mv: "memmove dest src count m = (dest, copied dest src (unat count) m)"
  proof (cases dest src rule: linorder_cases)
    case less
    then show ?thesis using assms by (simp add: memmove_def memcpy_from_copied word_less_nat_alt)
  next
    case equal
    then show ?thesis by (simp add: memmove_def copied_self)
  next
    case greater
    then show ?thesis using assms by (simp add: memmove_def memmove_down_copied word_less_nat_alt)
  qed
  moreover have "fst (memcpy dest src count m) = dest" by (simp add: memcpy_def)
  ultimately show ?thesis using memcpy_eq [OF assms] by (metis prod.collapse)
qed

text \<open>A buffer of three bytes moved up by one, over itself.\<close>

theorem memmove_copies_witness:
  "\<exists>m m' :: memory. snd (memmove 17 16 3 m) = m' \<and> m' 17 = m 16 \<and> m' 18 = m 17 \<and> m' 19 = m 18 \<and> m' 16 = m 16 \<and>
     m 16 = 7 \<and> m 17 = 8 \<and> m 18 = 9"
proof -
  let ?m = "\<lambda>a. if a = 16 then 7 else if a = 17 then 8 else if a = 18 then 9 else 0 :: u8"
  have "snd (memmove 17 16 3 ?m) = copied 17 16 3 ?m"
    using memmove_copies [of 17 3 16 ?m] by simp
  then show ?thesis
    by (intro exI [of _ ?m] exI [of _ "copied 17 16 3 ?m"]) (simp add: copied_def buffer_def)
qed

end
