(* ===== verification/User_Access.thy ===== *)
theory User_Access
  imports Kernel_String
begin

text \<open>
  The boundary between the kernel and ring 3, \<^verbatim>\<open>kernel/core/user_access.c\<close>: the structural checks on
  a buffer, the user address window, the copies and the fence around them.  Pointers are addresses
  and \<^verbatim>\<open>NULL\<close> is address zero.  The fence instructions \<^verbatim>\<open>stac\<close> and \<^verbatim>\<open>clac\<close> set and clear the
  access flag of the processor, which is the field \<open>ua_ac\<close>.
\<close>

section \<open>State, flags and reasons\<close>

record uaccess =
  ua_window_active :: bool
  ua_window_start :: u64
  ua_window_end :: u64
  ua_smap_active :: bool
  ua_ac :: bool

datatype user_access_reason =
    USER_ACCESS_REASON_OK | USER_ACCESS_REASON_NULL_PTR | USER_ACCESS_REASON_ZERO_SIZE
  | USER_ACCESS_REASON_RANGE_OVERFLOW | USER_ACCESS_REASON_BAD_FLAGS
  | USER_ACCESS_REASON_PROTECTION_UNAVAILABLE | USER_ACCESS_REASON_OUT_OF_WINDOW | USER_ACCESS_REASON_COUNT

abbreviation USER_ACCESS_F_READ :: u32 where "USER_ACCESS_F_READ \<equiv> 1"
abbreviation USER_ACCESS_F_WRITE :: u32 where "USER_ACCESS_F_WRITE \<equiv> 2"
abbreviation USER_ACCESS_F_ALLOW_ZERO :: u32 where "USER_ACCESS_F_ALLOW_ZERO \<equiv> 4"

definition USER_ACCESS_F_MASK :: u32 where
  "USER_ACCESS_F_MASK = (USER_ACCESS_F_READ OR USER_ACCESS_F_WRITE OR USER_ACCESS_F_ALLOW_ZERO)"

record user_access_check =
  uc_ok :: bool
  uc_reason :: user_access_reason
  uc_start :: u64
  uc_end :: u64
  uc_size :: u64
  uc_flags :: u32

section \<open>The window and the fence\<close>

definition user_access_clear_window :: "uaccess \<Rightarrow> uaccess" where
  "user_access_clear_window u = u\<lparr>ua_window_active := False, ua_window_start := 0, ua_window_end := 0\<rparr>"

definition user_access_set_window :: "u64 \<Rightarrow> u64 \<Rightarrow> uaccess \<Rightarrow> uaccess" where
  "user_access_set_window base sz u =
     (if sz = 0 then user_access_clear_window u
      else u\<lparr>ua_window_start := base, ua_window_end := base + (sz - 1), ua_window_active := True\<rparr>)"

definition user_access_window_active :: "uaccess \<Rightarrow> bool" where
  "user_access_window_active u = ua_window_active u"

definition user_access_set_smap_active :: "bool \<Rightarrow> uaccess \<Rightarrow> uaccess" where
  "user_access_set_smap_active active u = u\<lparr>ua_smap_active := active\<rparr>"

definition user_access_fence_begin :: "uaccess \<Rightarrow> uaccess" where
  "user_access_fence_begin u = (if ua_smap_active u then u\<lparr>ua_ac := True\<rparr> else u)"

definition user_access_fence_end :: "uaccess \<Rightarrow> uaccess" where
  "user_access_fence_end u = (if ua_smap_active u then u\<lparr>ua_ac := False\<rparr> else u)"

section \<open>The checks\<close>

definition user_access_flags_valid :: "u32 \<Rightarrow> bool" where
  "user_access_flags_valid flags =
     (let access = flags AND (USER_ACCESS_F_READ OR USER_ACCESS_F_WRITE)
      in if flags AND NOT USER_ACCESS_F_MASK \<noteq> 0 then False else access \<noteq> 0)"

definition user_access_make_result ::
  "bool \<Rightarrow> user_access_reason \<Rightarrow> u64 \<Rightarrow> u64 \<Rightarrow> u64 \<Rightarrow> u32 \<Rightarrow> user_access_check" where
  "user_access_make_result ok reason start end sz flags =
     \<lparr>uc_ok = ok, uc_reason = reason, uc_start = start, uc_end = end, uc_size = sz, uc_flags = flags\<rparr>"

definition user_access_probe :: "uaccess \<Rightarrow> u64 \<Rightarrow> u64 \<Rightarrow> u32 \<Rightarrow> user_access_check" where
  "user_access_probe u ptr sz flags =
     (let start = ptr
      in if \<not> user_access_flags_valid flags
         then user_access_make_result False USER_ACCESS_REASON_BAD_FLAGS start start sz flags
         else if sz = 0
         then (let ok = flags AND USER_ACCESS_F_ALLOW_ZERO \<noteq> 0
               in user_access_make_result ok
                    (if ok then USER_ACCESS_REASON_OK else USER_ACCESS_REASON_ZERO_SIZE) start start sz flags)
         else if ptr = 0
         then user_access_make_result False USER_ACCESS_REASON_NULL_PTR start start sz flags
         else if start > UINT64_MAX - (sz - 1)
         then user_access_make_result False USER_ACCESS_REASON_RANGE_OVERFLOW start start sz flags
         else let end = start + (sz - 1)
              in if ua_window_active u \<and> (start < ua_window_start u \<or> end > ua_window_end u)
                 then user_access_make_result False USER_ACCESS_REASON_OUT_OF_WINDOW start end sz flags
                 else user_access_make_result True USER_ACCESS_REASON_OK start end sz flags)"

definition access_ok :: "uaccess \<Rightarrow> u64 \<Rightarrow> u64 \<Rightarrow> u32 \<Rightarrow> bool" where
  "access_ok u ptr sz flags = uc_ok (user_access_probe u ptr sz flags)"

fun user_access_status :: "user_access_reason \<Rightarrow> aios_status" where
  "user_access_status USER_ACCESS_REASON_OK = AIOS_OK"
| "user_access_status USER_ACCESS_REASON_RANGE_OVERFLOW = AIOS_ERR_OVERFLOW"
| "user_access_status USER_ACCESS_REASON_PROTECTION_UNAVAILABLE = AIOS_ERR_PERM"
| "user_access_status USER_ACCESS_REASON_OUT_OF_WINDOW = AIOS_ERR_PERM"
| "user_access_status _ = AIOS_ERR_INVAL"

fun user_access_reason_name :: "user_access_reason \<Rightarrow> string" where
  "user_access_reason_name USER_ACCESS_REASON_OK = ''ok''"
| "user_access_reason_name USER_ACCESS_REASON_NULL_PTR = ''null-ptr''"
| "user_access_reason_name USER_ACCESS_REASON_ZERO_SIZE = ''zero-size''"
| "user_access_reason_name USER_ACCESS_REASON_RANGE_OVERFLOW = ''range-overflow''"
| "user_access_reason_name USER_ACCESS_REASON_BAD_FLAGS = ''bad-flags''"
| "user_access_reason_name USER_ACCESS_REASON_PROTECTION_UNAVAILABLE = ''protection-unavailable''"
| "user_access_reason_name USER_ACCESS_REASON_OUT_OF_WINDOW = ''out-of-window''"
| "user_access_reason_name USER_ACCESS_REASON_COUNT = ''unknown''"

section \<open>The copies\<close>

definition copy_to_user ::
  "u64 \<Rightarrow> u64 \<Rightarrow> u64 \<Rightarrow> uaccess \<Rightarrow> memory \<Rightarrow> aios_status \<times> uaccess \<times> memory" where
  "copy_to_user user_dst kernel_src sz u m =
     (if sz = 0 then (AIOS_OK, u, m)
      else if kernel_src = 0 then (AIOS_ERR_INVAL, u, m)
      else let check = user_access_probe u user_dst sz USER_ACCESS_F_WRITE
           in if \<not> uc_ok check then (user_access_status (uc_reason check), u, m)
              else let u1 = user_access_fence_begin u;
                       m1 = snd (memcpy user_dst kernel_src sz m)
                   in (AIOS_OK, user_access_fence_end u1, m1))"

definition copy_from_user ::
  "u64 \<Rightarrow> u64 \<Rightarrow> u64 \<Rightarrow> uaccess \<Rightarrow> memory \<Rightarrow> aios_status \<times> uaccess \<times> memory" where
  "copy_from_user kernel_dst user_src sz u m =
     (if sz = 0 then (AIOS_OK, u, m)
      else if kernel_dst = 0 then (AIOS_ERR_INVAL, u, m)
      else let check = user_access_probe u user_src sz USER_ACCESS_F_READ
           in if \<not> uc_ok check then (user_access_status (uc_reason check), u, m)
              else let u1 = user_access_fence_begin u;
                       m1 = snd (memcpy kernel_dst user_src sz m)
                   in (AIOS_OK, user_access_fence_end u1, m1))"

text \<open>The loop of \<^verbatim>\<open>copy_string_from_user\<close> tells whether it met the terminating zero.\<close>

primrec copy_string_from :: "u64 \<Rightarrow> u64 \<Rightarrow> nat \<Rightarrow> nat \<Rightarrow> memory \<Rightarrow> bool \<times> memory" where
  "copy_string_from d s i 0 m = (False, m)"
| "copy_string_from d s i (Suc n) m =
     (let c = m (elem s i); m1 = m(elem d i := c)
      in if c = 0 then (True, m1) else copy_string_from d s (Suc i) n m1)"

definition copy_string_from_user ::
  "u64 \<Rightarrow> u64 \<Rightarrow> u64 \<Rightarrow> uaccess \<Rightarrow> memory \<Rightarrow> aios_status \<times> uaccess \<times> memory" where
  "copy_string_from_user kernel_dst user_src max_len u m =
     (if kernel_dst = 0 \<or> max_len = 0 then (AIOS_ERR_INVAL, u, m)
      else let check = user_access_probe u user_src max_len USER_ACCESS_F_READ
           in if \<not> uc_ok check then (user_access_status (uc_reason check), u, m(kernel_dst := 0))
              else let u1 = user_access_fence_begin u;
                       (ended, m1) = copy_string_from kernel_dst user_src 0 (unat max_len) m;
                       u2 = user_access_fence_end u1
                   in if ended then (AIOS_OK, u2, m1)
                      else (AIOS_ERR_OVERFLOW, u2, m1(kernel_dst + (max_len - 1) := 0)))"

text \<open>The addresses of the window.\<close>

definition in_window :: "uaccess \<Rightarrow> u64 \<Rightarrow> bool" where
  "in_window u a \<longleftrightarrow> ua_window_start u \<le> a \<and> a \<le> ua_window_end u"

section \<open>What an accepted buffer is\<close>

lemma probe_ok_iff:
  assumes "user_access_flags_valid flags" and "sz \<noteq> 0"
  shows "uc_ok (user_access_probe u p sz flags) \<longleftrightarrow>
    p \<noteq> 0 \<and> unat p + unat sz \<le> 2 ^ 64 \<and>
    (ua_window_active u \<longrightarrow> ua_window_start u \<le> p \<and> p + (sz - 1) \<le> ua_window_end u)"
proof -
  have "unat (sz - 1) = unat sz - 1" "0 < unat sz"
    using assms(2) by (simp_all add: unat_minus_one unat_gt_0)
  then have "UINT64_MAX - (sz - 1) < p \<longleftrightarrow> \<not> unat p + unat sz \<le> 2 ^ 64"
    using overflow_guard [of "sz - 1" p] by auto
  then show ?thesis
    using assms by (auto simp: user_access_probe_def user_access_make_result_def Let_def not_less not_le)
qed

lemma flags_valid [simp]:
  "user_access_flags_valid USER_ACCESS_F_READ" "user_access_flags_valid USER_ACCESS_F_WRITE"
  by (simp_all add: user_access_flags_valid_def USER_ACCESS_F_MASK_def)

text \<open>Every byte of a buffer accepted while a window is active is in the window.\<close>

lemma accepted_in_window:
  assumes "uc_ok (user_access_probe u p sz flags)" and "user_access_flags_valid flags" and "sz \<noteq> 0"
    and "ua_window_active u" and "i < unat sz"
  shows "in_window u (elem p i)"
proof -
  have ok: "unat p + unat sz \<le> 2 ^ 64" "ua_window_start u \<le> p" "p + (sz - 1) \<le> ua_window_end u"
    using assms by (simp_all add: probe_ok_iff)
  have "unat (sz - 1) = unat sz - 1" using assms(3) by (simp add: unat_minus_one)
  then have "unat (p + (sz - 1)) = unat p + (unat sz - 1)"
    using ok(1) assms(5) by (simp add: unat_add_no_wrap)
  moreover have "unat (elem p i) = unat p + i" using ok(1) assms(5) by (intro unat_elem) simp
  ultimately show ?thesis using ok(2,3) assms(5) by (simp add: in_window_def word_le_nat_alt)
qed

lemma fence_balanced: "\<not> ua_ac u \<Longrightarrow> user_access_fence_end (user_access_fence_begin u) = u"
  by (simp add: user_access_fence_begin_def user_access_fence_end_def)

section \<open>Copies read and write what they were given\<close>

text \<open>
  Two memories that agree on the source before a copy agree on the source and on the bytes
  written after it, overlapping or not.
\<close>

lemma memcpy_from_agree:
  assumes "\<forall>a \<in> S. m a = m2 a" and "\<forall>j. i \<le> j \<longrightarrow> j < i + n \<longrightarrow> elem s j \<in> S"
  shows "\<forall>a \<in> S \<union> elem d ` {i..<i + n}. memcpy_from d s i n m a = memcpy_from d s i n m2 a"
  using assms
proof (induction n arbitrary: i m m2 S)
  case (Suc n)
  have "\<forall>a \<in> insert (elem d i) S. (m(elem d i := m (elem s i))) a = (m2(elem d i := m2 (elem s i))) a"
    using Suc.prems by simp
  moreover have "\<forall>j. Suc i \<le> j \<longrightarrow> j < Suc i + n \<longrightarrow> elem s j \<in> insert (elem d i) S"
    using Suc.prems(2) by simp
  ultimately have "\<forall>a \<in> insert (elem d i) S \<union> elem d ` {Suc i..<Suc i + n}.
      memcpy_from d s (Suc i) n (m(elem d i := m (elem s i))) a =
      memcpy_from d s (Suc i) n (m2(elem d i := m2 (elem s i))) a"
    by (rule Suc.IH)
  moreover have "{i..<i + Suc n} = insert i {Suc i..<Suc i + n}" by auto
  ultimately show ?case by simp
qed simp

lemma copy_string_from_agree:
  assumes "\<forall>a \<in> S. m a = m2 a" and "\<forall>j. i \<le> j \<longrightarrow> j < i + n \<longrightarrow> elem s j \<in> S"
  shows "fst (copy_string_from d s i n m) = fst (copy_string_from d s i n m2) \<and>
    (\<forall>a. m a = m2 a \<longrightarrow> snd (copy_string_from d s i n m) a = snd (copy_string_from d s i n m2) a)"
  using assms
proof (induction n arbitrary: i m m2 S)
  case (Suc n)
  let ?m = "m(elem d i := m (elem s i))" and ?m2 = "m2(elem d i := m2 (elem s i))"
  have eq: "m (elem s i) = m2 (elem s i)" using Suc.prems by simp
  have "\<forall>a \<in> insert (elem d i) S. ?m a = ?m2 a" using Suc.prems(1) eq by simp
  moreover have "\<forall>j. Suc i \<le> j \<longrightarrow> j < Suc i + n \<longrightarrow> elem s j \<in> insert (elem d i) S"
    using Suc.prems(2) by simp
  ultimately have "fst (copy_string_from d s (Suc i) n ?m) = fst (copy_string_from d s (Suc i) n ?m2) \<and>
      (\<forall>a. ?m a = ?m2 a \<longrightarrow> snd (copy_string_from d s (Suc i) n ?m) a = snd (copy_string_from d s (Suc i) n ?m2) a)"
    by (rule Suc.IH)
  then show ?case using eq by (simp add: Let_def)
qed simp

lemma copy_string_from_frame:
  "a \<notin> elem d ` {i..<i + n} \<Longrightarrow> snd (copy_string_from d s i n m) a = m a"
proof (induction n arbitrary: i m)
  case (Suc n)
  have "{i..<i + Suc n} = insert i {Suc i..<Suc i + n}" by auto
  then show ?case using Suc by (simp add: Let_def)
qed simp

text \<open>A string copy that says it met the end has written a zero.\<close>

lemma copy_string_from_ended:
  assumes "fst (copy_string_from d s i n m)"
  shows "\<exists>j. i \<le> j \<and> j < i + n \<and> snd (copy_string_from d s i n m) (elem d j) = 0"
  using assms
proof (induction n arbitrary: i m)
  case (Suc n)
  show ?case
  proof (cases "m (elem s i) = 0")
    case True
    then show ?thesis by (intro exI [of _ i]) (simp add: Let_def)
  next
    case False
    then have "fst (copy_string_from d s (Suc i) n (m(elem d i := m (elem s i))))"
      using Suc.prems by (simp add: Let_def)
    then have "\<exists>j. Suc i \<le> j \<and> j < Suc i + n \<and>
        snd (copy_string_from d s (Suc i) n (m(elem d i := m (elem s i)))) (elem d j) = 0"
      by (rule Suc.IH)
    then show ?thesis using False by (auto simp: Let_def intro: Suc_leD)
  qed
qed simp

section \<open>The copies stay in the window\<close>

lemma probe_refused:
  "\<not> uc_ok (user_access_probe u p n flags) \<Longrightarrow> n \<noteq> 0 \<Longrightarrow>
    user_access_status (uc_reason (user_access_probe u p n flags)) \<noteq> AIOS_OK"
  by (auto simp: user_access_probe_def user_access_make_result_def Let_def split: if_splits)

text \<open>A copy that does not happen changes nothing; the others are the loop of \<^verbatim>\<open>memcpy\<close>.\<close>

lemma copy_to_user_eq:
  assumes "\<not> ua_ac u"
  shows "copy_to_user p k n u m =
    (if n = 0 then (AIOS_OK, u, m)
     else if k = 0 then (AIOS_ERR_INVAL, u, m)
     else if \<not> uc_ok (user_access_probe u p n USER_ACCESS_F_WRITE)
     then (user_access_status (uc_reason (user_access_probe u p n USER_ACCESS_F_WRITE)), u, m)
     else (AIOS_OK, u, memcpy_from p k 0 (unat n) m))"
  by (simp add: copy_to_user_def Let_def memcpy_def fence_balanced [OF assms])

lemma copy_from_user_eq:
  assumes "\<not> ua_ac u"
  shows "copy_from_user k p n u m =
    (if n = 0 then (AIOS_OK, u, m)
     else if k = 0 then (AIOS_ERR_INVAL, u, m)
     else if \<not> uc_ok (user_access_probe u p n USER_ACCESS_F_READ)
     then (user_access_status (uc_reason (user_access_probe u p n USER_ACCESS_F_READ)), u, m)
     else (AIOS_OK, u, memcpy_from k p 0 (unat n) m))"
  by (simp add: copy_from_user_def Let_def memcpy_def fence_balanced [OF assms])

lemma copy_to_user_confined:
  assumes "ua_window_active u" and "\<not> ua_ac u" and "copy_to_user p k n u m = (st, u', m')"
  shows "u' = u \<and> (\<forall>a. m' a \<noteq> m a \<longrightarrow> in_window u a) \<and> (st \<noteq> AIOS_OK \<longrightarrow> m' = m)"
proof (cases "n \<noteq> 0 \<and> k \<noteq> 0 \<and> uc_ok (user_access_probe u p n USER_ACCESS_F_WRITE)")
  case True
  then have eq: "st = AIOS_OK" "u' = u" "m' = memcpy_from p k 0 (unat n) m"
    using assms by (simp_all add: copy_to_user_eq)
  have "in_window u a" if "m' a \<noteq> m a" for a
  proof -
    have "a \<in> elem p ` {0..<unat n}" using that eq(3) memcpy_from_frame [of a p 0 "unat n" k m] by auto
    then show ?thesis using True assms(1) by (auto intro: accepted_in_window)
  qed
  then show ?thesis using eq by simp
next
  case False
  then show ?thesis using assms(3) by (auto simp: copy_to_user_eq [OF assms(2)] split: if_splits)
qed

lemma copy_from_user_confined:
  assumes "ua_window_active u" and "\<not> ua_ac u" and "\<forall>a. in_window u a \<longrightarrow> m2 a = m a"
    and "copy_from_user k p n u m = (st, u', m')" and "copy_from_user k p n u m2 = (st2, u2, m2')"
  shows "u' = u \<and> st2 = st \<and> (\<forall>a. m' a \<noteq> m a \<longrightarrow> a \<in> elem k ` {0..<unat n}) \<and>
    (st = AIOS_OK \<longrightarrow> (\<forall>i < unat n. m2' (elem k i) = m' (elem k i))) \<and> (st \<noteq> AIOS_OK \<longrightarrow> m' = m)"
proof (cases "n \<noteq> 0 \<and> k \<noteq> 0 \<and> uc_ok (user_access_probe u p n USER_ACCESS_F_READ)")
  case True
  then have eq: "st = AIOS_OK" "u' = u" "m' = memcpy_from k p 0 (unat n) m" "st2 = AIOS_OK"
      "m2' = memcpy_from k p 0 (unat n) m2"
    using assms by (simp_all add: copy_from_user_eq)
  have "\<forall>a \<in> {a. in_window u a} \<union> elem k ` {0..<0 + unat n}.
      memcpy_from k p 0 (unat n) m a = memcpy_from k p 0 (unat n) m2 a"
    using assms(1,3) True by (intro memcpy_from_agree) (auto intro: accepted_in_window)
  then have "m2' (elem k i) = m' (elem k i)" if "i < unat n" for i using that eq by auto
  moreover have "a \<in> elem k ` {0..<unat n}" if "m' a \<noteq> m a" for a
    using that eq(3) memcpy_from_frame [of a k 0 "unat n" p m] by auto
  ultimately show ?thesis using eq by simp
next
  case False
  then show ?thesis using assms(4,5) probe_refused [of u p n USER_ACCESS_F_READ]
    by (auto simp: copy_from_user_eq [OF assms(2)] split: if_splits)
qed

lemma copy_string_from_user_eq:
  assumes "\<not> ua_ac u"
  shows "copy_string_from_user k p n u m =
    (if k = 0 \<or> n = 0 then (AIOS_ERR_INVAL, u, m)
     else if \<not> uc_ok (user_access_probe u p n USER_ACCESS_F_READ)
     then (user_access_status (uc_reason (user_access_probe u p n USER_ACCESS_F_READ)), u, m(elem k 0 := 0))
     else let r = copy_string_from k p 0 (unat n) m
          in if fst r then (AIOS_OK, u, snd r) else (AIOS_ERR_OVERFLOW, u, (snd r)(elem k (unat n - 1) := 0)))"
proof (cases "n = 0")
  case False
  then have "unat n - 1 = unat (n - 1)" by (simp add: unat_minus_one)
  then have "of_nat (unat n - 1) = n - 1" by (simp only: of_nat_unat ucast_id)
  then have "k + (n - 1) = elem k (unat n - 1)" by (simp add: elem_def)
  then show ?thesis
    by (simp add: copy_string_from_user_def Let_def fence_balanced [OF assms] elem_def split_beta)
qed (simp add: copy_string_from_user_def)

lemma copy_string_from_user_confined:
  assumes "ua_window_active u" and "\<not> ua_ac u" and "\<forall>a. in_window u a \<longrightarrow> m2 a = m a"
    and "copy_string_from_user k p n u m = (st, u', m')" and "copy_string_from_user k p n u m2 = (st2, u2, m2')"
    and "k \<noteq> 0" and "n \<noteq> 0"
  shows "u' = u \<and> st2 = st \<and> (\<forall>a. m' a \<noteq> m a \<longrightarrow> a \<in> elem k ` {0..<unat n}) \<and>
    (\<forall>a. m2 a = m a \<longrightarrow> m2' a = m' a) \<and> (\<exists>i < unat n. m' (elem k i) = 0)"
proof (cases "uc_ok (user_access_probe u p n USER_ACCESS_F_READ)")
  case True
  let ?r = "copy_string_from k p 0 (unat n) m" and ?r2 = "copy_string_from k p 0 (unat n) m2"
  have eq: "(st, u', m') = (if fst ?r then (AIOS_OK, u, snd ?r) else (AIOS_ERR_OVERFLOW, u, (snd ?r)(elem k (unat n - 1) := 0)))"
    "(st2, u2, m2') = (if fst ?r2 then (AIOS_OK, u, snd ?r2) else (AIOS_ERR_OVERFLOW, u, (snd ?r2)(elem k (unat n - 1) := 0)))"
    using assms True by (simp_all add: copy_string_from_user_eq Let_def)
  have "0 < unat n" using assms(7) by (simp add: unat_gt_0)
  have agree: "fst ?r = fst ?r2 \<and> (\<forall>a. m a = m2 a \<longrightarrow> snd ?r a = snd ?r2 a)"
    using assms(1,3,7) True
    by (intro copy_string_from_agree [where S = "{a. in_window u a}"]) (auto intro: accepted_in_window)
  have frame: "\<forall>a. a \<notin> elem k ` {0..<unat n} \<longrightarrow> snd ?r a = m a"
    using copy_string_from_frame [of _ k 0 "unat n" p m] by auto
  show ?thesis
  proof (cases "fst ?r")
    case True
    then show ?thesis using eq agree frame copy_string_from_ended [OF True] by auto
  next
    case False
    then have "m' (elem k (unat n - 1)) = 0" using eq by simp
    then have "\<exists>i < unat n. m' (elem k i) = 0" using \<open>0 < unat n\<close> by (intro exI [of _ "unat n - 1"]) simp
    moreover have "elem k (unat n - 1) \<in> elem k ` {0..<unat n}" using \<open>0 < unat n\<close> by simp
    ultimately show ?thesis using False eq agree frame by (auto split: if_splits)
  qed
next
  case False
  have "0 < unat n" using assms(7) by (simp add: unat_gt_0)
  moreover have "(st, u', m') = (st, u, m(elem k 0 := 0)) \<and> (st2, u2, m2') = (st, u, m2(elem k 0 := 0))"
    using assms(4-7) False
      copy_string_from_user_eq [OF assms(2), of k p n m] copy_string_from_user_eq [OF assms(2), of k p n m2] by auto
  ultimately show ?thesis by auto
qed

lemma window_bytes:
  assumes "sz \<noteq> 0" and "unat base + unat sz \<le> 2 ^ 64"
  shows "in_window (user_access_set_window base sz u) a \<longleftrightarrow> a \<in> buffer base (unat sz)"
proof -
  have "unat (sz - 1) = unat sz - 1" "0 < unat sz"
    using assms(1) by (simp_all add: unat_minus_one unat_gt_0)
  moreover from this have "unat (base + (sz - 1)) = unat base + (unat sz - 1)"
    using assms(2) by (simp add: unat_add_no_wrap)
  ultimately show ?thesis
    using assms(1) by (auto simp: in_window_def user_access_set_window_def buffer_def word_le_nat_alt)
qed

text \<open>
  C14: While ring 3 runs in the window \<open>[base, base + sz)\<close>, no pointer it hands to the kernel lets a
  copy reach other memory.  Whatever the pointers and the length, \<^verbatim>\<open>copy_to_user\<close> changes bytes of
  the window only.  \<^verbatim>\<open>copy_from_user\<close> and \<^verbatim>\<open>copy_string_from_user\<close> change bytes of the kernel's buffer
  only.  Nothing outside the window flows into what they return: on two memories that agree on the
  window they give the same status, a block copy that succeeds writes the same bytes, and after a
  string copy the memories agree wherever they agreed before.  A refused block copy changes nothing, a string copy always
  leaves a terminating zero in the buffer, and the access flag is closed again after each of them.
\<close>

theorem user_copies_confined:
  assumes "sz \<noteq> 0" and "unat base + unat sz \<le> 2 ^ 64" and "\<not> ua_ac u0"
    and "u = user_access_set_window base sz u0"
    and "\<forall>a \<in> buffer base (unat sz). m2 a = m a"
  shows "(case copy_to_user p k n u m of (st, u', m') \<Rightarrow>
      u' = u \<and> (\<forall>a. m' a \<noteq> m a \<longrightarrow> a \<in> buffer base (unat sz)) \<and> (st \<noteq> AIOS_OK \<longrightarrow> m' = m)) \<and>
    (case (copy_from_user k p n u m, copy_from_user k p n u m2) of ((st, u', m'), (st2, u2, m2')) \<Rightarrow>
      u' = u \<and> st2 = st \<and> (\<forall>a. m' a \<noteq> m a \<longrightarrow> a \<in> elem k ` {0..<unat n}) \<and>
      (st = AIOS_OK \<longrightarrow> (\<forall>i < unat n. m2' (elem k i) = m' (elem k i))) \<and> (st \<noteq> AIOS_OK \<longrightarrow> m' = m)) \<and>
    (k \<noteq> 0 \<and> n \<noteq> 0 \<longrightarrow>
     (case (copy_string_from_user k p n u m, copy_string_from_user k p n u m2) of ((st, u', m'), (st2, u2, m2')) \<Rightarrow>
      u' = u \<and> st2 = st \<and> (\<forall>a. m' a \<noteq> m a \<longrightarrow> a \<in> elem k ` {0..<unat n}) \<and>
      (\<forall>a. m2 a = m a \<longrightarrow> m2' a = m' a) \<and> (\<exists>i < unat n. m' (elem k i) = 0)))"
proof -
  have win: "in_window u a \<longleftrightarrow> a \<in> buffer base (unat sz)" for a
    using assms(4) window_bytes [OF assms(1,2)] by simp
  have act: "ua_window_active u" "\<not> ua_ac u" "\<forall>a. in_window u a \<longrightarrow> m2 a = m a"
    using assms(1,3,4) assms(5) win by (simp_all add: user_access_set_window_def)
  show ?thesis
    using copy_to_user_confined [OF act(1,2)] copy_from_user_confined [OF act] copy_string_from_user_confined [OF act]
    by (simp add: win split: prod.splits)
qed

text \<open>One byte copied out to a buffer of the bootstrap user window.\<close>

theorem user_copies_confined_witness:
  "\<exists>u m st u' m'. copy_to_user 0x4001000 0x100000 1 u m = (st, u', m') \<and> st = AIOS_OK \<and> u' = u \<and>
     m 0x4001000 = 0 \<and> m' 0x4001000 = 9 \<and> (\<forall>a. m' a \<noteq> m a \<longrightarrow> a \<in> buffer 0x4000000 0x200000)"
proof -
  let ?start = "\<lparr>ua_window_active = False, ua_window_start = 0, ua_window_end = 0, ua_smap_active = True, ua_ac = False\<rparr>"
  let ?u = "user_access_set_window 0x4000000 0x200000 ?start"
  let ?m = "\<lambda>a. if a = 0x100000 then 9 else 0 :: u8"
  let ?r = "copy_to_user 0x4001000 0x100000 1 ?u ?m"
  have "?r = (AIOS_OK, ?u, ?m(0x4001000 := 9))"
    by (simp add: copy_to_user_eq user_access_set_window_def user_access_probe_def user_access_make_result_def elem_def)
  then have "\<forall>a. (?m(0x4001000 := 9)) a \<noteq> ?m a \<longrightarrow> a \<in> buffer 0x4000000 0x200000"
    using user_copies_confined [where sz = "0x200000" and base = "0x4000000" and ?u0.0 = ?start and u = ?u and m = ?m
      and ?m2.0 = ?m and p = "0x4001000" and k = "0x100000" and n = 1] by simp
  with \<open>?r = _\<close> show ?thesis
    by (intro exI [of _ ?u] exI [of _ ?m] exI [of _ AIOS_OK] exI [of _ "?m(0x4001000 := 9)"]) simp
qed

end
