(* ===== verification/Elf_Loader.thy ===== *)
theory Elf_Loader
  imports Kernel_String
begin

text \<open>
  The static ELF64 loader, \<^verbatim>\<open>kernel/core/elf_loader.c\<close> and \<^verbatim>\<open>kernel/include/kernel/elf.h\<close>.  A header
  is decoded from memory, least significant byte first, each time the code reads a field through
  its pointer, so a load that overwrote the image would change what is read next.
\<close>

section \<open>Headers\<close>

record Elf64_Ehdr =
  e_ident :: "u8 list"
  e_type :: u16
  e_machine :: u16
  e_version :: u32
  e_entry :: u64
  e_phoff :: u64
  e_shoff :: u64
  e_flags :: u32
  e_ehsize :: u16
  e_phentsize :: u16
  e_phnum :: u16
  e_shentsize :: u16
  e_shnum :: u16
  e_shstrndx :: u16

record Elf64_Phdr =
  p_type :: u32
  p_flags :: u32
  p_offset :: u64
  p_vaddr :: u64
  p_paddr :: u64
  p_filesz :: u64
  p_memsz :: u64
  p_align :: u64

record elf_load_result =
  er_entry :: u64
  er_load_min_vaddr :: u64
  er_load_max_vaddr :: u64
  er_loadable_segments :: u32
  er_total_filesz :: u32
  er_total_memsz :: u32

abbreviation SIZEOF_EHDR :: u64 where "SIZEOF_EHDR \<equiv> 64"
abbreviation SIZEOF_PHDR :: u64 where "SIZEOF_PHDR \<equiv> 56"
abbreviation ET_EXEC :: u16 where "ET_EXEC \<equiv> 2"
abbreviation EM_X86_64 :: u16 where "EM_X86_64 \<equiv> 62"
abbreviation PT_LOAD :: u32 where "PT_LOAD \<equiv> 1"

text \<open>A little-endian field of \<open>k\<close> bytes, and the structures at an address.\<close>

primrec load_le :: "nat \<Rightarrow> memory \<Rightarrow> u64 \<Rightarrow> nat \<Rightarrow> u64" where
  "load_le 0 m p off = 0"
| "load_le (Suc k) m p off = ucast (m (elem p off)) OR push_bit 8 (load_le k m p (Suc off))"

definition ehdr_at :: "memory \<Rightarrow> u64 \<Rightarrow> Elf64_Ehdr" where
  "ehdr_at m p =
     \<lparr>e_ident = map (\<lambda>i. m (elem p i)) [0..<16],
      e_type = ucast (load_le 2 m p 16), e_machine = ucast (load_le 2 m p 18),
      e_version = ucast (load_le 4 m p 20), e_entry = load_le 8 m p 24, e_phoff = load_le 8 m p 32,
      e_shoff = load_le 8 m p 40, e_flags = ucast (load_le 4 m p 48), e_ehsize = ucast (load_le 2 m p 52),
      e_phentsize = ucast (load_le 2 m p 54), e_phnum = ucast (load_le 2 m p 56),
      e_shentsize = ucast (load_le 2 m p 58), e_shnum = ucast (load_le 2 m p 60),
      e_shstrndx = ucast (load_le 2 m p 62)\<rparr>"

definition phdr_at :: "memory \<Rightarrow> u64 \<Rightarrow> Elf64_Phdr" where
  "phdr_at m p =
     \<lparr>p_type = ucast (load_le 4 m p 0), p_flags = ucast (load_le 4 m p 4), p_offset = load_le 8 m p 8,
      p_vaddr = load_le 8 m p 16, p_paddr = load_le 8 m p 24, p_filesz = load_le 8 m p 32,
      p_memsz = load_le 8 m p 40, p_align = load_le 8 m p 48\<rparr>"

section \<open>The loader\<close>

definition elf_ident_valid :: "Elf64_Ehdr \<Rightarrow> bool" where
  "elf_ident_valid ehdr \<longleftrightarrow>
     e_ident ehdr ! 0 = 0x7F \<and> e_ident ehdr ! 1 = 0x45 \<and> e_ident ehdr ! 2 = 0x4C \<and> e_ident ehdr ! 3 = 0x46 \<and>
     e_ident ehdr ! 4 = 2 \<and> e_ident ehdr ! 5 = 1 \<and> e_ident ehdr ! 6 = 1"

definition in_image :: "u64 \<Rightarrow> u64 \<Rightarrow> u64 \<Rightarrow> bool" where
  "in_image off len image_size \<longleftrightarrow> len \<le> image_size \<and> off \<le> image_size - len"

definition in_region :: "u64 \<Rightarrow> u64 \<Rightarrow> u64 \<Rightarrow> u64 \<Rightarrow> bool" where
  "in_region vaddr len region_base region_size =
     (if vaddr < region_base then False
      else let offset = vaddr - region_base in len \<le> region_size \<and> offset \<le> region_size - len)"

text \<open>The counters of the loop over the program headers.\<close>

record elf_progress =
  ep_min_vaddr :: u64
  ep_max_vaddr :: u64
  ep_loadable :: u32
  ep_total_filesz :: u32
  ep_total_memsz :: u32

definition elf_progress_init :: elf_progress where
  "elf_progress_init =
     \<lparr>ep_min_vaddr = UINT64_MAX, ep_max_vaddr = 0, ep_loadable = 0, ep_total_filesz = 0, ep_total_memsz = 0\<rparr>"

text \<open>The address of program header \<open>i\<close>.\<close>

definition phdr_addr :: "memory \<Rightarrow> u64 \<Rightarrow> u16 \<Rightarrow> u64" where
  "phdr_addr m img i = img + e_phoff (ehdr_at m img) + ucast i * SIZEOF_PHDR"

text \<open>The three refusals of a loadable segment.\<close>

definition elf_segment_error :: "u64 \<Rightarrow> u64 \<Rightarrow> u64 \<Rightarrow> Elf64_Phdr \<Rightarrow> aios_status option" where
  "elf_segment_error image_size region_base region_size ph =
     (if p_filesz ph > p_memsz ph then Some AIOS_ERR_INVAL
      else if \<not> in_image (p_offset ph) (p_filesz ph) image_size then Some AIOS_ERR_INVAL
      else if \<not> in_region (p_vaddr ph) (p_memsz ph) region_base region_size then Some AIOS_ERR_PERM
      else None)"

text \<open>The bytes of one segment, and the zeros after them.\<close>

definition elf_copy_segment :: "u64 \<Rightarrow> u64 \<Rightarrow> memory \<Rightarrow> memory" where
  "elf_copy_segment img pa m =
     (let ph = phdr_at m pa;
          m1 = snd (memcpy (p_vaddr ph) (img + p_offset ph) (p_filesz ph) m);
          ph1 = phdr_at m1 pa
      in if p_memsz ph1 > p_filesz ph1
         then snd (memset (p_vaddr ph1 + p_filesz ph1) 0 (p_memsz ph1 - p_filesz ph1) m1) else m1)"

definition elf_count_segment :: "Elf64_Phdr \<Rightarrow> elf_progress \<Rightarrow> elf_progress" where
  "elf_count_segment ph acc =
     \<lparr>ep_min_vaddr = (if p_vaddr ph < ep_min_vaddr acc then p_vaddr ph else ep_min_vaddr acc),
      ep_max_vaddr = (if p_vaddr ph + p_memsz ph > ep_max_vaddr acc then p_vaddr ph + p_memsz ph else ep_max_vaddr acc),
      ep_loadable = ep_loadable acc + 1,
      ep_total_filesz = ep_total_filesz acc + ucast (p_filesz ph),
      ep_total_memsz = ep_total_memsz acc + ucast (p_memsz ph)\<rparr>"

text \<open>
  The loop.  Its counter has 16 bits and is compared with a 16-bit field, so it ends even if the
  field changes under it.
\<close>

function elf_segments ::
  "u64 \<Rightarrow> u64 \<Rightarrow> u64 \<Rightarrow> u64 \<Rightarrow> u16 \<Rightarrow> elf_progress \<Rightarrow> memory \<Rightarrow> (aios_status + elf_progress) \<times> memory" where
  "elf_segments img image_size region_base region_size i acc m =
     (if i < e_phnum (ehdr_at m img) then
        let pa = phdr_addr m img i; ph = phdr_at m pa
        in if p_type ph \<noteq> PT_LOAD then elf_segments img image_size region_base region_size (i + 1) acc m
           else case elf_segment_error image_size region_base region_size ph of
             Some e \<Rightarrow> (Inl e, m)
           | None \<Rightarrow>
               let m2 = elf_copy_segment img pa m
               in elf_segments img image_size region_base region_size (i + 1)
                    (elf_count_segment (phdr_at m2 pa) acc) m2
      else (Inr acc, m))"
  by pat_completeness auto

lemma u16_step:
  fixes i n :: u16
  assumes "i < n"
  shows "unat (i + 1) = unat i + 1" and "unat i < unat n" and "unat n < 65536"
proof -
  show n: "unat i < unat n" "unat n < 65536"
    using assms unsigned_less [of n, where ?'a = nat] by (simp_all add: word_less_nat_alt)
  then show "unat (i + 1) = unat i + 1" by (simp add: unat_add_no_wrap)
qed

lemma u16_step_measure: "i < n \<Longrightarrow> 65536 - unat (i + 1) < 65536 - unat (i :: u16)"
  using u16_step [of i n] by linarith

termination elf_segments
  by (relation "measure (\<lambda>(img, image_size, region_base, region_size, i, acc, m). 65536 - unat i)")
    (use u16_step_measure in \<open>simp_all del: diff_less_mono2\<close>)

declare elf_segments.simps [simp del]

definition elf_load ::
  "u64 \<Rightarrow> u64 \<Rightarrow> u64 \<Rightarrow> u64 \<Rightarrow> bool \<Rightarrow> memory \<Rightarrow> aios_status \<times> elf_load_result option \<times> memory" where
  "elf_load img image_size region_base region_size has_out m =
     (if img = 0 \<or> \<not> has_out \<or> image_size < SIZEOF_EHDR then (AIOS_ERR_INVAL, None, m)
      else let ehdr = ehdr_at m img
      in if \<not> elf_ident_valid ehdr then (AIOS_ERR_INVAL, None, m)
      else if e_type ehdr \<noteq> ET_EXEC \<or> e_machine ehdr \<noteq> EM_X86_64 then (AIOS_ERR_INVAL, None, m)
      else if ucast (e_phentsize ehdr) \<noteq> SIZEOF_PHDR \<or> e_phnum ehdr = 0 then (AIOS_ERR_INVAL, None, m)
      else if \<not> in_image (e_phoff ehdr) (ucast (e_phnum ehdr) * SIZEOF_PHDR) image_size then (AIOS_ERR_INVAL, None, m)
      else case elf_segments img image_size region_base region_size 0 elf_progress_init m of
        (Inl e, m1) \<Rightarrow> (e, None, m1)
      | (Inr acc, m1) \<Rightarrow>
          let entry = e_entry (ehdr_at m1 img)
          in if ep_loadable acc = 0 then (AIOS_ERR_INVAL, None, m1)
             else if \<not> in_region entry 1 region_base region_size \<or> entry < ep_min_vaddr acc \<or> entry \<ge> ep_max_vaddr acc
             then (AIOS_ERR_INVAL, None, m1)
             else (AIOS_OK,
               Some \<lparr>er_entry = entry, er_load_min_vaddr = ep_min_vaddr acc, er_load_max_vaddr = ep_max_vaddr acc,
                 er_loadable_segments = ep_loadable acc, er_total_filesz = ep_total_filesz acc,
                 er_total_memsz = ep_total_memsz acc\<rparr>, m1))"

end
