(* ===== verification/Elf_Correct.thy ===== *)
theory Elf_Correct
  imports Elf_Loader
begin

text \<open>
  Correctness of the ELF loader: what a program image asks memory to be, a list recursion that the
  loop over the program headers equals while the image is not overwritten, and the two properties
  of \<^verbatim>\<open>elf_load\<close>, that it loads exactly the program and that it writes to the user region only.
\<close>

section \<open>Definitions\<close>

text \<open>The program headers of an image, those to load, and when each can be loaded.\<close>

definition elf_phdrs :: "memory \<Rightarrow> u64 \<Rightarrow> Elf64_Phdr list" where
  "elf_phdrs m img =
     map (\<lambda>i. phdr_at m (phdr_addr m img (of_nat i))) [0..<unat (e_phnum (ehdr_at m img))]"

definition elf_loads :: "memory \<Rightarrow> u64 \<Rightarrow> Elf64_Phdr list" where
  "elf_loads m img = filter (\<lambda>ph. p_type ph = PT_LOAD) (elf_phdrs m img)"

definition segment_covers :: "Elf64_Phdr \<Rightarrow> u64 \<Rightarrow> bool" where
  "segment_covers ph a \<longleftrightarrow> a \<in> buffer (p_vaddr ph) (unat (p_memsz ph))"

text \<open>
  The byte at an address after the segments \<open>phs\<close> have been loaded: the last segment that covers it decides, with its
  file byte or with zero past its file size.
\<close>

definition elf_byte :: "u64 \<Rightarrow> memory \<Rightarrow> Elf64_Phdr list \<Rightarrow> u64 \<Rightarrow> u8" where
  "elf_byte img m phs a =
     (case find (\<lambda>ph. segment_covers ph a) (rev phs) of
        None \<Rightarrow> m a
      | Some ph \<Rightarrow>
          if a \<in> buffer (p_vaddr ph) (unat (p_filesz ph)) then m (img + p_offset ph + (a - p_vaddr ph)) else 0)"

text \<open>The image and the region are ranges of the address space and do not meet.\<close>

definition elf_apart :: "u64 \<Rightarrow> u64 \<Rightarrow> u64 \<Rightarrow> u64 \<Rightarrow> bool" where
  "elf_apart img sz rb rs \<longleftrightarrow>
     unat img + unat sz \<le> 2 ^ 64 \<and> unat rb + unat rs \<le> 2 ^ 64 \<and>
     buffer img (unat sz) \<inter> buffer rb (unat rs) = {}"

definition same_image :: "u64 \<Rightarrow> u64 \<Rightarrow> memory \<Rightarrow> memory \<Rightarrow> bool" where
  "same_image img sz m M \<longleftrightarrow> (\<forall>a \<in> buffer img (unat sz). M a = m a)"

definition elf_place :: "u64 \<Rightarrow> Elf64_Phdr \<Rightarrow> memory \<Rightarrow> memory" where
  "elf_place img ph M =
     (\<lambda>a. if a \<in> buffer (p_vaddr ph) (unat (p_filesz ph)) then M (img + p_offset ph + (a - p_vaddr ph))
          else if segment_covers ph a then 0 else M a)"

text \<open>The loop over the program headers as a recursion on the list of them.\<close>

fun elf_run ::
  "u64 \<Rightarrow> u64 \<Rightarrow> u64 \<Rightarrow> u64 \<Rightarrow> Elf64_Phdr list \<Rightarrow> elf_progress \<Rightarrow> memory \<Rightarrow> (aios_status + elf_progress) \<times> memory" where
  "elf_run img sz rb rs [] acc M = (Inr acc, M)"
| "elf_run img sz rb rs (ph # phs) acc M =
     (if p_type ph \<noteq> PT_LOAD then elf_run img sz rb rs phs acc M
      else case elf_segment_error sz rb rs ph of
        Some e \<Rightarrow> (Inl e, M)
      | None \<Rightarrow> elf_run img sz rb rs phs (elf_count_segment ph acc) (elf_place img ph M))"

text \<open>The byte at an address when the segments \<open>phs\<close> are loaded over the memory \<open>M\<close> from the image in \<open>m\<close>.\<close>

definition overlay :: "u64 \<Rightarrow> memory \<Rightarrow> memory \<Rightarrow> Elf64_Phdr list \<Rightarrow> memory" where
  "overlay img m M phs a =
     (case find (\<lambda>ph. segment_covers ph a) (rev phs) of
        None \<Rightarrow> M a
      | Some ph \<Rightarrow>
          if a \<in> buffer (p_vaddr ph) (unat (p_filesz ph)) then m (img + p_offset ph + (a - p_vaddr ph)) else 0)"

text \<open>The checks of the loader before its loop, and its check of the entry point.\<close>

definition elf_header_ok :: "u64 \<Rightarrow> u64 \<Rightarrow> memory \<Rightarrow> bool" where
  "elf_header_ok img sz m \<longleftrightarrow>
     (let ehdr = ehdr_at m img
      in img \<noteq> 0 \<and> 64 \<le> unat sz \<and> elf_ident_valid ehdr \<and> e_type ehdr = ET_EXEC \<and> e_machine ehdr = EM_X86_64 \<and>
         unat (e_phentsize ehdr) = 56 \<and> e_phnum ehdr \<noteq> 0 \<and> unat (e_phoff ehdr) + unat (e_phnum ehdr) * 56 \<le> unat sz)"

definition elf_entry_ok :: "u64 \<Rightarrow> u64 \<Rightarrow> u64 \<Rightarrow> memory \<Rightarrow> bool" where
  "elf_entry_ok img rb rs m \<longleftrightarrow>
     (let entry = e_entry (ehdr_at m img)
      in entry \<in> buffer rb (unat rs) \<and> (\<exists>ph \<in> set (elf_loads m img). p_vaddr ph \<le> entry) \<and>
         (\<exists>ph \<in> set (elf_loads m img). entry < p_vaddr ph + p_memsz ph))"

text \<open>The last steps of the loader, on the result of its loop.\<close>

definition elf_finish ::
  "u64 \<Rightarrow> u64 \<Rightarrow> u64 \<Rightarrow> (aios_status + elf_progress) \<times> memory \<Rightarrow> aios_status \<times> elf_load_result option \<times> memory" where
  "elf_finish entry rb rs r =
     (case r of
        (Inl e, m1) \<Rightarrow> (e, None, m1)
      | (Inr acc, m1) \<Rightarrow>
          if ep_loadable acc = 0 \<or> entry \<notin> buffer rb (unat rs) \<or> \<not> ep_min_vaddr acc \<le> entry \<or> \<not> entry < ep_max_vaddr acc
          then (AIOS_ERR_INVAL, None, m1)
          else (AIOS_OK,
            Some \<lparr>er_entry = entry, er_load_min_vaddr = ep_min_vaddr acc, er_load_max_vaddr = ep_max_vaddr acc,
              er_loadable_segments = ep_loadable acc, er_total_filesz = ep_total_filesz acc,
              er_total_memsz = ep_total_memsz acc\<rparr>, m1))"

definition elf_segment_fits :: "u64 \<Rightarrow> u64 \<Rightarrow> u64 \<Rightarrow> Elf64_Phdr \<Rightarrow> bool" where
  "elf_segment_fits sz rb rs ph \<longleftrightarrow>
     unat (p_filesz ph) \<le> unat (p_memsz ph) \<and> unat (p_offset ph) + unat (p_filesz ph) \<le> unat sz \<and>
     unat rb \<le> unat (p_vaddr ph) \<and> unat (p_vaddr ph) + unat (p_memsz ph) \<le> unat rb + unat rs"

text \<open>An executable of one segment with four file bytes and four zero bytes, in kernel memory at one megabyte.\<close>

definition demo_image :: "u8 list" where
  "demo_image =
     [127, 69, 76, 70, 2, 1, 1, 0, 0, 0, 0, 0, 0, 0, 0, 0, 2, 0, 62, 0, 1, 0, 0, 0,
      0, 0, 0, 4, 0, 0, 0, 0, 64, 0, 0, 0, 0, 0, 0, 0, 0, 0, 0, 0, 0, 0, 0, 0,
      0, 0, 0, 0, 64, 0, 56, 0, 1, 0, 0, 0, 0, 0, 0, 0, 1, 0, 0, 0, 5, 0, 0, 0,
      120, 0, 0, 0, 0, 0, 0, 0, 0, 0, 0, 4, 0, 0, 0, 0, 0, 0, 0, 0, 0, 0, 0, 0,
      4, 0, 0, 0, 0, 0, 0, 0, 8, 0, 0, 0, 0, 0, 0, 0, 0, 16, 0, 0, 0, 0, 0, 0,
      144, 144, 235, 254]"

definition demo_memory :: memory where
  "demo_memory a = (if 0x100000 \<le> a \<and> a < 0x10007C then demo_image ! unat (a - 0x100000) else 0xAA)"

section \<open>Reading headers\<close>

lemma load_le_cong:
  "\<forall>i. off \<le> i \<longrightarrow> i < off + k \<longrightarrow> m (elem p i) = m2 (elem p i) \<Longrightarrow> load_le k m p off = load_le k m2 p off"
  by (induction k arbitrary: off) auto

lemma ehdr_at_cong: "\<forall>i < 64. m (elem p i) = m2 (elem p i) \<Longrightarrow> ehdr_at m p = ehdr_at m2 p"
  by (auto simp: ehdr_at_def intro!: arg_cong [where f = ucast] load_le_cong)

lemma phdr_at_cong: "\<forall>i < 56. m (elem p i) = m2 (elem p i) \<Longrightarrow> phdr_at m p = phdr_at m2 p"
  by (auto simp: phdr_at_def intro!: arg_cong [where f = ucast] load_le_cong)

lemma in_image_iff: "in_image off len sz \<longleftrightarrow> unat off + unat len \<le> unat sz"
  using unat_sub [of len sz] by (auto simp: in_image_def word_le_nat_alt)

lemma in_region_iff:
  "in_region v len base sz \<longleftrightarrow> unat base \<le> unat v \<and> unat v + unat len \<le> unat base + unat sz"
  using unat_sub [of len sz] unat_sub [of base v]
  by (auto simp: in_region_def Let_def word_le_nat_alt word_less_nat_alt)

section \<open>Loading one segment\<close>

lemma buffer_mono: "n \<le> k \<Longrightarrow> buffer p n \<subseteq> buffer p k"
  by (auto simp: buffer_def)

lemma elem_in_image:
  assumes "unat off + n \<le> unat sz" and "unat img + unat sz \<le> 2 ^ 64" and "i < n"
  shows "elem (img + off) i \<in> buffer img (unat sz)"
proof -
  have "unat (img + off) = unat img + unat off" using assms by (simp add: unat_add_no_wrap)
  moreover from this have "unat (elem (img + off) i) = unat img + unat off + i"
    using assms by (simp add: unat_elem)
  ultimately show ?thesis using assms by (simp add: buffer_def)
qed

lemma ehdr_same:
  assumes "same_image img sz m M" and "64 \<le> unat sz" and "unat img + unat sz \<le> 2 ^ 64"
  shows "ehdr_at M img = ehdr_at m img"
proof (rule ehdr_at_cong)
  have "elem img i \<in> buffer img (unat sz)" if "i < 64" for i
    using that assms(2,3) by (intro elem_in_buffer) auto
  then show "\<forall>i < 64. M (elem img i) = m (elem img i)" using assms(1) by (simp add: same_image_def)
qed

lemma phdr_in_image:
  assumes "in_image (e_phoff (ehdr_at m img)) (ucast (e_phnum (ehdr_at m img)) * SIZEOF_PHDR) sz"
    and "unat img + unat sz \<le> 2 ^ 64" and "i < e_phnum (ehdr_at m img)" and "k < 56"
  shows "elem (phdr_addr m img i) k \<in> buffer img (unat sz)"
proof -
  let ?off = "e_phoff (ehdr_at m img)" and ?n = "e_phnum (ehdr_at m img)"
  note n = u16_step(2,3) [OF assms(3)]
  have "unat (ucast ?n * SIZEOF_PHDR :: u64) = unat ?n * 56"
    using n by (subst unat_mult_no_wrap) simp_all
  then have table: "unat ?off + unat ?n * 56 \<le> unat sz" using assms(1) by (simp add: in_image_iff)
  have "unat (ucast i * SIZEOF_PHDR :: u64) = unat i * 56"
    using n by (subst unat_mult_no_wrap) simp_all
  moreover have "Suc (unat i) * 56 \<le> unat ?n * 56" using n(1) by (intro mult_right_mono) auto
  ultimately have "unat (?off + ucast i * SIZEOF_PHDR) = unat ?off + unat i * 56"
    and "unat ?off + unat i * 56 + 56 \<le> unat sz"
    using table assms(2) by (simp_all add: unat_add_no_wrap)
  then show ?thesis
    using elem_in_image [of "?off + ucast i * SIZEOF_PHDR" 56 sz img k] assms(2,4)
    by (simp add: phdr_addr_def add.assoc)
qed

lemma phdr_same:
  assumes "same_image img sz m M"
    and "in_image (e_phoff (ehdr_at m img)) (ucast (e_phnum (ehdr_at m img)) * SIZEOF_PHDR) sz"
    and "unat img + unat sz \<le> 2 ^ 64" and "i < e_phnum (ehdr_at m img)"
  shows "phdr_at M (phdr_addr m img i) = phdr_at m (phdr_addr m img i)"
  using assms(1) phdr_in_image [OF assms(2-4)] by (intro phdr_at_cong) (simp add: same_image_def)

text \<open>What the three checks say about an accepted segment.\<close>

lemma segment_ok:
  assumes "elf_segment_error sz rb rs ph = None" and "unat rb + unat rs \<le> 2 ^ 64"
  shows "unat (p_filesz ph) \<le> unat (p_memsz ph)" and "unat (p_offset ph) + unat (p_filesz ph) \<le> unat sz"
    and "unat rb \<le> unat (p_vaddr ph)" and "unat (p_vaddr ph) + unat (p_memsz ph) \<le> unat rb + unat rs"
    and "segment_covers ph a \<Longrightarrow> a \<in> buffer rb (unat rs)"
proof -
  show ok: "unat (p_filesz ph) \<le> unat (p_memsz ph)" "unat (p_offset ph) + unat (p_filesz ph) \<le> unat sz"
    "unat rb \<le> unat (p_vaddr ph)" "unat (p_vaddr ph) + unat (p_memsz ph) \<le> unat rb + unat rs"
    using assms(1)
    by (auto simp: elf_segment_error_def in_image_iff in_region_iff word_less_nat_alt split: if_splits)
  then show "a \<in> buffer rb (unat rs)" if "segment_covers ph a"
    using that by (auto simp: segment_covers_def buffer_def)
qed

lemma file_byte_in_image:
  assumes "elf_segment_error sz rb rs ph = None" and "elf_apart img sz rb rs"
    and "a \<in> buffer (p_vaddr ph) (unat (p_filesz ph))"
  shows "img + p_offset ph + (a - p_vaddr ph) \<in> buffer img (unat sz)"
proof -
  have nw: "unat img + unat sz \<le> 2 ^ 64" "unat rb + unat rs \<le> 2 ^ 64" using assms(2) by (simp_all add: elf_apart_def)
  note ok = segment_ok [OF assms(1) nw(2)]
  obtain i where "i < unat (p_filesz ph)" "a = elem (p_vaddr ph) i"
    using buffer_elem [OF assms(3)] ok nw by fastforce
  moreover from this have "elem (img + p_offset ph) i \<in> buffer img (unat sz)"
    using elem_in_image [OF ok(2) nw(1)] by simp
  ultimately show ?thesis by (simp add: elem_def)
qed

lemma segment_memcpy:
  assumes "elf_segment_error sz rb rs ph = None" and "elf_apart img sz rb rs"
  shows "snd (memcpy (p_vaddr ph) (img + p_offset ph) (p_filesz ph) M) =
    copied (p_vaddr ph) (img + p_offset ph) (unat (p_filesz ph)) M"
proof (cases "p_filesz ph = 0")
  case True
  then show ?thesis by (auto simp: memcpy_def copied_def buffer_def fun_eq_iff)
next
  case False
  then have pos: "0 < unat (p_filesz ph)" by (simp add: unat_gt_0)
  have nw: "unat img + unat sz \<le> 2 ^ 64" "unat rb + unat rs \<le> 2 ^ 64"
    and apart: "buffer img (unat sz) \<inter> buffer rb (unat rs) = {}"
    using assms(2) by (simp_all add: elf_apart_def)
  note ok = segment_ok [OF assms(1) nw(2)]
  have src: "unat (img + p_offset ph) = unat img + unat (p_offset ph)"
    using ok(2) nw(1) pos by (simp add: unat_add_no_wrap)
  have "unat (p_vaddr ph) \<le> unat (img + p_offset ph) \<or>
      unat (img + p_offset ph) + unat (p_filesz ph) \<le> unat (p_vaddr ph)"
  proof (rule ccontr)
    assume "\<not> ?thesis"
    then have "p_vaddr ph \<in> buffer img (unat sz)" "p_vaddr ph \<in> buffer rb (unat rs)"
      using src ok(1-4) pos by (auto simp: buffer_def)
    then show False using apart by blast
  qed
  then show ?thesis using src ok(1-4) nw by (intro memcpy_eq) auto
qed

lemma elf_copy_segment_eq:
  assumes "elf_segment_error sz rb rs ph = None" and "elf_apart img sz rb rs" and "same_image img sz m M"
    and "\<forall>M'. same_image img sz m M' \<longrightarrow> phdr_at M' pa = ph"
  shows "elf_copy_segment img pa M = elf_place img ph M"
proof -
  have nw: "unat rb + unat rs \<le> 2 ^ 64" and apart: "buffer img (unat sz) \<inter> buffer rb (unat rs) = {}"
    using assms(2) by (simp_all add: elf_apart_def)
  note ok = segment_ok [OF assms(1) nw]
  let ?f = "unat (p_filesz ph)" and ?k = "p_memsz ph - p_filesz ph"
  let ?M = "copied (p_vaddr ph) (img + p_offset ph) ?f M"
  have fb: "a \<in> buffer (p_vaddr ph) ?f \<Longrightarrow> a \<in> buffer rb (unat rs)" for a
    using ok(5) [of a] buffer_mono [OF ok(1)] by (auto simp: segment_covers_def)
  then have "same_image img sz m ?M"
    using assms(3) apart by (auto simp: same_image_def copied_def)
  then have eq: "elf_copy_segment img pa M =
      (if p_filesz ph < p_memsz ph then snd (memset (p_vaddr ph + p_filesz ph) 0 ?k ?M) else ?M)"
    using assms(3,4) segment_memcpy [OF assms(1,2), of M] by (simp add: elf_copy_segment_def Let_def)
  show ?thesis
  proof (cases "p_filesz ph < p_memsz ph")
    case True
    have k: "unat ?k = unat (p_memsz ph) - ?f" using True by (simp add: unat_sub)
    have v: "unat (p_vaddr ph + p_filesz ph) = unat (p_vaddr ph) + ?f"
      using True ok(4) nw by (simp add: unat_add_no_wrap word_less_nat_alt)
    have "snd (memset (p_vaddr ph + p_filesz ph) 0 ?k ?M) =
        (\<lambda>a. if a \<in> buffer (p_vaddr ph + p_filesz ph) (unat ?k) then ucast (0 :: 32 word) else ?M a)"
      using k v True ok(4) nw by (intro memset_eq) (simp add: word_less_nat_alt)
    then show ?thesis using eq True k v ok(1)
      by (auto simp: elf_place_def copied_def segment_covers_def buffer_def fun_eq_iff)
  next
    case False
    then have "p_memsz ph = p_filesz ph" using ok(1) by (simp add: word_less_nat_alt unat_eqI)
    then show ?thesis using eq by (simp add: elf_place_def copied_def segment_covers_def fun_eq_iff)
  qed
qed

lemma elf_place_same:
  assumes "elf_segment_error sz rb rs ph = None" and "elf_apart img sz rb rs" and "same_image img sz m M"
  shows "same_image img sz m (elf_place img ph M)" and "a \<notin> buffer rb (unat rs) \<Longrightarrow> elf_place img ph M a = M a"
proof -
  have nw: "unat rb + unat rs \<le> 2 ^ 64" and apart: "buffer img (unat sz) \<inter> buffer rb (unat rs) = {}"
    using assms(2) by (simp_all add: elf_apart_def)
  note ok = segment_ok [OF assms(1) nw]
  have out: "elf_place img ph M a = M a" if "a \<notin> buffer rb (unat rs)" for a
  proof -
    have "\<not> segment_covers ph a" using that ok(5) by blast
    moreover from this have "a \<notin> buffer (p_vaddr ph) (unat (p_filesz ph))"
      using buffer_mono [OF ok(1)] by (auto simp: segment_covers_def)
    ultimately show ?thesis by (simp add: elf_place_def)
  qed
  show "a \<notin> buffer rb (unat rs) \<Longrightarrow> elf_place img ph M a = M a" by (rule out)
  show "same_image img sz m (elf_place img ph M)"
    unfolding same_image_def
  proof
    fix b assume b: "b \<in> buffer img (unat sz)"
    then have "b \<notin> buffer rb (unat rs)" using apart by blast
    then show "elf_place img ph M b = m b" using out assms(3) b by (simp add: same_image_def)
  qed
qed

section \<open>Loading all segments\<close>

lemma elf_segments_run:
  assumes "elf_apart img sz rb rs" and "64 \<le> unat sz"
    and "in_image (e_phoff (ehdr_at m img)) (ucast (e_phnum (ehdr_at m img)) * SIZEOF_PHDR) sz"
    and "same_image img sz m M" and "unat i \<le> length (elf_phdrs m img)"
  shows "elf_segments img sz rb rs i acc M = elf_run img sz rb rs (drop (unat i) (elf_phdrs m img)) acc M"
  using assms(4,5)
proof (induction "length (elf_phdrs m img) - unat i" arbitrary: i acc M)
  case 0
  have nw: "unat img + unat sz \<le> 2 ^ 64" using assms(1) by (simp add: elf_apart_def)
  have "\<not> i < e_phnum (ehdr_at M img)"
    using 0 ehdr_same [OF 0(2) assms(2) nw] by (simp add: elf_phdrs_def word_less_nat_alt)
  then show ?case using 0 by (simp add: elf_segments.simps [of img sz rb rs i acc M])
next
  case (Suc n)
  have nw: "unat img + unat sz \<le> 2 ^ 64" using assms(1) by (simp add: elf_apart_def)
  let ?pa = "phdr_addr m img i" and ?phs = "elf_phdrs m img"
  have eh: "ehdr_at M' img = ehdr_at m img" if "same_image img sz m M'" for M'
    using ehdr_same [OF that assms(2) nw] .
  have i: "i < e_phnum (ehdr_at m img)" using Suc(2) by (simp add: elf_phdrs_def word_less_nat_alt)
  have ph: "\<forall>M'. same_image img sz m M' \<longrightarrow> phdr_at M' ?pa = phdr_at m ?pa"
    using phdr_same [OF _ assms(3) nw i] by blast
  have pa: "phdr_addr M img i = ?pa" using eh [OF Suc(3)] by (simp add: phdr_addr_def)
  have step: "unat (i + 1) = Suc (unat i)" using u16_step(1) [OF i] by simp
  have len: "unat i < length ?phs" using i by (simp add: elf_phdrs_def word_less_nat_alt)
  have "drop (unat i) ?phs = phdr_at m ?pa # drop (unat (i + 1)) ?phs"
    using len by (simp add: step Cons_nth_drop_Suc [symmetric]) (simp add: elf_phdrs_def)
  moreover have ih: "same_image img sz m M' \<Longrightarrow>
      elf_segments img sz rb rs (i + 1) acc' M' = elf_run img sz rb rs (drop (unat (i + 1)) ?phs) acc' M'" for acc' M'
    using Suc(2) len step by (intro Suc(1)) simp_all
  moreover have "elf_copy_segment img ?pa M = elf_place img (phdr_at m ?pa) M \<and>
      same_image img sz m (elf_place img (phdr_at m ?pa) M)"
    if "elf_segment_error sz rb rs (phdr_at m ?pa) = None"
    using elf_copy_segment_eq [OF that assms(1) Suc(3) ph] elf_place_same(1) [OF that assms(1) Suc(3)] by simp
  ultimately show ?case
    using i eh [OF Suc(3)] pa ph Suc(3)
    by (simp add: elf_segments.simps [of img sz rb rs i acc M] Let_def split: option.split)
qed

lemma elf_run_frame:
  assumes "elf_apart img sz rb rs" and "same_image img sz m M"
  shows "(\<forall>a. a \<notin> buffer rb (unat rs) \<longrightarrow> snd (elf_run img sz rb rs phs acc M) a = M a)"
  using assms(2)
proof (induction phs arbitrary: acc M)
  case (Cons ph phs)
  show ?case
  proof (cases "p_type ph = PT_LOAD \<and> elf_segment_error sz rb rs ph = None")
    case True
    then have "same_image img sz m (elf_place img ph M)"
      "\<forall>a. a \<notin> buffer rb (unat rs) \<longrightarrow> elf_place img ph M a = M a"
      using elf_place_same [OF _ assms(1) Cons.prems] by auto
    then show ?thesis using True Cons.IH by simp
  next
    case False
    then show ?thesis using Cons by (auto split: option.splits)
  qed
qed simp

lemma elf_byte_overlay: "elf_byte img m phs = overlay img m m phs"
  by (simp add: elf_byte_def overlay_def fun_eq_iff)

lemma find_append: "find P (xs @ ys) = (case find P xs of None \<Rightarrow> find P ys | Some x \<Rightarrow> Some x)"
  by (induction xs) auto

lemma overlay_Cons:
  assumes "elf_segment_error sz rb rs ph = None" and "elf_apart img sz rb rs" and "same_image img sz m M"
  shows "overlay img m M (ph # phs) = overlay img m (elf_place img ph M) phs"
proof
  fix a
  have nw: "unat rb + unat rs \<le> 2 ^ 64" using assms(2) by (simp add: elf_apart_def)
  have "a \<in> buffer (p_vaddr ph) (unat (p_filesz ph)) \<Longrightarrow> segment_covers ph a"
    using buffer_mono [OF segment_ok(1) [OF assms(1) nw]] by (auto simp: segment_covers_def)
  moreover have "a \<in> buffer (p_vaddr ph) (unat (p_filesz ph)) \<Longrightarrow>
      M (img + p_offset ph + (a - p_vaddr ph)) = m (img + p_offset ph + (a - p_vaddr ph))"
    using file_byte_in_image [OF assms(1,2)] assms(3) by (auto simp: same_image_def)
  ultimately show "overlay img m M (ph # phs) a = overlay img m (elf_place img ph M) phs a"
    by (auto simp: overlay_def find_append elf_place_def split: option.split)
qed

lemma elf_run_result:
  assumes "elf_apart img sz rb rs" and "same_image img sz m M"
  defines "loads \<equiv> \<lambda>phs. filter (\<lambda>ph. p_type ph = PT_LOAD) phs"
  shows "if \<forall>ph \<in> set (loads phs). elf_segment_error sz rb rs ph = None
    then elf_run img sz rb rs phs acc M = (Inr (fold elf_count_segment (loads phs) acc), overlay img m M (loads phs))
    else \<exists>e M'. elf_run img sz rb rs phs acc M = (Inl e, M') \<and> e \<noteq> AIOS_OK"
  using assms(2)
proof (induction phs arbitrary: acc M)
  case Nil
  then show ?case by (simp add: loads_def overlay_def fun_eq_iff)
next
  case (Cons ph phs)
  consider (skip) "p_type ph \<noteq> PT_LOAD" | (bad) e where "p_type ph = PT_LOAD" "elf_segment_error sz rb rs ph = Some e"
    | (load) "p_type ph = PT_LOAD" "elf_segment_error sz rb rs ph = None" by blast
  then show ?case
  proof cases
    case skip
    then have "loads (ph # phs) = loads phs" "elf_run img sz rb rs (ph # phs) acc M = elf_run img sz rb rs phs acc M"
      by (simp_all add: loads_def)
    then show ?thesis using Cons.IH [OF Cons.prems, of acc] by (simp only:)
  next
    case bad
    then have "e \<noteq> AIOS_OK" by (auto simp: elf_segment_error_def split: if_splits)
    then show ?thesis using bad by (simp add: loads_def)
  next
    case load
    have "same_image img sz m (elf_place img ph M)" by (rule elf_place_same(1) [OF load(2) assms(1) Cons.prems])
    note ih = Cons.IH [OF this, of "elf_count_segment ph acc"]
    have "loads (ph # phs) = ph # loads phs" using load by (simp add: loads_def)
    moreover have "elf_run img sz rb rs (ph # phs) acc M =
        elf_run img sz rb rs phs (elf_count_segment ph acc) (elf_place img ph M)"
      using load by simp
    ultimately show ?thesis
      using ih load(2) overlay_Cons [OF load(2) assms(1) Cons.prems]
      by (simp only: list.set ball_simps fold_Cons o_apply simp_thms)
  qed
qed

section \<open>The counters\<close>

lemma fold_count_bounds:
  defines "r \<equiv> \<lambda>phs acc. fold elf_count_segment phs acc"
  shows "(ep_min_vaddr (r phs acc) \<le> x \<longleftrightarrow> ep_min_vaddr acc \<le> x \<or> (\<exists>ph \<in> set phs. p_vaddr ph \<le> x)) \<and>
    (x < ep_max_vaddr (r phs acc) \<longleftrightarrow> x < ep_max_vaddr acc \<or> (\<exists>ph \<in> set phs. x < p_vaddr ph + p_memsz ph)) \<and>
    ep_loadable (r phs acc) = ep_loadable acc + of_nat (length phs)"
proof (induction phs arbitrary: acc)
  case (Cons ph phs)
  have "(ep_min_vaddr (elf_count_segment ph acc) \<le> x \<longleftrightarrow> ep_min_vaddr acc \<le> x \<or> p_vaddr ph \<le> x) \<and>
    (x < ep_max_vaddr (elf_count_segment ph acc) \<longleftrightarrow> x < ep_max_vaddr acc \<or> x < p_vaddr ph + p_memsz ph) \<and>
    ep_loadable (elf_count_segment ph acc) = ep_loadable acc + 1"
    by (auto simp: elf_count_segment_def)
  then show ?case using Cons.IH [of "elf_count_segment ph acc"] by (simp add: r_def algebra_simps)
qed (simp add: r_def)

lemma loads_count:
  "(of_nat (length (elf_loads m img)) :: u32) = 0 \<longleftrightarrow> elf_loads m img = []"
proof -
  have "length (elf_loads m img) \<le> length (elf_phdrs m img)" by (simp add: elf_loads_def)
  also have "\<dots> < 65536" using unsigned_less [of "e_phnum (ehdr_at m img)", where ?'a = nat] by (simp add: elf_phdrs_def)
  finally have "unat (of_nat (length (elf_loads m img)) :: u32) = length (elf_loads m img)"
    by (intro unat_of_nat_small) simp
  then have "(of_nat (length (elf_loads m img)) :: u32) = 0 \<Longrightarrow> length (elf_loads m img) = 0" by simp
  then show ?thesis by auto
qed

section \<open>The loader writes the program and nothing else\<close>

lemma table_in_image:
  "in_image off (ucast (n :: u16) * SIZEOF_PHDR) sz \<longleftrightarrow> unat off + unat n * 56 \<le> unat sz"
proof -
  have "unat n < 65536" using unsigned_less [of n, where ?'a = nat] by simp
  then have "unat (ucast n * SIZEOF_PHDR :: u64) = unat n * 56" by (subst unat_mult_no_wrap) simp_all
  then show ?thesis by (simp add: in_image_iff)
qed

lemma phentsize_eq: "(ucast (n :: u16) :: u64) = SIZEOF_PHDR \<longleftrightarrow> unat n = 56"
proof
  assume "(ucast n :: u64) = SIZEOF_PHDR"
  then have "unat (ucast n :: u64) = unat (SIZEOF_PHDR :: u64)" by (rule arg_cong)
  then show "unat n = 56" by (simp only: unat_ucast_up) simp
qed (rule unat_eqI, simp)

lemma entry_in_region: "in_region v 1 rb rs \<longleftrightarrow> v \<in> buffer rb (unat rs)"
  by (auto simp: in_region_iff buffer_def)

lemma elf_load_refused: "\<not> elf_header_ok img sz m \<Longrightarrow> elf_load img sz rb rs has_out m = (AIOS_ERR_INVAL, None, m)"
  by (auto simp: elf_load_def elf_header_ok_def Let_def table_in_image phentsize_eq word_less_nat_alt)

lemma same_image_refl: "same_image img sz m m"
  by (simp add: same_image_def)

lemma elf_load_run:
  assumes "elf_apart img sz rb rs" and "elf_header_ok img sz m"
  shows "elf_load img sz rb rs True m =
    elf_finish (e_entry (ehdr_at m img)) rb rs (elf_run img sz rb rs (elf_phdrs m img) elf_progress_init m)"
proof -
  let ?r = "elf_run img sz rb rs (elf_phdrs m img) elf_progress_init m"
  have nw: "unat img + unat sz \<le> 2 ^ 64" and apart: "buffer img (unat sz) \<inter> buffer rb (unat rs) = {}"
    using assms(1) by (simp_all add: elf_apart_def)
  have big: "64 \<le> unat sz" using assms(2) by (simp add: elf_header_ok_def Let_def)
  have run: "elf_segments img sz rb rs 0 elf_progress_init m = ?r"
    using elf_segments_run [OF assms(1) big _ same_image_refl, of m 0] assms(2)
    by (simp add: elf_header_ok_def Let_def table_in_image)
  have "same_image img sz m (snd ?r)"
    unfolding same_image_def
  proof
    fix a assume "a \<in> buffer img (unat sz)"
    then have "a \<notin> buffer rb (unat rs)" using apart by blast
    then show "snd ?r a = m a" using elf_run_frame [OF assms(1) same_image_refl] by blast
  qed
  then have "ehdr_at (snd ?r) img = ehdr_at m img" by (rule ehdr_same [OF _ big nw])
  then have "elf_load img sz rb rs True m =
      (case ?r of (Inl e, m1) \<Rightarrow> (e, None, m1) | (Inr acc, m1) \<Rightarrow> elf_finish (e_entry (ehdr_at m img)) rb rs ?r)"
    using assms(2) run
    by (auto simp: elf_load_def elf_header_ok_def Let_def table_in_image phentsize_eq word_less_nat_alt word_le_nat_alt not_less not_le
        entry_in_region elf_finish_def split: prod.split sum.split)
  then show ?thesis by (simp add: elf_finish_def split: prod.split sum.split)
qed

lemma segment_fits_iff: "elf_segment_error sz rb rs ph = None \<longleftrightarrow> elf_segment_fits sz rb rs ph"
  by (auto simp: elf_segment_error_def elf_segment_fits_def in_image_iff in_region_iff word_less_nat_alt)

lemma finish_ok:
  assumes "elf_apart img sz rb rs" and "elf_header_ok img sz m"
    and "\<forall>ph \<in> set (elf_loads m img). elf_segment_fits sz rb rs ph"
  defines "acc \<equiv> fold elf_count_segment (elf_loads m img) elf_progress_init"
  shows "elf_load img sz rb rs True m =
    elf_finish (e_entry (ehdr_at m img)) rb rs (Inr acc, elf_byte img m (elf_loads m img))"
  using elf_load_run [OF assms(1,2)] assms(3) elf_run_result [OF assms(1) same_image_refl, of "elf_phdrs m img" elf_progress_init m]
  by (simp add: elf_loads_def acc_def elf_byte_overlay segment_fits_iff)

lemma progress_bounds:
  fixes m :: memory and img x :: u64
  defines "acc \<equiv> fold elf_count_segment (elf_loads m img) elf_progress_init"
  shows "ep_loadable acc \<noteq> 0 \<and> ep_min_vaddr acc \<le> x \<and> x < ep_max_vaddr acc \<longleftrightarrow>
    (\<exists>ph \<in> set (elf_loads m img). p_vaddr ph \<le> x) \<and> (\<exists>ph \<in> set (elf_loads m img). x < p_vaddr ph + p_memsz ph)"
proof -
  have b: "ep_min_vaddr acc \<le> x \<longleftrightarrow> UINT64_MAX \<le> x \<or> (\<exists>ph \<in> set (elf_loads m img). p_vaddr ph \<le> x)"
    "x < ep_max_vaddr acc \<longleftrightarrow> (\<exists>ph \<in> set (elf_loads m img). x < p_vaddr ph + p_memsz ph)"
    "ep_loadable acc = 0 \<longleftrightarrow> elf_loads m img = []"
    using fold_count_bounds [of "elf_loads m img" elf_progress_init x] loads_count [of m img]
    by (simp_all add: acc_def elf_progress_init_def)
  have "\<not> UINT64_MAX \<le> x" if "x < ep_max_vaddr acc"
    using that by (metis not_le order_less_le_trans word_order.extremum)
  then show ?thesis using b by auto
qed

lemma progress_in_region:
  fixes m :: memory and img x :: u64
  defines "acc \<equiv> fold elf_count_segment (elf_loads m img) elf_progress_init"
  assumes "\<forall>ph \<in> set (elf_loads m img). elf_segment_fits sz rb rs ph" and "ep_min_vaddr acc \<le> x" and "x < ep_max_vaddr acc"
  shows "rb \<le> ep_min_vaddr acc" and "unat (ep_max_vaddr acc) \<le> unat rb + unat rs"
proof -
  have "UINT64_MAX \<le> ep_min_vaddr acc \<or> (\<exists>ph \<in> set (elf_loads m img). p_vaddr ph \<le> ep_min_vaddr acc)"
    using fold_count_bounds [of "elf_loads m img" elf_progress_init "ep_min_vaddr acc"]
    by (simp add: acc_def elf_progress_init_def)
  then show "rb \<le> ep_min_vaddr acc"
  proof
    assume "UINT64_MAX \<le> ep_min_vaddr acc"
    then show ?thesis using order_trans [OF word_order.extremum] by blast
  next
    assume "\<exists>ph \<in> set (elf_loads m img). p_vaddr ph \<le> ep_min_vaddr acc"
    then show ?thesis using assms(2) by (auto simp: elf_segment_fits_def word_le_nat_alt intro: order_trans)
  qed
  let ?x = "ep_max_vaddr acc - 1"
  have pos: "0 < unat (ep_max_vaddr acc)" using assms(4) by (simp add: word_less_nat_alt)
  then have x: "unat ?x = unat (ep_max_vaddr acc) - 1" by (intro unat_minus_one) (auto simp: unat_gt_0)
  then have "?x < ep_max_vaddr acc" using pos by (simp add: word_less_nat_alt)
  then obtain ph where "ph \<in> set (elf_loads m img)" "?x < p_vaddr ph + p_memsz ph"
    using fold_count_bounds [of "elf_loads m img" elf_progress_init ?x] by (auto simp: acc_def elf_progress_init_def)
  moreover have "unat (p_vaddr ph + p_memsz ph) \<le> unat (p_vaddr ph) + unat (p_memsz ph)"
    by (simp add: unat_word_ariths)
  ultimately show "unat (ep_max_vaddr acc) \<le> unat rb + unat rs"
    using assms(2) x pos by (fastforce simp: elf_segment_fits_def word_less_nat_alt)
qed

text \<open>
  C15: The loader loads exactly the program.  For an image and a user region that do not overlap, the
  load succeeds exactly when the header is that of a static x86-64 executable whose program header
  table lies in the image, every loadable segment has its file bytes in the image and its
  memory in the region, and the entry point is in the region and between the lowest and the highest
  loaded address.  Then every byte of memory is the one the program headers
  ask for: the last segment covering the address gives its file byte, or zero past its file size, and
  no other byte changes.
\<close>

theorem elf_load_image:
  assumes "elf_apart img sz rb rs"
  shows "(fst (elf_load img sz rb rs True m) = AIOS_OK \<longleftrightarrow>
      elf_header_ok img sz m \<and> (\<forall>ph \<in> set (elf_loads m img). elf_segment_fits sz rb rs ph) \<and> elf_entry_ok img rb rs m) \<and>
    (fst (elf_load img sz rb rs True m) = AIOS_OK \<longrightarrow>
      snd (snd (elf_load img sz rb rs True m)) = elf_byte img m (elf_loads m img))"
proof (cases "elf_header_ok img sz m \<and> (\<forall>ph \<in> set (elf_loads m img). elf_segment_fits sz rb rs ph)")
  case True
  let ?e = "e_entry (ehdr_at m img)" and ?acc = "fold elf_count_segment (elf_loads m img) elf_progress_init"
  have "elf_entry_ok img rb rs m \<longleftrightarrow> ?e \<in> buffer rb (unat rs) \<and>
      ep_loadable ?acc \<noteq> 0 \<and> ep_min_vaddr ?acc \<le> ?e \<and> ?e < ep_max_vaddr ?acc"
    unfolding progress_bounds by (simp add: elf_entry_ok_def Let_def)
  then show ?thesis
    using True finish_ok [OF assms, of m] by (simp add: elf_finish_def)
next
  case False
  have "fst (elf_load img sz rb rs True m) \<noteq> AIOS_OK"
  proof (cases "elf_header_ok img sz m")
    case True
    then have "\<not> (\<forall>ph \<in> set (elf_loads m img). elf_segment_fits sz rb rs ph)" using False by blast
    then have "\<exists>e M'. elf_run img sz rb rs (elf_phdrs m img) elf_progress_init m = (Inl e, M') \<and> e \<noteq> AIOS_OK"
      using elf_run_result [OF assms same_image_refl, of "elf_phdrs m img" elf_progress_init m]
      by (auto simp: elf_loads_def segment_fits_iff split: if_splits)
    then show ?thesis using elf_load_run [OF assms True] by (auto simp: elf_finish_def)
  qed (simp add: elf_load_refused)
  then show ?thesis using False by simp
qed

text \<open>
  C16: The loader writes to the user region only.  For an image and a region that do not overlap, on
  every path, the refusals after some segments have been copied included, no byte outside the region changes.  A
  result is given exactly when the load succeeds, and then its entry point and the
  bounds of the loaded program are in the region.
\<close>

theorem elf_load_confined:
  assumes "elf_apart img sz rb rs" and "elf_load img sz rb rs has_out m = (st, res, m')"
  shows "(\<forall>a. m' a \<noteq> m a \<longrightarrow> a \<in> buffer rb (unat rs)) \<and> (st = AIOS_OK \<longleftrightarrow> res \<noteq> None) \<and>
    (\<forall>r. res = Some r \<longrightarrow> er_entry r \<in> buffer rb (unat rs) \<and> rb \<le> er_load_min_vaddr r \<and>
       er_load_min_vaddr r \<le> er_entry r \<and> er_entry r < er_load_max_vaddr r \<and>
       unat (er_load_max_vaddr r) \<le> unat rb + unat rs)"
proof (cases "elf_header_ok img sz m \<and> has_out")
  case True
  let ?r = "elf_run img sz rb rs (elf_phdrs m img) elf_progress_init m"
  let ?acc = "fold elf_count_segment (elf_loads m img) elf_progress_init"
  have fin: "elf_finish (e_entry (ehdr_at m img)) rb rs ?r = (st, res, m')"
    using elf_load_run [OF assms(1), of m] assms(2) True by simp
  then have "m' = snd ?r" by (auto simp: elf_finish_def split: prod.splits sum.splits if_splits)
  then have frame: "\<forall>a. m' a \<noteq> m a \<longrightarrow> a \<in> buffer rb (unat rs)"
    using elf_run_frame [OF assms(1) same_image_refl, of "elf_phdrs m img" elf_progress_init m] by blast
  show ?thesis
  proof (cases "\<forall>ph \<in> set (elf_loads m img). elf_segment_fits sz rb rs ph")
    case fits: True
    have "elf_finish (e_entry (ehdr_at m img)) rb rs (Inr ?acc, elf_byte img m (elf_loads m img)) = (st, res, m')"
      using finish_ok [OF assms(1) _ fits] True assms(2) by simp
    then show ?thesis
      using frame progress_in_region [OF fits] by (auto simp: elf_finish_def split: if_splits)
  next
    case False
    then obtain e M' where "?r = (Inl e, M')" "e \<noteq> AIOS_OK"
      using elf_run_result [OF assms(1) same_image_refl, of "elf_phdrs m img" elf_progress_init m]
      by (auto simp: elf_loads_def segment_fits_iff split: if_splits)
    then show ?thesis using frame fin by (auto simp: elf_finish_def)
  qed
next
  case False
  then have "(st, res, m') = (AIOS_ERR_INVAL, None, m)"
    using assms(2) elf_load_refused [of img sz m rb rs has_out] by (auto simp: elf_load_def)
  then show ?thesis by simp
qed

section \<open>A program\<close>

lemma demo_apart: "elf_apart 0x100000 124 0x4000000 0x200000"
  by (auto simp: elf_apart_def buffer_def)

lemma demo_phdrs: "elf_loads demo_memory 0x100000 =
    [\<lparr>p_type = 1, p_flags = 5, p_offset = 120, p_vaddr = 0x4000000, p_paddr = 0, p_filesz = 4, p_memsz = 8, p_align = 4096\<rparr>]"
  by code_simp

lemma demo_header: "elf_header_ok 0x100000 124 demo_memory" "e_entry (ehdr_at demo_memory 0x100000) = 0x4000000"
  by code_simp+

lemma demo_accepted:
  "elf_header_ok 0x100000 124 demo_memory \<and>
   (\<forall>ph \<in> set (elf_loads demo_memory 0x100000). elf_segment_fits 124 0x4000000 0x200000 ph) \<and>
   elf_entry_ok 0x100000 0x4000000 0x200000 demo_memory"
  by (simp add: demo_header demo_phdrs elf_segment_fits_def elf_entry_ok_def buffer_def)

theorem elf_load_image_witness:
  "\<exists>m'. fst (elf_load 0x100000 124 0x4000000 0x200000 True demo_memory) = AIOS_OK \<and>
     snd (snd (elf_load 0x100000 124 0x4000000 0x200000 True demo_memory)) = m' \<and>
     m' 0x4000002 = 0xEB \<and> m' 0x4000005 = 0 \<and> m' 0x4000008 = 0xAA"
proof -
  let ?r = "elf_load 0x100000 124 0x4000000 0x200000 True demo_memory"
  have "fst ?r = AIOS_OK" "snd (snd ?r) = elf_byte 0x100000 demo_memory (elf_loads demo_memory 0x100000)"
    using elf_load_image [OF demo_apart, of demo_memory] demo_accepted by simp_all
  moreover have "demo_memory 0x10007A = 0xEB" "demo_memory 0x4000008 = 0xAA" by code_simp+
  ultimately show ?thesis
    by (simp add: demo_phdrs elf_byte_def segment_covers_def buffer_def)
qed

theorem elf_load_confined_witness:
  "\<exists>st res m'. elf_load 0x100000 124 0x4000000 0x200000 True demo_memory = (st, res, m') \<and>
     (\<forall>a. m' a \<noteq> demo_memory a \<longrightarrow> a \<in> buffer 0x4000000 0x200000)"
proof -
  obtain st res m' where "elf_load 0x100000 124 0x4000000 0x200000 True demo_memory = (st, res, m')"
    using prod_cases3 by blast
  moreover from elf_load_confined [OF demo_apart this] have "\<forall>a. m' a \<noteq> demo_memory a \<longrightarrow> a \<in> buffer 0x4000000 0x200000"
    by simp
  ultimately show ?thesis by blast
qed

end
