(* ===== verification/Health.thy ===== *)
theory Health
  imports Prelude
begin

text \<open>
  The health registry of \<^verbatim>\<open>kernel/core/health.c\<close>: the state of every subsystem and the summary that
  the policy code asks for.  The registry is the list \<^verbatim>\<open>g_health\<close>; the reading of the clock is an
  argument.
\<close>

section \<open>Data\<close>

abbreviation KERNEL_SUBSYSTEM_IDT :: u32 where "KERNEL_SUBSYSTEM_IDT \<equiv> 0"
abbreviation KERNEL_SUBSYSTEM_TIME :: u32 where "KERNEL_SUBSYSTEM_TIME \<equiv> 1"
abbreviation KERNEL_SUBSYSTEM_SELFTEST :: u32 where "KERNEL_SUBSYSTEM_SELFTEST \<equiv> 2"
abbreviation KERNEL_SUBSYSTEM_ACPI :: u32 where "KERNEL_SUBSYSTEM_ACPI \<equiv> 3"
abbreviation KERNEL_SUBSYSTEM_PCI_CORE :: u32 where "KERNEL_SUBSYSTEM_PCI_CORE \<equiv> 4"
abbreviation KERNEL_SUBSYSTEM_TENSOR_MM :: u32 where "KERNEL_SUBSYSTEM_TENSOR_MM \<equiv> 5"
abbreviation KERNEL_SUBSYSTEM_MEMORY_FABRIC :: u32 where "KERNEL_SUBSYSTEM_MEMORY_FABRIC \<equiv> 6"
abbreviation KERNEL_SUBSYSTEM_SCHED :: u32 where "KERNEL_SUBSYSTEM_SCHED \<equiv> 7"
abbreviation KERNEL_SUBSYSTEM_ACCEL :: u32 where "KERNEL_SUBSYSTEM_ACCEL \<equiv> 8"
abbreviation KERNEL_SUBSYSTEM_PCI_PROBE :: u32 where "KERNEL_SUBSYSTEM_PCI_PROBE \<equiv> 9"
abbreviation KERNEL_SUBSYSTEM_NETWORK :: u32 where "KERNEL_SUBSYSTEM_NETWORK \<equiv> 10"
abbreviation KERNEL_SUBSYSTEM_USB :: u32 where "KERNEL_SUBSYSTEM_USB \<equiv> 11"
abbreviation KERNEL_SUBSYSTEM_STORAGE :: u32 where "KERNEL_SUBSYSTEM_STORAGE \<equiv> 12"
abbreviation KERNEL_SUBSYSTEM_SYSCALL :: u32 where "KERNEL_SUBSYSTEM_SYSCALL \<equiv> 13"
abbreviation KERNEL_SUBSYSTEM_AUTONOMY :: u32 where "KERNEL_SUBSYSTEM_AUTONOMY \<equiv> 14"
abbreviation KERNEL_SUBSYSTEM_SLM :: u32 where "KERNEL_SUBSYSTEM_SLM \<equiv> 15"
abbreviation KERNEL_SUBSYSTEM_HEAP :: u32 where "KERNEL_SUBSYSTEM_HEAP \<equiv> 16"
abbreviation KERNEL_SUBSYSTEM_KEYBOARD :: u32 where "KERNEL_SUBSYSTEM_KEYBOARD \<equiv> 17"
abbreviation KERNEL_SUBSYSTEM_NODEBIT :: u32 where "KERNEL_SUBSYSTEM_NODEBIT \<equiv> 18"
abbreviation KERNEL_SUBSYSTEM_NODE_PIPELINE :: u32 where "KERNEL_SUBSYSTEM_NODE_PIPELINE \<equiv> 19"
abbreviation KERNEL_SUBSYSTEM_COUNT :: u32 where "KERNEL_SUBSYSTEM_COUNT \<equiv> 20"

datatype kernel_health_state = KERNEL_HEALTH_UNKNOWN | KERNEL_HEALTH_OK | KERNEL_HEALTH_DEGRADED | KERNEL_HEALTH_FAILED

datatype kernel_stability = KERNEL_STABILITY_UNSAFE | KERNEL_STABILITY_DEGRADED | KERNEL_STABILITY_STABLE

record kernel_subsystem_health =
  kh_id :: u32
  kh_name :: string
  kh_required :: bool
  kh_io_path :: bool
  kh_state :: kernel_health_state
  kh_last_status :: aios_status
  kh_updated_ts_ns :: u64

record kernel_health_summary =
  hs_level :: kernel_stability
  hs_ok_count :: u32
  hs_degraded_count :: u32
  hs_failed_count :: u32
  hs_unknown_count :: u32
  hs_required_failures :: u32
  hs_io_degraded :: u32
  hs_autonomy_allowed :: bool
  hs_risky_io_allowed :: bool

type_synonym health = "kernel_subsystem_health list"

definition kernel_subsystem_id_valid :: "u32 \<Rightarrow> bool" where
  "kernel_subsystem_id_valid i \<longleftrightarrow> i < KERNEL_SUBSYSTEM_COUNT"

definition health_entry :: "u32 \<Rightarrow> string \<Rightarrow> bool \<Rightarrow> bool \<Rightarrow> kernel_subsystem_health" where
  "health_entry i nm required io_path =
     \<lparr>kh_id = i, kh_name = nm, kh_required = required, kh_io_path = io_path, kh_state = KERNEL_HEALTH_UNKNOWN,
      kh_last_status = AIOS_OK, kh_updated_ts_ns = 0\<rparr>"

definition g_health :: health where
  "g_health =
     [health_entry KERNEL_SUBSYSTEM_IDT ''Interrupt Descriptor Table'' True False,
      health_entry KERNEL_SUBSYSTEM_TIME ''Kernel Time Source'' True False,
      health_entry KERNEL_SUBSYSTEM_SELFTEST ''Boot Selftest'' True False,
      health_entry KERNEL_SUBSYSTEM_ACPI ''ACPI Fabric'' False False,
      health_entry KERNEL_SUBSYSTEM_PCI_CORE ''PCI Core'' False True,
      health_entry KERNEL_SUBSYSTEM_TENSOR_MM ''Tensor Memory Manager'' True False,
      health_entry KERNEL_SUBSYSTEM_MEMORY_FABRIC ''Memory Fabric'' True False,
      health_entry KERNEL_SUBSYSTEM_SCHED ''AI Scheduler'' True False,
      health_entry KERNEL_SUBSYSTEM_ACCEL ''Accelerator HAL'' False False,
      health_entry KERNEL_SUBSYSTEM_PCI_PROBE ''PCI Probe'' False True,
      health_entry KERNEL_SUBSYSTEM_NETWORK ''Network I/O'' False True,
      health_entry KERNEL_SUBSYSTEM_USB ''USB I/O'' False True,
      health_entry KERNEL_SUBSYSTEM_STORAGE ''Storage I/O'' False True,
      health_entry KERNEL_SUBSYSTEM_SYSCALL ''AI Syscall Interface'' True False,
      health_entry KERNEL_SUBSYSTEM_AUTONOMY ''Autonomy Control'' True False,
      health_entry KERNEL_SUBSYSTEM_SLM ''SLM Orchestrator'' True False,
      health_entry KERNEL_SUBSYSTEM_HEAP ''Kernel Heap (kmalloc)'' True False,
      health_entry KERNEL_SUBSYSTEM_KEYBOARD ''PS/2 Keyboard'' False False,
      health_entry KERNEL_SUBSYSTEM_NODEBIT ''NodeBit Policy Gate'' False False,
      health_entry KERNEL_SUBSYSTEM_NODE_PIPELINE ''Node Pipeline Orchestrator'' False False]"

section \<open>Operations\<close>

definition kernel_health_init :: "health \<Rightarrow> aios_status \<times> health" where
  "kernel_health_init g =
     (AIOS_OK, map (\<lambda>e. e\<lparr>kh_state := KERNEL_HEALTH_UNKNOWN, kh_last_status := AIOS_OK, kh_updated_ts_ns := 0\<rparr>) g)"

definition kernel_health_mark :: "u64 \<Rightarrow> u32 \<Rightarrow> kernel_health_state \<Rightarrow> aios_status \<Rightarrow> health \<Rightarrow> health" where
  "kernel_health_mark now i state status g =
     (if \<not> kernel_subsystem_id_valid i then g
      else g[unat i := (g ! unat i)\<lparr>kh_state := state, kh_last_status := status, kh_updated_ts_ns := now\<rparr>])"

definition kernel_health_get :: "u32 \<Rightarrow> health \<Rightarrow> kernel_subsystem_health option" where
  "kernel_health_get i g = (if \<not> kernel_subsystem_id_valid i then None else Some (g ! unat i))"

text \<open>The summary: the counters of the loop, then the level and the two permissions.\<close>

definition summary_start :: kernel_health_summary where
  "summary_start =
     \<lparr>hs_level = KERNEL_STABILITY_STABLE, hs_ok_count = 0, hs_degraded_count = 0, hs_failed_count = 0,
      hs_unknown_count = 0, hs_required_failures = 0, hs_io_degraded = 0, hs_autonomy_allowed = True,
      hs_risky_io_allowed = True\<rparr>"

definition summary_count :: "kernel_subsystem_health \<Rightarrow> kernel_health_summary \<Rightarrow> kernel_health_summary" where
  "summary_count e out =
     (case kh_state e of
        KERNEL_HEALTH_OK \<Rightarrow> out\<lparr>hs_ok_count := hs_ok_count out + 1\<rparr>
      | KERNEL_HEALTH_DEGRADED \<Rightarrow>
          (let out1 = out\<lparr>hs_degraded_count := hs_degraded_count out + 1\<rparr>
           in if kh_io_path e then out1\<lparr>hs_io_degraded := hs_io_degraded out1 + 1\<rparr> else out1)
      | KERNEL_HEALTH_FAILED \<Rightarrow>
          (let out1 = out\<lparr>hs_failed_count := hs_failed_count out + 1\<rparr>;
               out2 = (if kh_required e then out1\<lparr>hs_required_failures := hs_required_failures out1 + 1\<rparr> else out1)
           in if kh_io_path e then out2\<lparr>hs_io_degraded := hs_io_degraded out2 + 1\<rparr> else out2)
      | KERNEL_HEALTH_UNKNOWN \<Rightarrow> out\<lparr>hs_unknown_count := hs_unknown_count out + 1\<rparr>)"

definition summary_level :: "kernel_health_summary \<Rightarrow> kernel_health_summary" where
  "summary_level out =
     (let level = (if hs_required_failures out > 0 then KERNEL_STABILITY_UNSAFE
                   else if hs_failed_count out > 0 \<or> hs_degraded_count out > 0 then KERNEL_STABILITY_DEGRADED
                   else hs_level out)
      in out\<lparr>hs_level := level, hs_autonomy_allowed := level = KERNEL_STABILITY_STABLE,
             hs_risky_io_allowed := level = KERNEL_STABILITY_STABLE \<and> hs_io_degraded out = 0\<rparr>)"

definition kernel_health_summary_of :: "health \<Rightarrow> kernel_health_summary" where
  "kernel_health_summary_of g = summary_level (fold summary_count g summary_start)"

definition kernel_health_get_summary :: "bool \<Rightarrow> health \<Rightarrow> kernel_health_summary option" where
  "kernel_health_get_summary has_out g = (if \<not> has_out then None else Some (kernel_health_summary_of g))"

definition kernel_health_allows_autonomy :: "health \<Rightarrow> bool" where
  "kernel_health_allows_autonomy g = hs_autonomy_allowed (kernel_health_summary_of g)"

definition kernel_health_allows_risky_io :: "health \<Rightarrow> bool" where
  "kernel_health_allows_risky_io g = hs_risky_io_allowed (kernel_health_summary_of g)"

fun kernel_health_state_name :: "kernel_health_state \<Rightarrow> string" where
  "kernel_health_state_name KERNEL_HEALTH_OK = ''ok''"
| "kernel_health_state_name KERNEL_HEALTH_DEGRADED = ''degraded''"
| "kernel_health_state_name KERNEL_HEALTH_FAILED = ''failed''"
| "kernel_health_state_name KERNEL_HEALTH_UNKNOWN = ''unknown''"

fun kernel_stability_name :: "kernel_stability \<Rightarrow> string" where
  "kernel_stability_name KERNEL_STABILITY_STABLE = ''stable''"
| "kernel_stability_name KERNEL_STABILITY_DEGRADED = ''degraded''"
| "kernel_stability_name KERNEL_STABILITY_UNSAFE = ''unsafe''"

section \<open>What the summary says\<close>

text \<open>Subsystems in a state, and the kernel being stable: none has failed or is degraded.\<close>

definition in_state :: "kernel_health_state \<Rightarrow> health \<Rightarrow> nat" where
  "in_state st g = length (filter (\<lambda>e. kh_state e = st) g)"

definition all_sound :: "health \<Rightarrow> bool" where
  "all_sound g \<longleftrightarrow> (\<forall>e \<in> set g. kh_state e \<noteq> KERNEL_HEALTH_FAILED \<and> kh_state e \<noteq> KERNEL_HEALTH_DEGRADED)"

lemma summary_counts:
  "hs_failed_count (fold summary_count g out) = hs_failed_count out + of_nat (in_state KERNEL_HEALTH_FAILED g) \<and>
   hs_degraded_count (fold summary_count g out) = hs_degraded_count out + of_nat (in_state KERNEL_HEALTH_DEGRADED g) \<and>
   hs_required_failures (fold summary_count g out) =
     hs_required_failures out + of_nat (length (filter (\<lambda>e. kh_state e = KERNEL_HEALTH_FAILED \<and> kh_required e) g)) \<and>
   hs_level (fold summary_count g out) = hs_level out \<and>
   (all_sound g \<longrightarrow> hs_io_degraded (fold summary_count g out) = hs_io_degraded out)"
proof (induction g arbitrary: out)
  case (Cons e g)
  then show ?case
    by (cases "kh_state e") (simp_all add: summary_count_def in_state_def all_sound_def Let_def)
qed (simp add: in_state_def)

lemma count_pos:
  assumes "length g = 20"
  shows "0 < (of_nat (length (filter P g)) :: u32) \<longleftrightarrow> (\<exists>e \<in> set g. P e)"
proof -
  have "length (filter P g) < 2 ^ 32" using length_filter_le [of P g] assms by simp
  then have "unat (of_nat (length (filter P g)) :: u32) = length (filter P g)" by (intro unat_of_nat_small) simp
  moreover have "length (filter P g) = 0 \<longleftrightarrow> \<not> (\<exists>e \<in> set g. P e)" by (simp add: filter_empty_conv)
  ultimately show ?thesis by (auto simp: word_less_nat_alt)
qed

text \<open>
  The level of a registry of the kernel's size: unsafe when a required subsystem has failed, else stable exactly
  when none has failed or is degraded.  Then, and only then, risky operations are allowed.
\<close>

lemma summary_meaning:
  assumes "length g = 20"
  defines "h \<equiv> kernel_health_summary_of g"
  shows "hs_level h = (if \<exists>e \<in> set g. kh_state e = KERNEL_HEALTH_FAILED \<and> kh_required e then KERNEL_STABILITY_UNSAFE
      else if all_sound g then KERNEL_STABILITY_STABLE else KERNEL_STABILITY_DEGRADED)"
    and "hs_autonomy_allowed h \<longleftrightarrow> all_sound g" and "hs_risky_io_allowed h \<longleftrightarrow> all_sound g"
    and "hs_level h = KERNEL_STABILITY_STABLE \<longleftrightarrow> all_sound g"
proof -
  have sound: "all_sound g \<longleftrightarrow> \<not> (\<exists>e \<in> set g. kh_state e = KERNEL_HEALTH_FAILED) \<and>
      \<not> (\<exists>e \<in> set g. kh_state e = KERNEL_HEALTH_DEGRADED)"
    by (auto simp: all_sound_def)
  let ?r = "fold summary_count g summary_start"
  have c: "0 < hs_failed_count ?r \<longleftrightarrow> (\<exists>e \<in> set g. kh_state e = KERNEL_HEALTH_FAILED)"
    "0 < hs_degraded_count ?r \<longleftrightarrow> (\<exists>e \<in> set g. kh_state e = KERNEL_HEALTH_DEGRADED)"
    "0 < hs_required_failures ?r \<longleftrightarrow> (\<exists>e \<in> set g. kh_state e = KERNEL_HEALTH_FAILED \<and> kh_required e)"
    "hs_level ?r = KERNEL_STABILITY_STABLE" "all_sound g \<Longrightarrow> hs_io_degraded ?r = 0"
    using summary_counts [of g summary_start]
    by (simp_all add: summary_start_def in_state_def count_pos [OF assms(1)])
  show lv: "hs_level h = (if \<exists>e \<in> set g. kh_state e = KERNEL_HEALTH_FAILED \<and> kh_required e then KERNEL_STABILITY_UNSAFE
      else if all_sound g then KERNEL_STABILITY_STABLE else KERNEL_STABILITY_DEGRADED)"
    unfolding h_def kernel_health_summary_of_def summary_level_def Let_def
    by (simp only: c kernel_health_summary.simps kernel_health_summary.update_convs sound) auto
  then show st: "hs_level h = KERNEL_STABILITY_STABLE \<longleftrightarrow> all_sound g" by (auto simp: sound)
  show "hs_autonomy_allowed h \<longleftrightarrow> all_sound g"
    using st by (simp add: h_def kernel_health_summary_of_def summary_level_def Let_def)
  show "hs_risky_io_allowed h \<longleftrightarrow> all_sound g"
    using st c(5) by (auto simp: h_def kernel_health_summary_of_def summary_level_def Let_def)
qed

lemma kernel_health_size [simp]:
  "length (kernel_health_mark now i st status g) = length g" "length (snd (kernel_health_init g)) = length g" "length g_health = 20"
  by (simp_all add: kernel_health_mark_def kernel_health_init_def g_health_def)

end
