(* ===== verification/Nodebit.thy ===== *)
theory Nodebit
  imports Health
begin

text \<open>
  The capability gate of \<^verbatim>\<open>kernel/runtime/nodebit.c\<close>: a table that binds a node to the capabilities
  it may use, and the decisions taken on requests.  The table and the observation records are lists
  of \<^verbatim>\<open>NODEBIT_MAX_ENTRIES\<close> slots.  A label pointer is the sequence of bytes it points to, \<open>None\<close> for
  \<^verbatim>\<open>NULL\<close>.  The readings of the clock are arguments and each call is one atomic step.
\<close>

section \<open>Data\<close>

abbreviation NODEBIT_MAX_ENTRIES :: nat where "NODEBIT_MAX_ENTRIES \<equiv> 64"
abbreviation NODEBIT_LABEL_MAX :: nat where "NODEBIT_LABEL_MAX \<equiv> 32"

abbreviation NODEBIT_CAP_OBSERVE :: u64 where "NODEBIT_CAP_OBSERVE \<equiv> 1"
abbreviation NODEBIT_CAP_PLAN_APPLY :: u64 where "NODEBIT_CAP_PLAN_APPLY \<equiv> 0x10"
abbreviation NODEBIT_CAP_AUTONOMY :: u64 where "NODEBIT_CAP_AUTONOMY \<equiv> 0x20"
abbreviation NODEBIT_CAP_RISKY_IO :: u64 where "NODEBIT_CAP_RISKY_IO \<equiv> 0x100"
abbreviation NODEBIT_CAP_DRIVER_RESET :: u64 where "NODEBIT_CAP_DRIVER_RESET \<equiv> 0x200"
abbreviation NODEBIT_CAP_PIPELINE :: u64 where "NODEBIT_CAP_PIPELINE \<equiv> 0x800"

definition NODEBIT_CAP_ALL :: u64 where
  "NODEBIT_CAP_ALL = push_bit 12 1 - 1"

definition NODEBIT_CAP_RISKY_MASK :: u64 where
  "NODEBIT_CAP_RISKY_MASK =
     (NODEBIT_CAP_RISKY_IO OR NODEBIT_CAP_DRIVER_RESET OR NODEBIT_CAP_PLAN_APPLY OR NODEBIT_CAP_AUTONOMY)"

datatype nodebit_action =
  NODEBIT_ACTION_PERMIT | NODEBIT_ACTION_DENY | NODEBIT_ACTION_DEFER | NODEBIT_ACTION_AUDIT

record nodebit_entry =
  ne_node_id :: u16
  ne_label :: "u8 list"
  ne_caps_allowed :: u64
  ne_health_gate :: bool
  ne_active :: bool

record nodebit_decision =
  nd_action :: nodebit_action
  nd_node_id :: u16
  nd_caps_requested :: u64
  nd_caps_granted :: u64
  nd_blocked_by_health :: bool
  nd_ts_ns :: u64

record nodebit_node_stats =
  ns_node_id :: u16
  ns_evaluations :: u32
  ns_permits :: u32
  ns_denies :: u32
  ns_health_blocks :: u32
  ns_last_decision_ns :: u64
  ns_eval_total_ns :: u64
  ns_eval_min_ns :: u64
  ns_eval_max_ns :: u64
  ns_work_total_ns :: u64
  ns_work_count :: u32

record nodebit_stats_totals =
  nt_active_nodes :: u32
  nt_evaluations :: u32
  nt_permits :: u32
  nt_denies :: u32
  nt_health_blocks :: u32
  nt_eval_max_ns :: u64
  nt_work_total_ns :: u64
  nt_work_count :: u32

record nodebit =
  nb_entries :: "nodebit_entry list"
  nb_stats :: "nodebit_node_stats list"
  nb_ready :: bool

definition zero_entry :: nodebit_entry where
  "zero_entry =
     \<lparr>ne_node_id = 0, ne_label = replicate NODEBIT_LABEL_MAX 0, ne_caps_allowed = 0, ne_health_gate = False, ne_active = False\<rparr>"

definition zero_node_stats :: nodebit_node_stats where
  "zero_node_stats =
     \<lparr>ns_node_id = 0, ns_evaluations = 0, ns_permits = 0, ns_denies = 0, ns_health_blocks = 0, ns_last_decision_ns = 0,
      ns_eval_total_ns = 0, ns_eval_min_ns = 0, ns_eval_max_ns = 0, ns_work_total_ns = 0, ns_work_count = 0\<rparr>"

definition zero_totals :: nodebit_stats_totals where
  "zero_totals =
     \<lparr>nt_active_nodes = 0, nt_evaluations = 0, nt_permits = 0, nt_denies = 0, nt_health_blocks = 0, nt_eval_max_ns = 0,
      nt_work_total_ns = 0, nt_work_count = 0\<rparr>"

definition nodebit_boot :: nodebit where
  "nodebit_boot =
     \<lparr>nb_entries = replicate NODEBIT_MAX_ENTRIES zero_entry, nb_stats = replicate NODEBIT_MAX_ENTRIES zero_node_stats,
      nb_ready = False\<rparr>"

section \<open>Helpers\<close>

definition find_entry_locked :: "u16 \<Rightarrow> nodebit \<Rightarrow> nat option" where
  "find_entry_locked node_id s =
     find (\<lambda>i. ne_active (nb_entries s ! i) \<and> ne_node_id (nb_entries s ! i) = node_id) [0..<NODEBIT_MAX_ENTRIES]"

definition find_free_slot_locked :: "nodebit \<Rightarrow> nat option" where
  "find_free_slot_locked s = find (\<lambda>i. \<not> ne_active (nb_entries s ! i)) [0..<NODEBIT_MAX_ENTRIES]"

definition caps_mask_valid :: "u64 \<Rightarrow> bool" where
  "caps_mask_valid caps \<longleftrightarrow> caps AND NOT NODEBIT_CAP_ALL = 0"

definition count_decision :: "nodebit_action \<Rightarrow> bool \<Rightarrow> u64 \<Rightarrow> u64 \<Rightarrow> nodebit_node_stats \<Rightarrow> nodebit_node_stats" where
  "count_decision action health_block end_ns latency_ns st =
     (let st1 = st\<lparr>ns_evaluations := ns_evaluations st + 1\<rparr>;
          st2 = (if action = NODEBIT_ACTION_PERMIT then st1\<lparr>ns_permits := ns_permits st1 + 1\<rparr>
                 else st1\<lparr>ns_denies := ns_denies st1 + 1\<rparr>);
          st3 = (if health_block then st2\<lparr>ns_health_blocks := ns_health_blocks st2 + 1\<rparr> else st2);
          st4 = st3\<lparr>ns_last_decision_ns := end_ns, ns_eval_total_ns := ns_eval_total_ns st3 + latency_ns\<rparr>;
          st5 = (if ns_evaluations st4 = 1 \<or> latency_ns < ns_eval_min_ns st4 then st4\<lparr>ns_eval_min_ns := latency_ns\<rparr> else st4)
      in if latency_ns > ns_eval_max_ns st5 then st5\<lparr>ns_eval_max_ns := latency_ns\<rparr> else st5)"

definition record_decision :: "nat option \<Rightarrow> nodebit_action \<Rightarrow> bool \<Rightarrow> u64 \<Rightarrow> u64 \<Rightarrow> nodebit \<Rightarrow> nodebit" where
  "record_decision slot action health_block start_ns end_ns s =
     (let latency_ns = end_ns - start_ns
      in case slot of
           None \<Rightarrow> s
         | Some i \<Rightarrow>
             s\<lparr>nb_stats := (nb_stats s)[i := count_decision action health_block end_ns latency_ns (nb_stats s ! i)]\<rparr>)"

function copy_label_from :: "u8 list \<Rightarrow> (nat \<Rightarrow> u8) \<Rightarrow> nat \<Rightarrow> u8 list" where
  "copy_label_from dst src i =
     (if i + 1 < NODEBIT_LABEL_MAX \<and> src i \<noteq> 0 then copy_label_from (dst[i := src i]) src (i + 1) else dst[i := 0])"
  by pat_completeness auto

termination copy_label_from
  by (relation "measure (\<lambda>(dst, src, i). NODEBIT_LABEL_MAX - i)") auto

declare copy_label_from.simps [simp del]

definition copy_label :: "u8 list \<Rightarrow> (nat \<Rightarrow> u8) \<Rightarrow> u8 list" where
  "copy_label dst src = copy_label_from dst src 0"

section \<open>Operations\<close>

definition nodebit_init :: "nodebit \<Rightarrow> aios_status \<times> nodebit" where
  "nodebit_init s =
     (AIOS_OK, s\<lparr>nb_entries := replicate NODEBIT_MAX_ENTRIES zero_entry,
                 nb_stats := replicate NODEBIT_MAX_ENTRIES zero_node_stats, nb_ready := True\<rparr>)"

definition nodebit_register :: "u16 \<Rightarrow> (nat \<Rightarrow> u8) option \<Rightarrow> u64 \<Rightarrow> bool \<Rightarrow> nodebit \<Rightarrow> aios_status \<times> nodebit" where
  "nodebit_register node_id label caps_allowed health_gate s =
     (case label of
        None \<Rightarrow> (AIOS_ERR_INVAL, s)
      | Some src \<Rightarrow>
          if \<not> nb_ready s \<or> \<not> caps_mask_valid caps_allowed then (AIOS_ERR_INVAL, s)
          else if find_entry_locked node_id s \<noteq> None then (AIOS_ERR_BUSY, s)
          else case find_free_slot_locked s of
            None \<Rightarrow> (AIOS_ERR_NOMEM, s)
          | Some slot \<Rightarrow>
              (AIOS_OK,
               s\<lparr>nb_entries := (nb_entries s)[slot :=
                   (nb_entries s ! slot)\<lparr>ne_node_id := node_id, ne_caps_allowed := caps_allowed,
                     ne_health_gate := health_gate, ne_active := True,
                     ne_label := copy_label (ne_label (nb_entries s ! slot)) src\<rparr>],
                 nb_stats := (nb_stats s)[slot := zero_node_stats\<lparr>ns_node_id := node_id\<rparr>]\<rparr>))"

definition nodebit_update_caps :: "u16 \<Rightarrow> u64 \<Rightarrow> nodebit \<Rightarrow> aios_status \<times> nodebit" where
  "nodebit_update_caps node_id caps_allowed s =
     (if \<not> nb_ready s \<or> \<not> caps_mask_valid caps_allowed then (AIOS_ERR_INVAL, s)
      else case find_entry_locked node_id s of
        None \<Rightarrow> (AIOS_ERR_NODEV, s)
      | Some i \<Rightarrow>
          (AIOS_OK, s\<lparr>nb_entries := (nb_entries s)[i := (nb_entries s ! i)\<lparr>ne_caps_allowed := caps_allowed\<rparr>]\<rparr>))"

text \<open>The call reads the clock at its start and, for a registered node, when it records the decision.\<close>

definition nodebit_evaluate ::
  "u16 \<Rightarrow> u64 \<Rightarrow> bool \<Rightarrow> health \<Rightarrow> u64 \<Rightarrow> u64 \<Rightarrow> nodebit \<Rightarrow> aios_status \<times> nodebit_decision option \<times> nodebit" where
  "nodebit_evaluate node_id caps_requested has_out h start_ns end_ns s =
     (if \<not> nb_ready s \<or> \<not> has_out then (AIOS_ERR_INVAL, None, s)
      else let d = \<lparr>nd_action = NODEBIT_ACTION_PERMIT, nd_node_id = node_id, nd_caps_requested = caps_requested,
                    nd_caps_granted = 0, nd_blocked_by_health = False, nd_ts_ns = start_ns\<rparr>
           in case find_entry_locked node_id s of
             None \<Rightarrow> (AIOS_ERR_NODEV, Some (d\<lparr>nd_action := NODEBIT_ACTION_DENY\<rparr>), s)
           | Some i \<Rightarrow>
               let caps_allowed = ne_caps_allowed (nb_entries s ! i); health_gate = ne_health_gate (nb_entries s ! i)
               in if caps_requested AND caps_allowed \<noteq> caps_requested
                  then (AIOS_OK, Some (d\<lparr>nd_action := NODEBIT_ACTION_DENY\<rparr>),
                        record_decision (Some i) NODEBIT_ACTION_DENY False start_ns end_ns s)
                  else if health_gate \<and> caps_requested AND NODEBIT_CAP_RISKY_MASK \<noteq> 0 \<and>
                    (hs_level (kernel_health_summary_of h) \<noteq> KERNEL_STABILITY_STABLE \<or>
                     \<not> hs_risky_io_allowed (kernel_health_summary_of h))
                  then (AIOS_OK, Some (d\<lparr>nd_blocked_by_health := True, nd_action := NODEBIT_ACTION_DENY\<rparr>),
                        record_decision (Some i) NODEBIT_ACTION_DENY True start_ns end_ns s)
                  else (AIOS_OK, Some (d\<lparr>nd_caps_granted := caps_requested, nd_action := NODEBIT_ACTION_PERMIT\<rparr>),
                        record_decision (Some i) NODEBIT_ACTION_PERMIT False start_ns end_ns s))"

definition nodebit_lookup :: "u16 \<Rightarrow> bool \<Rightarrow> nodebit \<Rightarrow> aios_status \<times> nodebit_entry option" where
  "nodebit_lookup node_id has_out s =
     (if \<not> nb_ready s \<or> \<not> has_out then (AIOS_ERR_INVAL, None)
      else case find_entry_locked node_id s of
        None \<Rightarrow> (AIOS_ERR_NODEV, None)
      | Some i \<Rightarrow> (AIOS_OK, Some (nb_entries s ! i)))"

definition nodebit_active_count :: "nodebit \<Rightarrow> u32" where
  "nodebit_active_count s = fold (\<lambda>e count. if ne_active e then count + 1 else count) (nb_entries s) 0"

definition nodebit_risky_entry_count :: "nodebit \<Rightarrow> u32" where
  "nodebit_risky_entry_count s =
     fold (\<lambda>e count. if ne_active e \<and> ne_caps_allowed e AND NODEBIT_CAP_RISKY_MASK \<noteq> 0 then count + 1 else count)
       (nb_entries s) 0"

definition nodebit_stats_lookup :: "u16 \<Rightarrow> bool \<Rightarrow> nodebit \<Rightarrow> aios_status \<times> nodebit_node_stats option" where
  "nodebit_stats_lookup node_id has_out s =
     (if \<not> nb_ready s \<or> \<not> has_out then (AIOS_ERR_INVAL, None)
      else case find_entry_locked node_id s of
        None \<Rightarrow> (AIOS_ERR_NODEV, None)
      | Some i \<Rightarrow> (AIOS_OK, Some (nb_stats s ! i)))"

definition nodebit_stats_at :: "u32 \<Rightarrow> bool \<Rightarrow> nodebit \<Rightarrow> aios_status \<times> nodebit_node_stats option" where
  "nodebit_stats_at slot_index has_out s =
     (if \<not> nb_ready s \<or> \<not> has_out \<or> NODEBIT_MAX_ENTRIES \<le> unat slot_index then (AIOS_ERR_INVAL, None)
      else if \<not> ne_active (nb_entries s ! unat slot_index) then (AIOS_ERR_NODEV, None)
      else (AIOS_OK, Some (nb_stats s ! unat slot_index)))"

definition total_node :: "nodebit_entry \<times> nodebit_node_stats \<Rightarrow> nodebit_stats_totals \<Rightarrow> nodebit_stats_totals" where
  "total_node p out =
     (let st = snd p
      in if \<not> ne_active (fst p) then out
         else let out1 = out\<lparr>nt_active_nodes := nt_active_nodes out + 1, nt_evaluations := nt_evaluations out + ns_evaluations st,
                      nt_permits := nt_permits out + ns_permits st, nt_denies := nt_denies out + ns_denies st,
                      nt_health_blocks := nt_health_blocks out + ns_health_blocks st,
                      nt_work_total_ns := nt_work_total_ns out + ns_work_total_ns st,
                      nt_work_count := nt_work_count out + ns_work_count st\<rparr>
              in if ns_eval_max_ns st > nt_eval_max_ns out1 then out1\<lparr>nt_eval_max_ns := ns_eval_max_ns st\<rparr> else out1)"

definition nodebit_stats_summary :: "bool \<Rightarrow> nodebit \<Rightarrow> nodebit_stats_totals option" where
  "nodebit_stats_summary has_out s =
     (if \<not> has_out then None else Some (fold total_node (zip (nb_entries s) (nb_stats s)) zero_totals))"

definition nodebit_observe_work :: "u16 \<Rightarrow> u64 \<Rightarrow> nodebit \<Rightarrow> aios_status \<times> nodebit" where
  "nodebit_observe_work node_id duration_ns s =
     (if \<not> nb_ready s then (AIOS_ERR_INVAL, s)
      else case find_entry_locked node_id s of
        None \<Rightarrow> (AIOS_ERR_NODEV, s)
      | Some i \<Rightarrow>
          (AIOS_OK, s\<lparr>nb_stats := (nb_stats s)[i :=
             (nb_stats s ! i)\<lparr>ns_work_total_ns := ns_work_total_ns (nb_stats s ! i) + duration_ns,
                              ns_work_count := ns_work_count (nb_stats s ! i) + 1\<rparr>]\<rparr>))"

fun nodebit_action_name :: "nodebit_action \<Rightarrow> string" where
  "nodebit_action_name NODEBIT_ACTION_PERMIT = ''permit''"
| "nodebit_action_name NODEBIT_ACTION_DENY = ''deny''"
| "nodebit_action_name NODEBIT_ACTION_DEFER = ''defer''"
| "nodebit_action_name NODEBIT_ACTION_AUDIT = ''audit''"

end
