(* ===== verification/Nodebit_Correct.thy ===== *)
theory Nodebit_Correct
  imports Nodebit
begin

text \<open>
  The capability gate implements a policy map from nodes to a capability set and a health gate.
  The invariant of the table, the refinement of every operation to the map, and the interface
  \<open>policy_gate\<close> under which the pipelines use the gate.
\<close>

section \<open>Definitions\<close>

text \<open>The policy the table stands for, and what it lets a node do.\<close>

definition nodebit_policy :: "nodebit \<Rightarrow> u16 \<Rightarrow> (u64 \<times> bool) option" where
  "nodebit_policy s n =
     map_option (\<lambda>i. (ne_caps_allowed (nb_entries s ! i), ne_health_gate (nb_entries s ! i))) (find_entry_locked n s)"

text \<open>
  A request is permitted for a registered node whose set contains every requested capability; if the
  node is health-gated and asks for applying a plan, autonomy, risky I/O or a driver reset (bits 4, 5, 8
  and 9), no subsystem of the kernel may have failed or be degraded.
\<close>

definition policy_permits :: "(u16 \<Rightarrow> (u64 \<times> bool) option) \<Rightarrow> health \<Rightarrow> u16 \<Rightarrow> u64 \<Rightarrow> bool" where
  "policy_permits P h n c \<longleftrightarrow>
     (\<exists>caps gate. P n = Some (caps, gate) \<and> (\<forall>k. bit c k \<longrightarrow> bit caps k) \<and>
        (gate \<and> (bit c 4 \<or> bit c 5 \<or> bit c 8 \<or> bit c 9) \<longrightarrow> all_sound h))"

definition nodebit_ok :: "nodebit \<Rightarrow> bool" where
  "nodebit_ok s \<longleftrightarrow>
     length (nb_entries s) = NODEBIT_MAX_ENTRIES \<and> length (nb_stats s) = NODEBIT_MAX_ENTRIES \<and>
     (\<forall>i < NODEBIT_MAX_ENTRIES. \<forall>j < NODEBIT_MAX_ENTRIES. ne_active (nb_entries s ! i) \<longrightarrow> ne_active (nb_entries s ! j) \<longrightarrow>
        ne_node_id (nb_entries s ! i) = ne_node_id (nb_entries s ! j) \<longrightarrow> i = j) \<and>
     (\<forall>st \<in> set (nb_stats s). ns_evaluations st = ns_permits st + ns_denies st)"

text \<open>The states of the gate after it has been initialised.\<close>

inductive nodebit_run :: "nodebit \<Rightarrow> bool" where
  init: "nodebit_init s0 = (st, s) \<Longrightarrow> nodebit_run s"
| register: "nodebit_run s \<Longrightarrow> nodebit_run (snd (nodebit_register n l c g s))"
| update: "nodebit_run s \<Longrightarrow> nodebit_run (snd (nodebit_update_caps n c s))"
| evaluate: "nodebit_run s \<Longrightarrow> nodebit_run (snd (snd (nodebit_evaluate n c has_out h t0 t1 s)))"
| observe: "nodebit_run s \<Longrightarrow> nodebit_run (snd (nodebit_observe_work n d s))"

text \<open>A call of the gate that ends in a permit.\<close>

definition permitted :: "aios_status \<times> nodebit_decision option \<times> 's \<Rightarrow> bool" where
  "permitted r \<longleftrightarrow> fst r = AIOS_OK \<and> (\<exists>d. fst (snd r) = Some d \<and> nd_action d = NODEBIT_ACTION_PERMIT)"

text \<open>A health-gated node asks for risky I/O while the network has failed.\<close>

definition demo_gate :: nodebit where
  "demo_gate = snd (nodebit_register 7 (Some (\<lambda>_. 0)) 0x101 True (snd (nodebit_init nodebit_boot)))"

definition demo_health :: health where
  "demo_health = kernel_health_mark 5 KERNEL_SUBSYSTEM_NETWORK KERNEL_HEALTH_FAILED AIOS_ERR_IO g_health"

section \<open>The interface of a gate\<close>

text \<open>
  What a client may rely on: a permit means that the policy permits the request, and asking
  changes neither the policy nor the good order of the gate.
\<close>

locale policy_gate =
  fixes evaluate :: "u16 \<Rightarrow> u64 \<Rightarrow> health \<Rightarrow> u64 \<Rightarrow> u64 \<Rightarrow> 's \<Rightarrow> aios_status \<times> nodebit_decision option \<times> 's"
    and gate_ok :: "'s \<Rightarrow> bool"
    and policy :: "'s \<Rightarrow> u16 \<Rightarrow> (u64 \<times> bool) option"
  assumes permit_iff: "gate_ok s \<Longrightarrow> length h = 20 \<Longrightarrow>
      permitted (evaluate n c h t0 t1 s) \<longleftrightarrow> policy_permits (policy s) h n c"
    and keeps_policy: "gate_ok s \<Longrightarrow> policy (snd (snd (evaluate n c h t0 t1 s))) = policy s"
    and keeps_ok: "gate_ok s \<Longrightarrow> gate_ok (snd (snd (evaluate n c h t0 t1 s)))"
begin

lemma requests_keep:
  assumes "gate_ok s"
  shows "gate_ok (fold (\<lambda>(n, c, h, t0, t1) s. snd (snd (evaluate n c h t0 t1 s))) rs s) \<and>
    policy (fold (\<lambda>(n, c, h, t0, t1) s. snd (snd (evaluate n c h t0 t1 s))) rs s) = policy s"
  using assms
proof (induction rs arbitrary: s)
  case (Cons r rs)
  obtain n c h t0 t1 where r: "r = (n, c, h, t0, t1)" by (cases r) auto
  show ?case
    using Cons.IH [OF keeps_ok [OF Cons.prems]] keeps_policy [OF Cons.prems] by (simp add: r)
qed simp

lemma answers_stable:
  assumes "gate_ok s" and "length h = 20"
  shows "permitted (evaluate n c h t0 t1 (fold (\<lambda>(n, c, h, t0, t1) s. snd (snd (evaluate n c h t0 t1 s))) rs s)) \<longleftrightarrow>
    policy_permits (policy s) h n c"
  using requests_keep [OF assms(1), of rs] assms(2) by (simp add: permit_iff)

end

section \<open>Finding entries\<close>

lemma nodebit_okD:
  assumes "nodebit_ok s"
  shows "length (nb_entries s) = 64" and "length (nb_stats s) = 64"
    and "i < 64 \<Longrightarrow> j < 64 \<Longrightarrow> ne_active (nb_entries s ! i) \<Longrightarrow> ne_active (nb_entries s ! j) \<Longrightarrow>
      ne_node_id (nb_entries s ! i) = ne_node_id (nb_entries s ! j) \<Longrightarrow> i = j"
  using assms by (simp_all add: nodebit_ok_def)

lemma find_entry_None: "find_entry_locked n s = None \<longleftrightarrow> (\<forall>i < 64. ne_active (nb_entries s ! i) \<longrightarrow> ne_node_id (nb_entries s ! i) \<noteq> n)"
  unfolding find_entry_locked_def find_None_iff by auto

lemma find_entry_Some:
  assumes "nodebit_ok s"
  shows "find_entry_locked n s = Some i \<longleftrightarrow> i < 64 \<and> ne_active (nb_entries s ! i) \<and> ne_node_id (nb_entries s ! i) = n"
proof
  show "find_entry_locked n s = Some i \<Longrightarrow> i < 64 \<and> ne_active (nb_entries s ! i) \<and> ne_node_id (nb_entries s ! i) = n"
    unfolding find_entry_locked_def by (auto dest: find_index_SomeD)
next
  assume i: "i < 64 \<and> ne_active (nb_entries s ! i) \<and> ne_node_id (nb_entries s ! i) = n"
  then obtain j where j: "find_entry_locked n s = Some j" using find_entry_None [of n s] by fastforce
  then have "j < 64 \<and> ne_active (nb_entries s ! j) \<and> ne_node_id (nb_entries s ! j) = n"
    unfolding find_entry_locked_def by (auto dest: find_index_SomeD)
  then show "find_entry_locked n s = Some i" using i j nodebit_okD(3) [OF assms, of i j] by simp
qed

lemma policy_Some:
  assumes "nodebit_ok s"
  shows "nodebit_policy s n = Some (c, g) \<longleftrightarrow>
    (\<exists>i < 64. ne_active (nb_entries s ! i) \<and> ne_node_id (nb_entries s ! i) = n \<and>
       ne_caps_allowed (nb_entries s ! i) = c \<and> ne_health_gate (nb_entries s ! i) = g)"
    (is "_ \<longleftrightarrow> (\<exists>i < 64. ?P i)")
proof -
  have "nodebit_policy s n = Some (c, g) \<longleftrightarrow>
      (\<exists>i. find_entry_locked n s = Some i \<and> ne_caps_allowed (nb_entries s ! i) = c \<and> ne_health_gate (nb_entries s ! i) = g)"
    by (auto simp: nodebit_policy_def)
  also have "\<dots> \<longleftrightarrow> (\<exists>i < 64. ?P i)" unfolding find_entry_Some [OF assms] by (simp only: conj_assoc)
  finally show ?thesis .
qed

lemma policy_eqI:
  assumes "\<And>n c g. P n = Some (c, g) \<longleftrightarrow> Q n = Some (c, g)"
  shows "P = (Q :: u16 \<Rightarrow> (u64 \<times> bool) option)"
proof
  fix n
  show "P n = Q n"
    using assms [of n] by (metis option.exhaust surj_pair)
qed

lemma policy_entries: "nb_entries s' = nb_entries s \<Longrightarrow> nodebit_policy s' = nodebit_policy s"
  by (simp add: nodebit_policy_def find_entry_locked_def fun_eq_iff)

lemma free_slot:
  assumes "find_free_slot_locked s = Some i"
  shows "i < 64" and "\<not> ne_active (nb_entries s ! i)"
  using assms unfolding find_free_slot_locked_def by (auto dest: find_index_SomeD)

section \<open>The invariant\<close>

lemma count_decision_balance:
  "ns_evaluations st = ns_permits st + ns_denies st \<Longrightarrow>
   ns_evaluations (count_decision a b t l st) = ns_permits (count_decision a b t l st) + ns_denies (count_decision a b t l st)"
  by (auto simp: count_decision_def Let_def)

lemma stats_update:
  assumes "nodebit_ok s" and "i < 64" and "ns_evaluations st = ns_permits st + ns_denies st"
  shows "nodebit_ok (s\<lparr>nb_stats := (nb_stats s)[i := st]\<rparr>)"
proof -
  have "x = st \<or> x \<in> set (nb_stats s)" if "x \<in> set ((nb_stats s)[i := st])" for x
    using that set_update_subset_insert [of "nb_stats s" i st] by blast
  then show ?thesis using assms by (auto simp: nodebit_ok_def)
qed

lemma record_ok:
  assumes "nodebit_ok s" and "i < 64"
  shows "nodebit_ok (record_decision (Some i) a b t0 t1 s)"
proof -
  have "nb_stats s ! i \<in> set (nb_stats s)" using assms by (simp add: nodebit_ok_def)
  then have "ns_evaluations (nb_stats s ! i) = ns_permits (nb_stats s ! i) + ns_denies (nb_stats s ! i)"
    using assms(1) by (simp add: nodebit_ok_def)
  then show ?thesis
    using stats_update [OF assms count_decision_balance] by (simp add: record_decision_def Let_def)
qed

lemma record_entries [simp]:
  "nb_entries (record_decision slot a b t0 t1 s) = nb_entries s" "nb_ready (record_decision slot a b t0 t1 s) = nb_ready s"
  by (simp_all add: record_decision_def Let_def split: option.split)

lemma evaluate_ok:
  assumes "nodebit_ok s"
  shows "nodebit_ok (snd (snd (nodebit_evaluate n c has_out h t0 t1 s)))"
    and "nb_entries (snd (snd (nodebit_evaluate n c has_out h t0 t1 s))) = nb_entries s"
    and "nb_ready (snd (snd (nodebit_evaluate n c has_out h t0 t1 s))) = nb_ready s"
  using assms record_ok [OF assms] find_entry_Some [OF assms, of n]
  by (auto simp: nodebit_evaluate_def Let_def split: option.split)

lemma observe_ok:
  assumes "nodebit_ok s"
  shows "nodebit_ok (snd (nodebit_observe_work n d s))" and "nb_entries (snd (nodebit_observe_work n d s)) = nb_entries s"
    and "nb_ready (snd (nodebit_observe_work n d s)) = nb_ready s"
proof -
  show "nodebit_ok (snd (nodebit_observe_work n d s))"
  proof (cases "nb_ready s \<and> find_entry_locked n s \<noteq> None")
    case True
    then obtain i where i: "find_entry_locked n s = Some i" by blast
    let ?st = "(nb_stats s ! i)\<lparr>ns_work_total_ns := ns_work_total_ns (nb_stats s ! i) + d, ns_work_count := ns_work_count (nb_stats s ! i) + 1\<rparr>"
    have i64: "i < 64" using i find_entry_Some [OF assms] by simp
    then have "nb_stats s ! i \<in> set (nb_stats s)" using nodebit_okD(2) [OF assms] by simp
    then have "ns_evaluations ?st = ns_permits ?st + ns_denies ?st" using assms by (simp add: nodebit_ok_def)
    then show ?thesis using stats_update [OF assms i64] True i by (simp add: nodebit_observe_work_def)
  next
    case False
    then have "snd (nodebit_observe_work n d s) = s" by (auto simp: nodebit_observe_work_def)
    then show ?thesis using assms by simp
  qed
  show "nb_entries (snd (nodebit_observe_work n d s)) = nb_entries s" "nb_ready (snd (nodebit_observe_work n d s)) = nb_ready s"
    by (simp_all add: nodebit_observe_work_def split: option.split)
qed

lemma register_ok:
  assumes "nodebit_ok s"
  shows "nodebit_ok (snd (nodebit_register n l c g s))"
proof (cases "\<exists>src i. l = Some src \<and> nb_ready s \<and> caps_mask_valid c \<and> find_entry_locked n s = None \<and> find_free_slot_locked s = Some i")
  case True
  then obtain src i where i: "l = Some src" "nb_ready s" "caps_mask_valid c" "find_entry_locked n s = None"
    "find_free_slot_locked s = Some i" by blast
  have fresh: "\<forall>j < 64. ne_active (nb_entries s ! j) \<longrightarrow> ne_node_id (nb_entries s ! j) \<noteq> n"
    using i(4) by (simp add: find_entry_None)
  have "nodebit_ok (s\<lparr>nb_stats := (nb_stats s)[i := zero_node_stats\<lparr>ns_node_id := n\<rparr>]\<rparr>)"
    using free_slot [OF i(5)] by (intro stats_update [OF assms]) (simp_all add: zero_node_stats_def)
  then show ?thesis
    using free_slot [OF i(5)] fresh i
    by (auto simp: nodebit_register_def nodebit_ok_def nth_list_update)
next
  case False
  then have "snd (nodebit_register n l c g s) = s"
    by (auto simp: nodebit_register_def split: option.splits)
  then show ?thesis using assms by simp
qed

lemma update_ok:
  assumes "nodebit_ok s"
  shows "nodebit_ok (snd (nodebit_update_caps n c s))"
proof (cases "find_entry_locked n s")
  case (Some i)
  let ?es = "(nb_entries s)[i := (nb_entries s ! i)\<lparr>ne_caps_allowed := c\<rparr>]"
  have "i < length (nb_entries s)" using Some find_entry_Some [OF assms] nodebit_okD(1) [OF assms] by simp
  then have "ne_active (?es ! j) = ne_active (nb_entries s ! j) \<and> ne_node_id (?es ! j) = ne_node_id (nb_entries s ! j)" for j
    by (cases "j = i") simp_all
  then have "nodebit_ok (s\<lparr>nb_entries := ?es\<rparr>)" using assms by (simp add: nodebit_ok_def)
  then show ?thesis using assms Some by (simp add: nodebit_update_caps_def)
qed (use assms in \<open>simp add: nodebit_update_caps_def\<close>)

lemma ready_kept [simp]:
  "nb_ready (snd (nodebit_register n l c g s)) = nb_ready s" "nb_ready (snd (nodebit_update_caps n c s)) = nb_ready s"
  by (simp_all add: nodebit_register_def nodebit_update_caps_def split: option.split)

lemma nodebit_run_ok: "nodebit_run s \<Longrightarrow> nodebit_ok s \<and> nb_ready s"
proof (induction rule: nodebit_run.induct)
  case (init s0 st s)
  then show ?case by (auto simp: nodebit_init_def nodebit_ok_def zero_entry_def zero_node_stats_def)
next
  case (register s n l c g)
  then show ?case using register_ok by simp
next
  case (update s n c)
  then show ?case using update_ok by simp
next
  case (evaluate s n c has_out h t0 t1)
  then show ?case using evaluate_ok(1,3) [of s] by simp
next
  case (observe s n d)
  then show ?case using observe_ok(1,3) [of s] by simp
qed

section \<open>The gate refines the policy\<close>

lemma word_bit_nonzero: "w \<noteq> 0 \<longleftrightarrow> (\<exists>k. bit (w :: u64) k)"
proof
  show "\<exists>k. bit w k" if "w \<noteq> 0"
  proof (rule ccontr)
    assume "\<not> ?thesis"
    then have "w = 0" by (intro bit_eqI) simp
    then show False using that by simp
  qed
qed auto

lemma risky_bits: "c AND NODEBIT_CAP_RISKY_MASK \<noteq> 0 \<longleftrightarrow> bit c 4 \<or> bit c 5 \<or> bit c 8 \<or> bit c 9"
proof -
  have mask: "NODEBIT_CAP_RISKY_MASK = 2 ^ 8 OR 2 ^ 9 OR 2 ^ 4 OR 2 ^ 5" by (simp add: NODEBIT_CAP_RISKY_MASK_def)
  have "c AND NODEBIT_CAP_RISKY_MASK \<noteq> 0 \<longleftrightarrow> (\<exists>k. bit (c AND NODEBIT_CAP_RISKY_MASK) k)"
    by (rule word_bit_nonzero)
  also have "bit NODEBIT_CAP_RISKY_MASK k \<longleftrightarrow> k = 4 \<or> k = 5 \<or> k = 8 \<or> k = 9" for k
    unfolding mask bit_or_iff bit_exp_iff by auto
  then have "(\<exists>k. bit (c AND NODEBIT_CAP_RISKY_MASK) k) \<longleftrightarrow> bit c 4 \<or> bit c 5 \<or> bit c 8 \<or> bit c 9"
    unfolding bit_and_iff by auto
  finally show ?thesis .
qed

lemma subset_bits: "c AND caps = c \<longleftrightarrow> (\<forall>k. bit c k \<longrightarrow> bit (caps :: u64) k)"
proof
  assume eq: "c AND caps = c"
  then have "bit c k \<longleftrightarrow> bit c k \<and> bit caps k" for k by (metis bit_and_iff)
  then show "\<forall>k. bit c k \<longrightarrow> bit caps k" by blast
next
  assume "\<forall>k. bit c k \<longrightarrow> bit caps k"
  then show "c AND caps = c" by (intro bit_eqI) (auto simp: bit_and_iff)
qed

lemma evaluate_permitted:
  assumes "nb_ready s" and "length h = 20"
  shows "permitted (nodebit_evaluate n c True h t0 t1 s) \<longleftrightarrow> policy_permits (nodebit_policy s) h n c"
  using assms(1) summary_meaning(3,4) [OF assms(2)]
  by (simp add: nodebit_evaluate_def permitted_def policy_permits_def nodebit_policy_def Let_def risky_bits
      subset_bits [symmetric] split: option.split) auto

lemma evaluate_decision:
  assumes "nb_ready s" and "length h = 20" and "nodebit_evaluate n c True h t0 t1 s = (st, out, s')"
  shows "st = (if nodebit_policy s n = None then AIOS_ERR_NODEV else AIOS_OK) \<and>
    (\<exists>d. out = Some d \<and> nd_node_id d = n \<and> nd_caps_requested d = c \<and>
       nd_action d = (if policy_permits (nodebit_policy s) h n c then NODEBIT_ACTION_PERMIT else NODEBIT_ACTION_DENY) \<and>
       nd_caps_granted d = (if policy_permits (nodebit_policy s) h n c then c else 0))"
  using assms(1,3) summary_meaning(3,4) [OF assms(2)]
  by (auto simp: nodebit_evaluate_def policy_permits_def nodebit_policy_def Let_def risky_bits
      subset_bits [symmetric] split: option.splits if_splits)

lemma free_slot_iff: "find_free_slot_locked s = None \<longleftrightarrow> (\<forall>i < 64. ne_active (nb_entries s ! i))"
  unfolding find_free_slot_locked_def find_None_iff by auto

lemma active_count:
  assumes "nodebit_ok s"
  shows "nodebit_active_count s = 64 \<longleftrightarrow> find_free_slot_locked s = None"
proof -
  have fold: "fold (\<lambda>e count. if ne_active e then count + 1 else count) es k = k + of_nat (length (filter ne_active es))"
    for es and k :: u32 by (induction es arbitrary: k) simp_all
  have le: "length (filter ne_active (nb_entries s)) \<le> 64"
    using length_filter_le [of ne_active "nb_entries s"] nodebit_okD(1) [OF assms] by simp
  then have "unat (nodebit_active_count s) = length (filter ne_active (nb_entries s))"
    unfolding nodebit_active_count_def fold by (simp add: unat_of_nat_small)
  then have "nodebit_active_count s = 64 \<longleftrightarrow> length (filter ne_active (nb_entries s)) = length (nb_entries s)"
    using nodebit_okD(1) [OF assms] unat_eqI [of "nodebit_active_count s" 64] by auto
  also have "\<dots> \<longleftrightarrow> (\<forall>e \<in> set (nb_entries s). ne_active e)"
    by (metis filter_True length_filter_less nat_neq_iff)
  finally show ?thesis using nodebit_okD(1) [OF assms] by (simp add: free_slot_iff all_set_conv_all_nth)
qed

lemma register_policy:
  assumes "nodebit_ok s" and "nb_ready s"
  shows "nodebit_policy (snd (nodebit_register n (Some l) c g s)) =
    (if caps_mask_valid c \<and> nodebit_policy s n = None \<and> nodebit_active_count s \<noteq> 64
     then (nodebit_policy s)(n \<mapsto> (c, g)) else nodebit_policy s)"
proof (cases "caps_mask_valid c \<and> find_entry_locked n s = None \<and> find_free_slot_locked s \<noteq> None")
  case True
  then obtain i where i: "find_free_slot_locked s = Some i" by blast
  let ?s = "snd (nodebit_register n (Some l) c g s)"
  have fresh: "\<forall>j < 64. ne_active (nb_entries s ! j) \<longrightarrow> ne_node_id (nb_entries s ! j) \<noteq> n"
    using True by (simp add: find_entry_None)
  have "\<exists>e. nb_entries ?s = (nb_entries s)[i := e] \<and> ne_active e \<and> ne_node_id e = n \<and> ne_caps_allowed e = c \<and> ne_health_gate e = g"
    using True i assms(2) free_slot(1) [OF i] nodebit_okD(1) [OF assms(1)]
    by (intro exI [of _ "nb_entries ?s ! i"]) (simp add: nodebit_register_def)
  then obtain e where e: "nb_entries ?s = (nb_entries s)[i := e]" "ne_active e" "ne_node_id e = n" "ne_caps_allowed e = c"
    "ne_health_gate e = g" by blast
  have "nodebit_policy ?s = (nodebit_policy s)(n \<mapsto> (c, g))"
  proof (rule policy_eqI)
    fix n' c' g'
    have "nodebit_policy ?s n' = Some (c', g') \<longleftrightarrow> (\<exists>j < 64. ne_active (nb_entries ?s ! j) \<and>
        ne_node_id (nb_entries ?s ! j) = n' \<and> ne_caps_allowed (nb_entries ?s ! j) = c' \<and> ne_health_gate (nb_entries ?s ! j) = g')"
      by (rule policy_Some [OF register_ok [OF assms(1)]])
    also have "\<dots> \<longleftrightarrow> ((nodebit_policy s)(n \<mapsto> (c, g))) n' = Some (c', g')"
      using free_slot [OF i] fresh nodebit_okD(1) [OF assms(1)] unfolding e(1)
      by (auto simp: nth_list_update e policy_Some [OF assms(1)])
    finally show "nodebit_policy ?s n' = Some (c', g') \<longleftrightarrow> ((nodebit_policy s)(n \<mapsto> (c, g))) n' = Some (c', g')" .
  qed
  then show ?thesis using True active_count [OF assms(1)] by (simp add: nodebit_policy_def)
next
  case False
  then have "snd (nodebit_register n (Some l) c g s) = s" using assms(2) by (auto simp: nodebit_register_def)
  then show ?thesis using False active_count [OF assms(1)] by (auto simp: nodebit_policy_def)
qed

lemma update_policy_map:
  assumes "nodebit_ok s" and "nb_ready s" and "caps_mask_valid c" and "find_entry_locked n s = Some i"
  shows "nodebit_policy (snd (nodebit_update_caps n c s)) = (nodebit_policy s)(n \<mapsto> (c, ne_health_gate (nb_entries s ! i)))"
    (is "nodebit_policy ?s = _")
proof (rule policy_eqI)
  fix n' c' g'
  let ?g = "ne_health_gate (nb_entries s ! i)"
  have i64: "i < 64" "ne_active (nb_entries s ! i)" "ne_node_id (nb_entries s ! i) = n"
    using assms(4) find_entry_Some [OF assms(1)] by simp_all
  have e: "nb_entries ?s = (nb_entries s)[i := (nb_entries s ! i)\<lparr>ne_caps_allowed := c\<rparr>]"
    using assms by (simp add: nodebit_update_caps_def)
  have len: "i < length (nb_entries s)" using i64(1) nodebit_okD(1) [OF assms(1)] by simp
  have fields: "ne_active (nb_entries ?s ! j) = ne_active (nb_entries s ! j)" "ne_node_id (nb_entries ?s ! j) = ne_node_id (nb_entries s ! j)"
    "ne_health_gate (nb_entries ?s ! j) = ne_health_gate (nb_entries s ! j)"
    "ne_caps_allowed (nb_entries ?s ! j) = (if j = i then c else ne_caps_allowed (nb_entries s ! j))" for j
    using len by (simp_all add: e nth_list_update)
  let ?P = "\<lambda>j. j < 64 \<and> ne_active (nb_entries s ! j) \<and> ne_node_id (nb_entries s ! j) = n' \<and>
      (if j = i then c else ne_caps_allowed (nb_entries s ! j)) = c' \<and> ne_health_gate (nb_entries s ! j) = g'"
  have new: "nodebit_policy ?s n' = Some (c', g') \<longleftrightarrow> (\<exists>j. ?P j)"
    by (rule policy_Some [OF update_ok [OF assms(1)], of n c n' c' g', unfolded fields])
  have old: "nodebit_policy s n' = Some (c', g') \<longleftrightarrow> (\<exists>j. ?P j)" if "n' \<noteq> n"
  proof -
    have "(j < 64 \<and> ne_active (nb_entries s ! j) \<and> ne_node_id (nb_entries s ! j) = n' \<and>
        ne_caps_allowed (nb_entries s ! j) = c' \<and> ne_health_gate (nb_entries s ! j) = g') = ?P j" for j
      using that i64(3) by (cases "j = i") simp_all
    then show ?thesis by (simp only: policy_Some [OF assms(1)])
  qed
  have same: "(\<exists>j. ?P j) \<longleftrightarrow> c = c' \<and> ?g = g'" if "n' = n"
  proof
    assume "\<exists>j. ?P j"
    then obtain j where "?P j" ..
    moreover from this have "j = i" using that i64 nodebit_okD(3) [OF assms(1), of j i] by simp
    ultimately show "c = c' \<and> ?g = g'" by simp
  next
    assume "c = c' \<and> ?g = g'"
    then show "\<exists>j. ?P j" using that i64 by (intro exI [of _ i]) simp
  qed
  show "nodebit_policy ?s n' = Some (c', g') \<longleftrightarrow> ((nodebit_policy s)(n \<mapsto> (c, ?g))) n' = Some (c', g')"
    unfolding new using old same by (cases "n' = n") simp_all
qed

lemma update_policy:
  assumes "nodebit_ok s" and "nb_ready s"
  shows "nodebit_policy (snd (nodebit_update_caps n c s)) =
    (case nodebit_policy s n of
       None \<Rightarrow> nodebit_policy s
     | Some (old, g) \<Rightarrow> if caps_mask_valid c then (nodebit_policy s)(n \<mapsto> (c, g)) else nodebit_policy s)"
proof (cases "caps_mask_valid c \<and> find_entry_locked n s \<noteq> None")
  case True
  then obtain i where i: "find_entry_locked n s = Some i" by blast
  then have "nodebit_policy s n = Some (ne_caps_allowed (nb_entries s ! i), ne_health_gate (nb_entries s ! i))"
    by (simp add: nodebit_policy_def)
  then show ?thesis using update_policy_map [OF assms _ i] True by simp
next
  case False
  then have "snd (nodebit_update_caps n c s) = s" using assms(2) by (auto simp: nodebit_update_caps_def split: option.split)
  moreover have "nodebit_policy s n = None" if "caps_mask_valid c" using False that by (simp add: nodebit_policy_def)
  ultimately show ?thesis by (simp split: option.split)
qed

lemma evaluate_policy:
  "nodebit_ok s \<Longrightarrow> nodebit_policy (snd (snd (nodebit_evaluate n c has_out h t0 t1 s))) = nodebit_policy s"
  by (intro policy_entries evaluate_ok(2))

interpretation nodebit_gate: policy_gate "\<lambda>n c. nodebit_evaluate n c True" "\<lambda>s. nodebit_ok s \<and> nb_ready s" nodebit_policy
  by unfold_locales (simp_all add: evaluate_permitted evaluate_policy evaluate_ok(1,3))

text \<open>
  C37: The capability table implements a policy map.  In every state of the gate, registering a node
  adds its capabilities and health gate to the map when the node is new, the mask is valid and a slot is free, and
  changes nothing otherwise; updating replaces the capabilities of a registered node; requests and
  work reports leave the map alone.  A request is permitted exactly when the map permits
  it: the node is registered, every requested capability is in its set, and a health-gated node that asks for a
  risky capability finds no subsystem of the kernel failed or degraded.  A permit grants exactly the
  requested set and a denial grants nothing, and earlier requests do not change the answer.
\<close>

theorem nodebit_refines_policy:
  assumes "nodebit_run s" and "length h = 20"
  defines "asked \<equiv> fold (\<lambda>(n, c, h, t0, t1) s. snd (snd (nodebit_evaluate n c True h t0 t1 s)))"
  shows "nodebit_policy (snd (nodebit_register n (Some l) c g s)) =
      (if caps_mask_valid c \<and> nodebit_policy s n = None \<and> nodebit_active_count s \<noteq> 64
       then (nodebit_policy s)(n \<mapsto> (c, g)) else nodebit_policy s) \<and>
    nodebit_policy (snd (nodebit_update_caps n c s)) =
      (case nodebit_policy s n of
         None \<Rightarrow> nodebit_policy s
       | Some (old, g) \<Rightarrow> if caps_mask_valid c then (nodebit_policy s)(n \<mapsto> (c, g)) else nodebit_policy s) \<and>
    nodebit_policy (snd (nodebit_observe_work n dur s)) = nodebit_policy s \<and>
    (case nodebit_evaluate n c True h t0 t1 (asked rs s) of (st, out, s') \<Rightarrow>
      nodebit_policy s' = nodebit_policy s \<and>
      st = (if nodebit_policy s n = None then AIOS_ERR_NODEV else AIOS_OK) \<and>
      (\<exists>d. out = Some d \<and>
         nd_action d = (if policy_permits (nodebit_policy s) h n c then NODEBIT_ACTION_PERMIT else NODEBIT_ACTION_DENY) \<and>
         nd_caps_granted d = (if policy_permits (nodebit_policy s) h n c then c else 0)))"
proof -
  have ok: "nodebit_ok s" "nb_ready s" using nodebit_run_ok [OF assms(1)] by simp_all
  have ask: "nodebit_ok (asked rs s)" "nb_ready (asked rs s)" "nodebit_policy (asked rs s) = nodebit_policy s"
    using nodebit_gate.requests_keep [of s rs] ok by (simp_all add: asked_def)
  obtain st out s' where ev: "nodebit_evaluate n c True h t0 t1 (asked rs s) = (st, out, s')" by (rule prod_cases3)
  then have "nodebit_policy s' = nodebit_policy s" using evaluate_policy [OF ask(1), of n c True h t0 t1] ask(3) by simp
  moreover note evaluate_decision [OF ask(2) assms(2) ev, unfolded ask(3)]
  moreover have "nodebit_policy (snd (nodebit_observe_work n dur s)) = nodebit_policy s"
    by (intro policy_entries observe_ok(2) ok(1))
  ultimately show ?thesis using register_policy [OF ok] update_policy [OF ok] ev by auto
qed

lemma demo_gate_run: "nodebit_run demo_gate"
  unfolding demo_gate_def by (intro nodebit_run.register nodebit_run.init [of nodebit_boot AIOS_OK]) (simp add: nodebit_init_def)

lemma demo_gate_policy: "nodebit_policy demo_gate 7 = Some (0x101, True)"
  by code_simp

theorem nodebit_refines_policy_witness:
  "\<exists>st d s'. nodebit_evaluate 7 0x100 True demo_health 10 12 demo_gate = (st, Some d, s') \<and> nd_action d = NODEBIT_ACTION_DENY \<and>
     (\<exists>st2 d2 s2. nodebit_evaluate 7 0x100 True g_health 10 12 demo_gate = (st2, Some d2, s2) \<and>
        nd_action d2 = NODEBIT_ACTION_PERMIT \<and> nd_caps_granted d2 = 0x100)"
proof -
  have len: "length demo_health = 20" by (simp add: demo_health_def)
  have bits: "bit (0x101 :: u64) k" if "bit (0x100 :: u64) k" for k
  proof -
    have "(0x101 :: u64) = 0x100 OR 1" by simp
    then show ?thesis using that by (simp only: bit_or_iff simp_thms)
  qed
  have deny: "\<not> policy_permits (nodebit_policy demo_gate) demo_health 7 0x100"
  proof -
    have "\<not> all_sound demo_health" by code_simp
    moreover have "bit (0x100 :: u64) 8" by simp
    ultimately show ?thesis by (simp only: policy_permits_def demo_gate_policy) auto
  qed
  have "all_sound g_health" by code_simp
  then have permit: "policy_permits (nodebit_policy demo_gate) g_health 7 0x100"
    using bits by (auto simp only: policy_permits_def demo_gate_policy)
  have answer: "\<exists>st d s'. nodebit_evaluate 7 0x100 True h 10 12 demo_gate = (st, Some d, s') \<and>
      nd_action d = (if policy_permits (nodebit_policy demo_gate) h 7 0x100 then NODEBIT_ACTION_PERMIT else NODEBIT_ACTION_DENY) \<and>
      nd_caps_granted d = (if policy_permits (nodebit_policy demo_gate) h 7 0x100 then 0x100 else 0)" if "length h = 20" for h
  proof -
    obtain st out s' where ev: "nodebit_evaluate 7 0x100 True h 10 12 demo_gate = (st, out, s')" by (rule prod_cases3)
    have "\<exists>d. out = Some d \<and>
        nd_action d = (if policy_permits (nodebit_policy demo_gate) h 7 0x100 then NODEBIT_ACTION_PERMIT else NODEBIT_ACTION_DENY) \<and>
        nd_caps_granted d = (if policy_permits (nodebit_policy demo_gate) h 7 0x100 then 0x100 else 0)"
      using nodebit_refines_policy [OF demo_gate_run that, where n = 7 and c = "0x100" and ?t0.0 = 10 and ?t1.0 = 12 and rs = "[]"]
      by (simp only: fold.simps id_apply ev prod.case)
    then show ?thesis using ev by blast
  qed
  show ?thesis using answer [OF len] answer [of g_health] deny permit by (simp only: kernel_health_size simp_thms if_True if_False) blast
qed

end
