(* ===== verification/Node_Pipeline.thy ===== *)
theory Node_Pipeline
  imports Nodebit_Correct
begin

text \<open>
  The pipelines of \<^verbatim>\<open>kernel/runtime/node_pipeline.c\<close>: chains of stages owned by a node and controlled
  through the capability gate.  The state of a call is the registry of pipelines and the gate.  The
  number of accelerators is what \<^verbatim>\<open>accel_get_count\<close> returns; \<open>clk j\<close> is reading \<open>j\<close> of the clock during the
  call.  Each call is one atomic step.
\<close>

section \<open>Data\<close>

abbreviation NODE_PIPELINE_MAX :: nat where "NODE_PIPELINE_MAX \<equiv> 16"
abbreviation NODE_PIPELINE_MAX_STAGES :: u32 where "NODE_PIPELINE_MAX_STAGES \<equiv> 8"
abbreviation NODE_PIPELINE_LABEL_MAX :: nat where "NODE_PIPELINE_LABEL_MAX \<equiv> 32"

record pipeline_stage =
  st_model_id :: u32
  st_input_tensor :: u32
  st_output_tensor :: u32
  st_accel_id :: u32

datatype node_pipeline_state = NODE_PIPELINE_STATE_FREE | NODE_PIPELINE_STATE_OPEN | NODE_PIPELINE_STATE_READY

record node_pipeline =
  np_pipeline_id :: u32
  np_owner_node :: u16
  np_state :: node_pipeline_state
  np_label :: "u8 list"
  np_stage_count :: u32
  np_stages :: "pipeline_stage list"
  np_executions :: u64
  np_last_status :: aios_status
  np_last_exec_ns :: u64
  np_created_ts_ns :: u64

record node_pipeline_exec_result =
  xr_executed_stages :: u32
  xr_duration_ns :: u64
  xr_status :: aios_status

record node_pipeline_snapshot =
  sn_active_count :: u32
  sn_max_pipelines :: u32
  sn_total_executions :: u64
  sn_total_stage_runs :: u64
  sn_denied_count :: u32
  sn_last_status :: aios_status

record pipelines =
  pl_slots :: "node_pipeline list"
  pl_ready :: bool
  pl_next_id :: u32
  pl_total_executions :: u64
  pl_total_stage_runs :: u64
  pl_denied_count :: u32
  pl_last_status :: aios_status

definition zero_stage :: pipeline_stage where
  "zero_stage = \<lparr>st_model_id = 0, st_input_tensor = 0, st_output_tensor = 0, st_accel_id = 0\<rparr>"

definition zero_pipeline :: node_pipeline where
  "zero_pipeline =
     \<lparr>np_pipeline_id = 0, np_owner_node = 0, np_state = NODE_PIPELINE_STATE_FREE, np_label = replicate NODE_PIPELINE_LABEL_MAX 0,
      np_stage_count = 0, np_stages = replicate 8 zero_stage, np_executions = 0, np_last_status = AIOS_OK,
      np_last_exec_ns = 0, np_created_ts_ns = 0\<rparr>"

definition pipelines_boot :: pipelines where
  "pipelines_boot =
     \<lparr>pl_slots = replicate NODE_PIPELINE_MAX zero_pipeline, pl_ready = False, pl_next_id = 1, pl_total_executions = 0,
      pl_total_stage_runs = 0, pl_denied_count = 0, pl_last_status = AIOS_OK\<rparr>"

section \<open>Helpers\<close>

definition find_pipeline_locked :: "u32 \<Rightarrow> pipelines \<Rightarrow> nat option" where
  "find_pipeline_locked pipeline_id p =
     (if pipeline_id = 0 then None
      else find (\<lambda>i. np_state (pl_slots p ! i) \<noteq> NODE_PIPELINE_STATE_FREE \<and> np_pipeline_id (pl_slots p ! i) = pipeline_id)
        [0..<NODE_PIPELINE_MAX])"

definition find_free_pipeline_locked :: "pipelines \<Rightarrow> nat option" where
  "find_free_pipeline_locked p = find (\<lambda>i. np_state (pl_slots p ! i) = NODE_PIPELINE_STATE_FREE) [0..<NODE_PIPELINE_MAX]"

text \<open>This file has its own copy of \<^verbatim>\<open>copy_label\<close>, with the same bound of 32 bytes.\<close>

function copy_pipeline_label_from :: "u8 list \<Rightarrow> (nat \<Rightarrow> u8) \<Rightarrow> nat \<Rightarrow> u8 list" where
  "copy_pipeline_label_from dst src i =
     (if i + 1 < NODE_PIPELINE_LABEL_MAX \<and> src i \<noteq> 0 then copy_pipeline_label_from (dst[i := src i]) src (i + 1) else dst[i := 0])"
  by pat_completeness auto

termination copy_pipeline_label_from
  by (relation "measure (\<lambda>(dst, src, i). NODE_PIPELINE_LABEL_MAX - i)") auto

declare copy_pipeline_label_from.simps [simp del]

definition deny_pipeline :: "pipelines \<Rightarrow> pipelines" where
  "deny_pipeline p = p\<lparr>pl_denied_count := pl_denied_count p + 1\<rparr>"

definition gate_check :: "u16 \<Rightarrow> health \<Rightarrow> (nat \<Rightarrow> u64) \<Rightarrow> pipelines \<Rightarrow> nodebit \<Rightarrow> aios_status \<times> pipelines \<times> nodebit" where
  "gate_check node_id h clk p nb =
     (case nodebit_evaluate node_id NODEBIT_CAP_PIPELINE True h (clk 0) (clk 1) nb of
        (status, decision, nb1) \<Rightarrow>
          if status \<noteq> AIOS_OK \<or> map_option nd_action decision \<noteq> Some NODEBIT_ACTION_PERMIT
          then (AIOS_ERR_PERM, deny_pipeline p, nb1) else (AIOS_OK, p, nb1))"

definition stage_valid :: "u32 \<Rightarrow> pipeline_stage \<Rightarrow> bool" where
  "stage_valid accels stage \<longleftrightarrow> st_accel_id stage < accels"

definition set_pipeline :: "nat \<Rightarrow> node_pipeline \<Rightarrow> pipelines \<Rightarrow> pipelines" where
  "set_pipeline i x p = p\<lparr>pl_slots := (pl_slots p)[i := x]\<rparr>"

section \<open>Operations\<close>

definition node_pipeline_init :: "pipelines \<Rightarrow> aios_status \<times> pipelines" where
  "node_pipeline_init p =
     (AIOS_OK, p\<lparr>pl_slots := replicate NODE_PIPELINE_MAX zero_pipeline, pl_next_id := 1, pl_total_executions := 0,
                 pl_total_stage_runs := 0, pl_denied_count := 0, pl_last_status := AIOS_OK, pl_ready := True\<rparr>)"

definition node_pipeline_create ::
  "u16 \<Rightarrow> (nat \<Rightarrow> u8) option \<Rightarrow> bool \<Rightarrow> health \<Rightarrow> (nat \<Rightarrow> u64) \<Rightarrow> pipelines \<Rightarrow> nodebit \<Rightarrow>
   aios_status \<times> u32 option \<times> pipelines \<times> nodebit" where
  "node_pipeline_create node_id label has_out h clk p nb =
     (case label of
        None \<Rightarrow> (AIOS_ERR_INVAL, None, p, nb)
      | Some src \<Rightarrow>
          if \<not> pl_ready p \<or> \<not> has_out then (AIOS_ERR_INVAL, None, p, nb)
          else case gate_check node_id h clk p nb of
            (status, p1, nb1) \<Rightarrow>
              if status \<noteq> AIOS_OK then (status, None, p1, nb1)
              else case find_free_pipeline_locked p1 of
                None \<Rightarrow> (AIOS_ERR_NOMEM, None, p1, nb1)
              | Some i \<Rightarrow>
                  let new_id = pl_next_id p1;
                      slot = zero_pipeline\<lparr>np_pipeline_id := new_id, np_owner_node := node_id, np_state := NODE_PIPELINE_STATE_OPEN,
                        np_created_ts_ns := clk 2, np_last_status := AIOS_OK,
                        np_label := copy_pipeline_label_from (np_label zero_pipeline) src 0\<rparr>
                  in (AIOS_OK, Some new_id, (set_pipeline i slot p1)\<lparr>pl_next_id := new_id + 1\<rparr>, nb1))"

definition node_pipeline_add_stage ::
  "u16 \<Rightarrow> u32 \<Rightarrow> pipeline_stage option \<Rightarrow> u32 \<Rightarrow> health \<Rightarrow> (nat \<Rightarrow> u64) \<Rightarrow> pipelines \<Rightarrow> nodebit \<Rightarrow>
   aios_status \<times> pipelines \<times> nodebit" where
  "node_pipeline_add_stage node_id pipeline_id stage accels h clk p nb =
     (case stage of
        None \<Rightarrow> (AIOS_ERR_INVAL, p, nb)
      | Some sg \<Rightarrow>
          if \<not> pl_ready p then (AIOS_ERR_INVAL, p, nb)
          else if \<not> stage_valid accels sg then (AIOS_ERR_ACCEL, p, nb)
          else case gate_check node_id h clk p nb of
            (status, p1, nb1) \<Rightarrow>
              if status \<noteq> AIOS_OK then (status, p1, nb1)
              else case find_pipeline_locked pipeline_id p1 of
                None \<Rightarrow> (AIOS_ERR_NODEV, p1, nb1)
              | Some i \<Rightarrow>
                  let x = pl_slots p1 ! i
                  in if np_owner_node x \<noteq> node_id then (AIOS_ERR_PERM, deny_pipeline p1, nb1)
                     else if np_stage_count x \<ge> NODE_PIPELINE_MAX_STAGES then (AIOS_ERR_NOMEM, p1, nb1)
                     else (AIOS_OK,
                       set_pipeline i (x\<lparr>np_stages := (np_stages x)[unat (np_stage_count x) := sg],
                         np_stage_count := np_stage_count x + 1, np_state := NODE_PIPELINE_STATE_READY\<rparr>) p1, nb1))"

text \<open>The walk over the stages stops at the first one without an accelerator.\<close>

definition executed_stages :: "u32 \<Rightarrow> pipeline_stage list \<Rightarrow> u32" where
  "executed_stages accels stages = of_nat (length (takeWhile (stage_valid accels) stages))"

definition node_pipeline_execute ::
  "u16 \<Rightarrow> u32 \<Rightarrow> bool \<Rightarrow> u32 \<Rightarrow> health \<Rightarrow> (nat \<Rightarrow> u64) \<Rightarrow> pipelines \<Rightarrow> nodebit \<Rightarrow>
   aios_status \<times> node_pipeline_exec_result option \<times> pipelines \<times> nodebit" where
  "node_pipeline_execute node_id pipeline_id has_result accels h clk p nb =
     (if \<not> pl_ready p then (AIOS_ERR_INVAL, None, p, nb)
      else case gate_check node_id h clk p nb of
        (status, p1, nb1) \<Rightarrow>
          if status \<noteq> AIOS_OK then (status, None, p1, nb1)
          else case find_pipeline_locked pipeline_id p1 of
            None \<Rightarrow> (AIOS_ERR_NODEV, None, p1, nb1)
          | Some i \<Rightarrow>
              let x = pl_slots p1 ! i
              in if np_owner_node x \<noteq> node_id then (AIOS_ERR_PERM, None, deny_pipeline p1, nb1)
                 else if np_state x \<noteq> NODE_PIPELINE_STATE_READY \<or> np_stage_count x = 0 then (AIOS_ERR_BUSY, None, p1, nb1)
                 else
                   let stage_count = np_stage_count x;
                       executed = executed_stages accels (take (unat stage_count) (np_stages x));
                       duration_ns = clk 3 - clk 2;
                       result = (\<lambda>n st. if has_result then Some \<lparr>xr_executed_stages = n, xr_duration_ns = duration_ns, xr_status = st\<rparr> else None)
                   in if executed \<noteq> stage_count then
                        let p2 = (case find_pipeline_locked pipeline_id p1 of
                                    None \<Rightarrow> p1
                                  | Some j \<Rightarrow> set_pipeline j ((pl_slots p1 ! j)\<lparr>np_last_status := AIOS_ERR_ACCEL\<rparr>) p1)
                        in (AIOS_ERR_ACCEL, result executed AIOS_ERR_ACCEL, p2\<lparr>pl_last_status := AIOS_ERR_ACCEL\<rparr>, nb1)
                      else
                        let p2 = (case find_pipeline_locked pipeline_id p1 of
                                    None \<Rightarrow> p1
                                  | Some j \<Rightarrow> set_pipeline j ((pl_slots p1 ! j)\<lparr>np_executions := np_executions (pl_slots p1 ! j) + 1,
                                      np_last_status := AIOS_OK, np_last_exec_ns := duration_ns\<rparr>) p1);
                            p3 = p2\<lparr>pl_total_executions := pl_total_executions p2 + 1,
                                    pl_total_stage_runs := pl_total_stage_runs p2 + ucast stage_count, pl_last_status := AIOS_OK\<rparr>
                        in (AIOS_OK, result stage_count AIOS_OK, p3, snd (nodebit_observe_work node_id duration_ns nb1)))"

definition node_pipeline_destroy ::
  "u16 \<Rightarrow> u32 \<Rightarrow> health \<Rightarrow> (nat \<Rightarrow> u64) \<Rightarrow> pipelines \<Rightarrow> nodebit \<Rightarrow> aios_status \<times> pipelines \<times> nodebit" where
  "node_pipeline_destroy node_id pipeline_id h clk p nb =
     (if \<not> pl_ready p then (AIOS_ERR_INVAL, p, nb)
      else case gate_check node_id h clk p nb of
        (status, p1, nb1) \<Rightarrow>
          if status \<noteq> AIOS_OK then (status, p1, nb1)
          else case find_pipeline_locked pipeline_id p1 of
            None \<Rightarrow> (AIOS_ERR_NODEV, p1, nb1)
          | Some i \<Rightarrow>
              if np_owner_node (pl_slots p1 ! i) \<noteq> node_id then (AIOS_ERR_PERM, deny_pipeline p1, nb1)
              else (AIOS_OK, set_pipeline i zero_pipeline p1, nb1))"

definition node_pipeline_get :: "u32 \<Rightarrow> bool \<Rightarrow> pipelines \<Rightarrow> aios_status \<times> node_pipeline option" where
  "node_pipeline_get pipeline_id has_out p =
     (if \<not> pl_ready p \<or> \<not> has_out then (AIOS_ERR_INVAL, None)
      else case find_pipeline_locked pipeline_id p of
        None \<Rightarrow> (AIOS_ERR_NODEV, None)
      | Some i \<Rightarrow> (AIOS_OK, Some (pl_slots p ! i)))"

definition node_pipeline_get_snapshot :: "bool \<Rightarrow> pipelines \<Rightarrow> node_pipeline_snapshot option" where
  "node_pipeline_get_snapshot has_out p =
     (if \<not> has_out then None
      else Some \<lparr>sn_active_count = fold (\<lambda>x active. if np_state x \<noteq> NODE_PIPELINE_STATE_FREE then active + 1 else active) (pl_slots p) 0,
                 sn_max_pipelines = of_nat NODE_PIPELINE_MAX, sn_total_executions = pl_total_executions p,
                 sn_total_stage_runs = pl_total_stage_runs p, sn_denied_count = pl_denied_count p,
                 sn_last_status = pl_last_status p\<rparr>)"

end
