(* ===== verification/Pipeline_Correct.thy ===== *)
theory Pipeline_Correct
  imports Node_Pipeline
begin

text \<open>
  Correctness of the pipelines: every change of a pipeline is one the policy and the ownership allow, and
  the registry stays well-formed along every sequence of calls and policy changes.
\<close>

section \<open>Definitions\<close>

text \<open>The calls, with the node that makes them.\<close>

datatype pipe_call =
    Pipe_Create u16 "(nat \<Rightarrow> u8) option" bool
  | Pipe_Add_Stage u16 u32 "pipeline_stage option"
  | Pipe_Execute u16 u32 bool
  | Pipe_Destroy u16 u32

primrec pipe_caller :: "pipe_call \<Rightarrow> u16" where
  "pipe_caller (Pipe_Create n label has_out) = n"
| "pipe_caller (Pipe_Add_Stage n pid stage) = n"
| "pipe_caller (Pipe_Execute n pid has_result) = n"
| "pipe_caller (Pipe_Destroy n pid) = n"

primrec pipe_step ::
  "pipe_call \<Rightarrow> u32 \<Rightarrow> health \<Rightarrow> (nat \<Rightarrow> u64) \<Rightarrow> pipelines \<Rightarrow> nodebit \<Rightarrow> aios_status \<times> pipelines \<times> nodebit" where
  "pipe_step (Pipe_Create n label has_out) accels h clk p nb =
     (case node_pipeline_create n label has_out h clk p nb of (st, out, p', nb') \<Rightarrow> (st, p', nb'))"
| "pipe_step (Pipe_Add_Stage n pid stage) accels h clk p nb = node_pipeline_add_stage n pid stage accels h clk p nb"
| "pipe_step (Pipe_Execute n pid has_result) accels h clk p nb =
     (case node_pipeline_execute n pid has_result accels h clk p nb of (st, out, p', nb') \<Rightarrow> (st, p', nb'))"
| "pipe_step (Pipe_Destroy n pid) accels h clk p nb = node_pipeline_destroy n pid h clk p nb"

text \<open>
  The states reached with \<open>k\<close> pipelines created so far: pipeline calls interleaved with changes of the policy.
\<close>

inductive pipe_run :: "nat \<Rightarrow> pipelines \<Rightarrow> nodebit \<Rightarrow> bool" where
  init: "nodebit_run nb \<Longrightarrow> node_pipeline_init p0 = (st, p) \<Longrightarrow> pipe_run 0 p nb"
| call: "pipe_run k p nb \<Longrightarrow> length h = 20 \<Longrightarrow> pipe_step c accels h clk p nb = (st, p', nb') \<Longrightarrow>
    k' = (if (\<exists>n label has_out. c = Pipe_Create n label has_out) \<and> st = AIOS_OK then Suc k else k) \<Longrightarrow> pipe_run k' p' nb'"
| register: "pipe_run k p nb \<Longrightarrow> pipe_run k p (snd (nodebit_register n l caps g nb))"
| update: "pipe_run k p nb \<Longrightarrow> pipe_run k p (snd (nodebit_update_caps n caps nb))"

text \<open>A slot in good order: free slots are zeroed, a pipeline is ready exactly when it has stages.\<close>

definition slot_ok :: "node_pipeline \<Rightarrow> bool" where
  "slot_ok x \<longleftrightarrow> length (np_stages x) = 8 \<and> np_stage_count x \<le> NODE_PIPELINE_MAX_STAGES \<and>
     (case np_state x of
        NODE_PIPELINE_STATE_FREE \<Rightarrow> x = zero_pipeline
      | NODE_PIPELINE_STATE_OPEN \<Rightarrow> np_stage_count x = 0
      | NODE_PIPELINE_STATE_READY \<Rightarrow> np_stage_count x > 0)"

definition live :: "node_pipeline \<Rightarrow> bool" where
  "live x \<longleftrightarrow> np_state x \<noteq> NODE_PIPELINE_STATE_FREE"

definition pipes_ok :: "nat \<Rightarrow> pipelines \<Rightarrow> bool" where
  "pipes_ok k p \<longleftrightarrow>
     length (pl_slots p) = NODE_PIPELINE_MAX \<and> pl_ready p \<and> pl_next_id p = of_nat (Suc k) \<and>
     (\<forall>x \<in> set (pl_slots p). slot_ok x) \<and>
     (Suc k < 2 ^ 32 \<longrightarrow>
       (\<forall>i < NODE_PIPELINE_MAX. live (pl_slots p ! i) \<longrightarrow>
          0 < unat (np_pipeline_id (pl_slots p ! i)) \<and> unat (np_pipeline_id (pl_slots p ! i)) \<le> k) \<and>
       (\<forall>i < NODE_PIPELINE_MAX. \<forall>j < NODE_PIPELINE_MAX. live (pl_slots p ! i) \<longrightarrow> live (pl_slots p ! j) \<longrightarrow>
          np_pipeline_id (pl_slots p ! i) = np_pipeline_id (pl_slots p ! j) \<longrightarrow> i = j))"

text \<open>What a call may do to one slot.\<close>

inductive slot_change :: "u16 \<Rightarrow> u32 \<Rightarrow> node_pipeline \<Rightarrow> node_pipeline \<Rightarrow> bool" where
  created: "\<not> live x \<Longrightarrow> y = zero_pipeline\<lparr>np_pipeline_id := new_id, np_owner_node := n, np_state := NODE_PIPELINE_STATE_OPEN,
      np_created_ts_ns := t, np_last_status := AIOS_OK, np_label := l\<rparr> \<Longrightarrow> slot_change n new_id x y"
| staged: "live x \<Longrightarrow> np_owner_node x = n \<Longrightarrow> np_stage_count x < NODE_PIPELINE_MAX_STAGES \<Longrightarrow>
    y = x\<lparr>np_stages := (np_stages x)[unat (np_stage_count x) := sg], np_stage_count := np_stage_count x + 1,
      np_state := NODE_PIPELINE_STATE_READY\<rparr> \<Longrightarrow> slot_change n new_id x y"
| executed: "live x \<Longrightarrow> np_owner_node x = n \<Longrightarrow> np_state x = NODE_PIPELINE_STATE_READY \<Longrightarrow>
    y = x\<lparr>np_executions := e, np_last_status := st, np_last_exec_ns := d\<rparr> \<Longrightarrow> slot_change n new_id x y"
| destroyed: "live x \<Longrightarrow> np_owner_node x = n \<Longrightarrow> y = zero_pipeline \<Longrightarrow> slot_change n new_id x y"

text \<open>Either no slot changes, or one does in one of the four ways and the policy permits the caller.\<close>

definition pipe_effect :: "u16 \<Rightarrow> bool \<Rightarrow> bool \<Rightarrow> pipelines \<Rightarrow> pipelines \<Rightarrow> bool" where
  "pipe_effect n permit fresh p p' \<longleftrightarrow>
     pl_ready p' = pl_ready p \<and> pl_next_id p' = (if fresh then pl_next_id p + 1 else pl_next_id p) \<and>
     (\<not> fresh \<and> pl_slots p' = pl_slots p \<or>
      permit \<and> (\<exists>i < 16. \<exists>y. slot_change n (pl_next_id p) (pl_slots p ! i) y \<and> pl_slots p' = (pl_slots p)[i := y] \<and>
        (fresh \<longleftrightarrow> \<not> live (pl_slots p ! i))))"

definition demo_clk :: "nat \<Rightarrow> u64" where
  "demo_clk j = of_nat (100 + j)"

definition demo_pipe_gate :: nodebit where
  "demo_pipe_gate = snd (nodebit_register 40 (Some (\<lambda>_. 0)) 0x801 False (snd (nodebit_init nodebit_boot)))"

definition demo_registry :: pipelines where
  "demo_registry = snd (node_pipeline_init pipelines_boot)"

definition demo_created :: "aios_status \<times> pipelines \<times> nodebit" where
  "demo_created = pipe_step (Pipe_Create 40 (Some (\<lambda>_. 0)) True) 1 g_health demo_clk demo_registry demo_pipe_gate"

definition demo_staged :: "aios_status \<times> pipelines \<times> nodebit" where
  "demo_staged = pipe_step (Pipe_Add_Stage 40 1 (Some zero_stage)) 1 g_health demo_clk (fst (snd demo_created)) (snd (snd demo_created))"

inductive_cases slot_changeE: "slot_change n new_id x y"

section \<open>The gate in front of the registry\<close>

lemma gate_check_eq:
  assumes "nb_ready nb" and "length h = 20"
  shows "gate_check n h clk p nb =
    (if policy_permits (nodebit_policy nb) h n NODEBIT_CAP_PIPELINE then (AIOS_OK, p, snd (snd (nodebit_evaluate n NODEBIT_CAP_PIPELINE True h (clk 0) (clk 1) nb)))
     else (AIOS_ERR_PERM, deny_pipeline p, snd (snd (nodebit_evaluate n NODEBIT_CAP_PIPELINE True h (clk 0) (clk 1) nb))))"
proof -
  obtain st out nb' where ev: "nodebit_evaluate n NODEBIT_CAP_PIPELINE True h (clk 0) (clk 1) nb = (st, out, nb')" by (rule prod_cases3)
  have "policy_permits (nodebit_policy nb) h n NODEBIT_CAP_PIPELINE \<longleftrightarrow> st = AIOS_OK \<and> map_option nd_action out = Some NODEBIT_ACTION_PERMIT"
    using evaluate_permitted [OF assms, of n NODEBIT_CAP_PIPELINE "clk 0" "clk 1"] unfolding ev by (auto simp: permitted_def)
  then show ?thesis unfolding gate_check_def ev by simp
qed

lemma deny_slots [simp]: "pl_slots (deny_pipeline p) = pl_slots p" "pl_ready (deny_pipeline p) = pl_ready p"
    "pl_next_id (deny_pipeline p) = pl_next_id p"
  by (simp_all add: deny_pipeline_def)

lemma set_pipeline_fields [simp]: "pl_slots (set_pipeline i x p) = (pl_slots p)[i := x]" "pl_ready (set_pipeline i x p) = pl_ready p"
    "pl_next_id (set_pipeline i x p) = pl_next_id p"
  by (simp_all add: set_pipeline_def)

lemma find_pipeline_SomeD:
  assumes "find_pipeline_locked pid p = Some i"
  shows "i < 16" and "live (pl_slots p ! i)" and "np_pipeline_id (pl_slots p ! i) = pid"
  using assms unfolding find_pipeline_locked_def live_def by (auto dest: find_index_SomeD split: if_splits)

lemma find_free_pipeline_SomeD:
  assumes "find_free_pipeline_locked p = Some i"
  shows "i < 16" and "\<not> live (pl_slots p ! i)"
  using assms unfolding find_free_pipeline_locked_def live_def by (auto dest: find_index_SomeD)

section \<open>What each call does\<close>

lemma effect_same: "pl_ready p' = pl_ready p \<Longrightarrow> pl_next_id p' = pl_next_id p \<Longrightarrow> pl_slots p' = pl_slots p \<Longrightarrow> pipe_effect n permit False p p'"
  by (simp add: pipe_effect_def)

lemma effect_slot:
  assumes "permit" and "i < 16" and "slot_change n (pl_next_id p) (pl_slots p ! i) y" and "pl_slots p' = (pl_slots p)[i := y]"
    and "fresh \<longleftrightarrow> \<not> live (pl_slots p ! i)" and "pl_ready p' = pl_ready p"
    and "pl_next_id p' = (if fresh then pl_next_id p + 1 else pl_next_id p)"
  shows "pipe_effect n permit fresh p p'"
  unfolding pipe_effect_def using assms by blast

lemma create_effect:
  assumes "nb_ready nb" and "length h = 20" and "node_pipeline_create n label has_out h clk p nb = (st, out, p', nb')"
  shows "pipe_effect n (policy_permits (nodebit_policy nb) h n NODEBIT_CAP_PIPELINE) (st = AIOS_OK) p p'"
proof (cases "\<exists>src i. label = Some src \<and> pl_ready p \<and> has_out \<and> policy_permits (nodebit_policy nb) h n NODEBIT_CAP_PIPELINE \<and>
    find_free_pipeline_locked p = Some i")
  case True
  then obtain src i where i: "label = Some src" "pl_ready p" "has_out" "policy_permits (nodebit_policy nb) h n NODEBIT_CAP_PIPELINE"
    "find_free_pipeline_locked p = Some i" by blast
  note free = find_free_pipeline_SomeD [OF i(5)]
  have eq: "st = AIOS_OK" "p' = (set_pipeline i (zero_pipeline\<lparr>np_pipeline_id := pl_next_id p, np_owner_node := n,
      np_state := NODE_PIPELINE_STATE_OPEN, np_created_ts_ns := clk 2, np_last_status := AIOS_OK,
      np_label := copy_pipeline_label_from (np_label zero_pipeline) src 0\<rparr>) p)\<lparr>pl_next_id := pl_next_id p + 1\<rparr>"
    using assms(3) i by (simp_all add: node_pipeline_create_def gate_check_eq [OF assms(1,2)] Let_def)
  show ?thesis
    by (rule effect_slot [OF i(4) free(1) slot_change.created [OF free(2) refl]]) (use eq free in simp_all)
next
  case False
  then have "st \<noteq> AIOS_OK \<and> (p' = p \<or> p' = deny_pipeline p)"
    using assms(3) by (auto simp: node_pipeline_create_def gate_check_eq [OF assms(1,2)] split: option.splits if_splits)
  then show ?thesis by (auto intro: effect_same)
qed

lemma add_stage_effect:
  assumes "nb_ready nb" and "length h = 20" and "node_pipeline_add_stage n pid stage accels h clk p nb = (st, p', nb')"
  shows "pipe_effect n (policy_permits (nodebit_policy nb) h n NODEBIT_CAP_PIPELINE) False p p'"
proof (cases "\<exists>sg i. stage = Some sg \<and> pl_ready p \<and> stage_valid accels sg \<and> policy_permits (nodebit_policy nb) h n NODEBIT_CAP_PIPELINE \<and>
    find_pipeline_locked pid p = Some i \<and> np_owner_node (pl_slots p ! i) = n \<and> \<not> NODE_PIPELINE_MAX_STAGES \<le> np_stage_count (pl_slots p ! i)")
  case True
  then obtain sg i where i: "stage = Some sg" "pl_ready p" "stage_valid accels sg" "policy_permits (nodebit_policy nb) h n NODEBIT_CAP_PIPELINE"
    "find_pipeline_locked pid p = Some i" "np_owner_node (pl_slots p ! i) = n" "np_stage_count (pl_slots p ! i) < NODE_PIPELINE_MAX_STAGES"
    by (auto simp: not_le)
  note found = find_pipeline_SomeD [OF i(5)]
  have room: "\<not> NODE_PIPELINE_MAX_STAGES \<le> np_stage_count (pl_slots p ! i)" using i(7) by simp
  show ?thesis
    by (rule effect_slot [OF i(4) found(1) slot_change.staged [OF found(2) i(6,7) refl, where sg = sg]])
      (use assms(3) i room found in \<open>auto simp: node_pipeline_add_stage_def gate_check_eq [OF assms(1,2)] Let_def\<close>)
next
  case False
  then have "p' = p \<or> p' = deny_pipeline p"
    using assms(3)
    by (auto simp: node_pipeline_add_stage_def gate_check_eq [OF assms(1,2)] Let_def split: option.splits if_splits)
  then show ?thesis by (auto intro: effect_same)
qed

lemma destroy_effect:
  assumes "nb_ready nb" and "length h = 20" and "node_pipeline_destroy n pid h clk p nb = (st, p', nb')"
  shows "pipe_effect n (policy_permits (nodebit_policy nb) h n NODEBIT_CAP_PIPELINE) False p p'"
proof (cases "\<exists>i. pl_ready p \<and> policy_permits (nodebit_policy nb) h n NODEBIT_CAP_PIPELINE \<and> find_pipeline_locked pid p = Some i \<and>
    np_owner_node (pl_slots p ! i) = n")
  case True
  then obtain i where i: "pl_ready p" "policy_permits (nodebit_policy nb) h n NODEBIT_CAP_PIPELINE"
    "find_pipeline_locked pid p = Some i" "np_owner_node (pl_slots p ! i) = n" by blast
  note found = find_pipeline_SomeD [OF i(3)]
  show ?thesis
    by (rule effect_slot [OF i(2) found(1) slot_change.destroyed [OF found(2) i(4) refl]])
      (use assms(3) i found in \<open>auto simp: node_pipeline_destroy_def gate_check_eq [OF assms(1,2)]\<close>)
next
  case False
  then have "p' = p \<or> p' = deny_pipeline p"
    using assms(3) by (auto simp: node_pipeline_destroy_def gate_check_eq [OF assms(1,2)] split: option.splits if_splits)
  then show ?thesis by (auto intro: effect_same)
qed

lemma execute_effect:
  assumes "nb_ready nb" and "length h = 20" and "node_pipeline_execute n pid has_result accels h clk p nb = (st, out, p', nb')"
  shows "pipe_effect n (policy_permits (nodebit_policy nb) h n NODEBIT_CAP_PIPELINE) False p p'"
proof (cases "\<exists>i. pl_ready p \<and> policy_permits (nodebit_policy nb) h n NODEBIT_CAP_PIPELINE \<and> find_pipeline_locked pid p = Some i \<and>
    np_owner_node (pl_slots p ! i) = n \<and> np_state (pl_slots p ! i) = NODE_PIPELINE_STATE_READY \<and> np_stage_count (pl_slots p ! i) \<noteq> 0")
  case True
  then obtain i where i: "pl_ready p" "policy_permits (nodebit_policy nb) h n NODEBIT_CAP_PIPELINE"
    "find_pipeline_locked pid p = Some i" "np_owner_node (pl_slots p ! i) = n" "np_state (pl_slots p ! i) = NODE_PIPELINE_STATE_READY"
    "np_stage_count (pl_slots p ! i) \<noteq> 0" by blast
  note found = find_pipeline_SomeD [OF i(3)]
  let ?x = "pl_slots p ! i"
  have "\<exists>e s d. pl_slots p' = (pl_slots p)[i := ?x\<lparr>np_executions := e, np_last_status := s, np_last_exec_ns := d\<rparr>] \<and>
      pl_ready p' = pl_ready p \<and> pl_next_id p' = pl_next_id p"
  proof (cases "executed_stages accels (take (unat (np_stage_count ?x)) (np_stages ?x)) = np_stage_count ?x")
    case True
    then show ?thesis
      using assms(3) i
      by (intro exI [of _ "np_executions ?x + 1"] exI [of _ AIOS_OK] exI [of _ "clk 3 - clk 2"])
        (auto simp: node_pipeline_execute_def gate_check_eq [OF assms(1,2)] Let_def)
  next
    case False
    then show ?thesis
      using assms(3) i
      by (intro exI [of _ "np_executions ?x"] exI [of _ AIOS_ERR_ACCEL] exI [of _ "np_last_exec_ns ?x"])
        (auto simp: node_pipeline_execute_def gate_check_eq [OF assms(1,2)] Let_def)
  qed
  then obtain e s d where eq: "pl_slots p' = (pl_slots p)[i := ?x\<lparr>np_executions := e, np_last_status := s, np_last_exec_ns := d\<rparr>]"
    "pl_ready p' = pl_ready p" "pl_next_id p' = pl_next_id p" by blast
  show ?thesis
    by (rule effect_slot [OF i(2) found(1) slot_change.executed [OF found(2) i(4,5) refl] eq(1)]) (use eq found in simp_all)
next
  case False
  then have "p' = p \<or> p' = deny_pipeline p"
    using assms(3)
    by (auto simp: node_pipeline_execute_def gate_check_eq [OF assms(1,2)] Let_def split: option.splits if_splits)
  then show ?thesis by (auto intro: effect_same)
qed

text \<open>No call changes the policy or the good order of the gate.\<close>

lemma gate_check_gate:
  assumes "nodebit_ok nb" and "gate_check n h clk p nb = (st, p', nb')"
  shows "nodebit_ok nb' \<and> nb_ready nb' = nb_ready nb \<and> nodebit_policy nb' = nodebit_policy nb"
proof -
  have "nb' = snd (snd (nodebit_evaluate n NODEBIT_CAP_PIPELINE True h (clk 0) (clk 1) nb))"
    using assms(2) by (auto simp: gate_check_def split: prod.splits if_splits)
  then show ?thesis using evaluate_ok [OF assms(1)] evaluate_policy [OF assms(1)] by simp
qed

lemma pipe_step_gate:
  assumes "nodebit_ok nb" and "pipe_step c accels h clk p nb = (st, p', nb')"
  shows "nodebit_ok nb' \<and> nb_ready nb' = nb_ready nb \<and> nodebit_policy nb' = nodebit_policy nb"
proof -
  obtain st1 p1 nb1 where g: "gate_check (pipe_caller c) h clk p nb = (st1, p1, nb1)" by (rule prod_cases3)
  note ok = gate_check_gate [OF assms(1) g]
  have "nb' = nb \<or> nb' = nb1 \<or> (\<exists>n d. nb' = snd (nodebit_observe_work n d nb1))"
  proof (cases c)
    case (Pipe_Create n label has_out)
    then show ?thesis using assms(2) g
      by (auto simp: node_pipeline_create_def Let_def split: option.splits if_splits)
  next
    case (Pipe_Add_Stage n pid stage)
    then show ?thesis using assms(2) g
      by (auto simp: node_pipeline_add_stage_def Let_def split: option.splits if_splits)
  next
    case (Pipe_Execute n pid has_result)
    then show ?thesis using assms(2) g
      by (auto simp: node_pipeline_execute_def Let_def split: option.splits if_splits)
  next
    case (Pipe_Destroy n pid)
    then show ?thesis using assms(2) g
      by (auto simp: node_pipeline_destroy_def split: option.splits if_splits)
  qed
  then show ?thesis
    using ok assms(1) observe_ok [of nb1] policy_entries [OF observe_ok(2), of nb1] by auto
qed

lemma pipe_step_effect:
  assumes "nb_ready nb" and "length h = 20" and "pipe_step c accels h clk p nb = (st, p', nb')"
  shows "pipe_effect (pipe_caller c) (policy_permits (nodebit_policy nb) h (pipe_caller c) NODEBIT_CAP_PIPELINE)
    ((\<exists>n label has_out. c = Pipe_Create n label has_out) \<and> st = AIOS_OK) p p'"
  using assms(3) create_effect [OF assms(1,2)] add_stage_effect [OF assms(1,2)] execute_effect [OF assms(1,2)]
    destroy_effect [OF assms(1,2)]
  by (cases c) (auto split: prod.splits)

section \<open>The registry stays well-formed\<close>

lemma slot_change_ok:
  assumes "slot_change n new_id x y" and "slot_ok x"
  shows "slot_ok y" and "live y \<Longrightarrow> np_pipeline_id y = (if live x then np_pipeline_id x else new_id)"
proof -
  have step: "unat (c + 1) = unat c + 1" if "c < NODE_PIPELINE_MAX_STAGES" for c :: u32
    using that by (simp add: unat_add_no_wrap word_less_nat_alt)
  show "slot_ok y"
    using assms(1)
  proof (cases rule: slot_change.cases)
    case (staged sg)
    then show ?thesis using assms(2) step [of "np_stage_count x"]
      by (simp add: slot_ok_def word_le_nat_alt word_less_nat_alt)
  qed (use assms(2) in \<open>auto simp: slot_ok_def live_def zero_pipeline_def split: node_pipeline_state.splits\<close>)
  show "np_pipeline_id y = (if live x then np_pipeline_id x else new_id)" if "live y"
    using assms(1) that by (cases rule: slot_changeE) (auto simp: live_def zero_pipeline_def)
qed

lemma pipes_ok_same:
  "pipes_ok k p \<Longrightarrow> pl_slots p' = pl_slots p \<Longrightarrow> pl_ready p' = pl_ready p \<Longrightarrow> pl_next_id p' = pl_next_id p \<Longrightarrow> pipes_ok k p'"
  by (simp add: pipes_ok_def)

lemma pipes_okD:
  assumes "pipes_ok k p"
  shows "length (pl_slots p) = 16" and "pl_ready p" and "pl_next_id p = of_nat (Suc k)"
    and "i < 16 \<Longrightarrow> slot_ok (pl_slots p ! i)"
    and "Suc k < 2 ^ 32 \<Longrightarrow> i < 16 \<Longrightarrow> live (pl_slots p ! i) \<Longrightarrow>
      0 < unat (np_pipeline_id (pl_slots p ! i)) \<and> unat (np_pipeline_id (pl_slots p ! i)) \<le> k"
    and "Suc k < 2 ^ 32 \<Longrightarrow> i < 16 \<Longrightarrow> j < 16 \<Longrightarrow> live (pl_slots p ! i) \<Longrightarrow> live (pl_slots p ! j) \<Longrightarrow>
      np_pipeline_id (pl_slots p ! i) = np_pipeline_id (pl_slots p ! j) \<Longrightarrow> i = j"
  using assms by (simp_all add: pipes_ok_def)

lemma pipes_ok_change:
  assumes ok: "pipes_ok k p" and i: "i < 16" and ch: "slot_change n (pl_next_id p) (pl_slots p ! i) y"
    and slots: "pl_slots p' = (pl_slots p)[i := y]" and ready: "pl_ready p' = pl_ready p"
    and k': "k' = (if live (pl_slots p ! i) then k else Suc k)"
    and nxt: "pl_next_id p' = (if live (pl_slots p ! i) then pl_next_id p else pl_next_id p + 1)"
  shows "pipes_ok k' p'"
proof -
  let ?x = "pl_slots p ! i"
  note ok = pipes_okD [OF ok]
  note y = slot_change_ok [OF ch ok(4) [OF i]]
  have at: "pl_slots p' ! j = (if j = i then y else pl_slots p ! j)" if "j < 16" for j
    using that ok(1) i by (simp add: slots)
  have set: "slot_ok z" if "z \<in> set (pl_slots p')" for z
  proof -
    have "z = y \<or> z \<in> set (pl_slots p)" using that set_update_subset_insert [of "pl_slots p" i y] by (auto simp: slots)
    then show ?thesis using y(1) ok(1,4) by (auto simp: in_set_conv_nth)
  qed
  have next_id: "pl_next_id p' = of_nat (Suc k')" using ok(3) k' nxt by simp
  have ids: "0 < unat (np_pipeline_id (pl_slots p' ! j)) \<and> unat (np_pipeline_id (pl_slots p' ! j)) \<le> k'"
    and old: "j \<noteq> i \<or> live ?x \<Longrightarrow> unat (np_pipeline_id (pl_slots p' ! j)) \<le> k"
    and new: "j = i \<Longrightarrow> \<not> live ?x \<Longrightarrow> unat (np_pipeline_id (pl_slots p' ! j)) = Suc k"
    if small: "Suc k' < 2 ^ 32" and j: "j < 16" "live (pl_slots p' ! j)" for j
  proof -
    have sk: "Suc k < 2 ^ 32" using small k' by (simp split: if_splits)
    have fresh: "unat (pl_next_id p) = Suc k" using sk ok(3) unat_of_nat_small [of "Suc k", where ?'a = 32] by simp
    have idi: "np_pipeline_id y = (if live ?x then np_pipeline_id ?x else pl_next_id p)" if "j = i"
      using y(2) j that at [OF j(1)] by simp
    show "j \<noteq> i \<or> live ?x \<Longrightarrow> unat (np_pipeline_id (pl_slots p' ! j)) \<le> k"
      using ok(5) [OF sk j(1)] at [OF j(1)] j(2) idi by (cases "j = i") auto
    show "j = i \<Longrightarrow> \<not> live ?x \<Longrightarrow> unat (np_pipeline_id (pl_slots p' ! j)) = Suc k"
      using at [OF j(1)] idi fresh by simp
    show "0 < unat (np_pipeline_id (pl_slots p' ! j)) \<and> unat (np_pipeline_id (pl_slots p' ! j)) \<le> k'"
      using ok(5) [OF sk j(1)] at [OF j(1)] j(2) idi fresh k' by (cases "j = i") auto
  qed
  have uniq: "a = b" if small: "Suc k' < 2 ^ 32" and ab: "a < 16" "b < 16" "live (pl_slots p' ! a)" "live (pl_slots p' ! b)"
      "np_pipeline_id (pl_slots p' ! a) = np_pipeline_id (pl_slots p' ! b)" for a b
  proof (cases "live ?x")
    case True
    have "live (pl_slots p ! c) \<and> np_pipeline_id (pl_slots p' ! c) = np_pipeline_id (pl_slots p ! c)" if "c < 16" "live (pl_slots p' ! c)" for c
      using that at [OF that(1)] y(2) True by (cases "c = i") auto
    then show ?thesis using ok(6) [of a b] ab small k' True by simp
  next
    case False
    have sk: "Suc k < 2 ^ 32" using small k' False by simp
    consider "a = i" "b = i" | "a \<noteq> i" "b \<noteq> i" | "a = i" "b \<noteq> i" | "a \<noteq> i" "b = i" by blast
    then show ?thesis
    proof cases
      case 2
      then show ?thesis using ok(6) [OF sk, of a b] ab at by simp
    next
      case 3
      then show ?thesis using new [OF small ab(1,3)] old [OF small ab(2,4)] ab(5) False by simp
    next
      case 4
      then show ?thesis using new [OF small ab(2,4)] old [OF small ab(1,3)] ab(5) False by simp
    qed simp
  qed
  show ?thesis
    unfolding pipes_ok_def using ok(1,2) set next_id ids uniq ready slots by simp
qed

lemma pipes_ok_step:
  assumes "pipes_ok k p" and "pipe_effect n permit fresh p p'"
  shows "pipes_ok (if fresh then Suc k else k) p'"
proof (cases "\<not> fresh \<and> pl_slots p' = pl_slots p")
  case True
  then show ?thesis using assms pipes_ok_same [OF assms(1)] by (simp add: pipe_effect_def)
next
  case False
  then obtain i y where i: "i < 16" "slot_change n (pl_next_id p) (pl_slots p ! i) y" "pl_slots p' = (pl_slots p)[i := y]"
      "fresh \<longleftrightarrow> \<not> live (pl_slots p ! i)"
    using assms(2) unfolding pipe_effect_def by blast
  then show ?thesis
    using assms(2) by (intro pipes_ok_change [OF assms(1) i(1,2,3)]) (simp_all add: pipe_effect_def)
qed

lemma pipe_run_ok: "pipe_run k p nb \<Longrightarrow> pipes_ok k p \<and> nodebit_ok nb \<and> nb_ready nb"
proof (induction rule: pipe_run.induct)
  case (init nb p0 st p)
  have "slot_ok zero_pipeline" by (simp add: slot_ok_def zero_pipeline_def)
  moreover have "\<not> live zero_pipeline" by (simp add: live_def zero_pipeline_def)
  ultimately show ?case
    using nodebit_run_ok [OF init(1)] init(2) by (auto simp: node_pipeline_init_def pipes_ok_def)
next
  case (call k p nb h c accels clk st p' nb' k')
  then have ok: "pipes_ok k p" "nodebit_ok nb" "nb_ready nb" by simp_all
  then show ?case
    using pipes_ok_step [OF ok(1) pipe_step_effect [OF ok(3) call(2,3)]] pipe_step_gate [OF ok(2) call(3)] call(4) by simp
next
  case (register k p nb n l caps g)
  then show ?case using register_ok by simp
next
  case (update k p nb n caps)
  then show ?case using update_ok by simp
qed

text \<open>
  C39: The pipeline registry stays well-formed.  After any sequence of pipeline calls and policy changes, free slots are
  zeroed, an open pipeline has no stage, a ready one has between one and eight, and, as long
  as fewer than \<open>2\<^sup>3\<^sup>2 - 1\<close> pipelines have been created, every pipeline has a non-zero identifier of its own, so that
  a lookup finds exactly the pipeline with that identifier.
\<close>

theorem pipelines_wellformed:
  assumes "pipe_run k p nb"
  shows "length (pl_slots p) = 16 \<and> (\<forall>x \<in> set (pl_slots p). slot_ok x) \<and>
    (Suc k < 2 ^ 32 \<longrightarrow> (\<forall>i < 16. np_state (pl_slots p ! i) \<noteq> NODE_PIPELINE_STATE_FREE \<longrightarrow>
       np_pipeline_id (pl_slots p ! i) \<noteq> 0 \<and> find_pipeline_locked (np_pipeline_id (pl_slots p ! i)) p = Some i \<and>
       node_pipeline_get (np_pipeline_id (pl_slots p ! i)) True p = (AIOS_OK, Some (pl_slots p ! i))))"
proof (intro conjI impI allI)
  have pok: "pipes_ok k p" using pipe_run_ok [OF assms] by simp
  note ok = pipes_okD [OF pok]
  show "length (pl_slots p) = 16" by (rule ok(1))
  show "\<forall>x \<in> set (pl_slots p). slot_ok x" using pok by (simp add: pipes_ok_def)
  fix i assume k: "Suc k < 2 ^ 32" and i: "i < 16" and st: "np_state (pl_slots p ! i) \<noteq> NODE_PIPELINE_STATE_FREE"
  have lv: "live (pl_slots p ! i)" using st by (simp add: live_def)
  show nz: "np_pipeline_id (pl_slots p ! i) \<noteq> 0" using ok(5) [OF k i lv] by auto
  have "find_pipeline_locked (np_pipeline_id (pl_slots p ! i)) p \<noteq> None"
    using nz i st by (auto simp: find_pipeline_locked_def find_None_iff)
  then obtain j where j: "find_pipeline_locked (np_pipeline_id (pl_slots p ! i)) p = Some j" by blast
  have "j = i" using ok(6) [OF k _ i _ lv] find_pipeline_SomeD [OF j] by simp
  then show "find_pipeline_locked (np_pipeline_id (pl_slots p ! i)) p = Some i" using j by simp
  then show "node_pipeline_get (np_pipeline_id (pl_slots p ! i)) True p = (AIOS_OK, Some (pl_slots p ! i))"
    using ok(2) by (simp add: node_pipeline_get_def)
qed

text \<open>
  C38: No pipeline changes without a permit and ownership.  Whatever the call, if a slot of the registry
  changes, then the policy in force permits the calling node to use pipelines, the slot was
  free or belonged to that node, and no other slot changes.  A created pipeline belongs
  to its creator, no call hands a pipeline to another node, and no call changes the policy.
\<close>

theorem pipeline_change_authorised:
  assumes "pipe_run k p nb" and "length h = 20" and "pipe_step c accels h clk p nb = (st, p', nb')"
    and "i < 16" and "pl_slots p' ! i \<noteq> pl_slots p ! i"
  shows "policy_permits (nodebit_policy nb) h (pipe_caller c) NODEBIT_CAP_PIPELINE \<and>
    (np_state (pl_slots p ! i) = NODE_PIPELINE_STATE_FREE \<or> np_owner_node (pl_slots p ! i) = pipe_caller c) \<and>
    (np_state (pl_slots p' ! i) \<noteq> NODE_PIPELINE_STATE_FREE \<longrightarrow> np_owner_node (pl_slots p' ! i) = pipe_caller c) \<and>
    (\<forall>j. j \<noteq> i \<longrightarrow> pl_slots p' ! j = pl_slots p ! j) \<and>
    nodebit_policy nb' = nodebit_policy nb"
proof -
  have ok: "pipes_ok k p" "nodebit_ok nb" "nb_ready nb" using pipe_run_ok [OF assms(1)] by simp_all
  obtain m y where m: "policy_permits (nodebit_policy nb) h (pipe_caller c) NODEBIT_CAP_PIPELINE" "m < 16"
      "slot_change (pipe_caller c) (pl_next_id p) (pl_slots p ! m) y" "pl_slots p' = (pl_slots p)[m := y]"
    using pipe_step_effect [OF ok(3) assms(2,3)] assms(5) unfolding pipe_effect_def by metis
  then have "m = i" using assms(5) by (metis nth_list_update_neq)
  moreover have "\<not> live (pl_slots p ! m) \<or> np_owner_node (pl_slots p ! m) = pipe_caller c"
    and "live y \<longrightarrow> np_owner_node y = pipe_caller c"
    using m(3) by (cases rule: slot_changeE; simp add: live_def zero_pipeline_def)+
  ultimately show ?thesis
    using m pipe_step_gate [OF ok(2) assms(3)] pipes_okD(1) [OF ok(1)] by (simp add: live_def)
qed

section \<open>A pipeline of one stage\<close>

lemma demo_registry_run: "pipe_run 0 demo_registry demo_pipe_gate"
proof (rule pipe_run.init)
  show "nodebit_run demo_pipe_gate"
    unfolding demo_pipe_gate_def
    by (intro nodebit_run.register nodebit_run.init [of nodebit_boot AIOS_OK]) (simp add: nodebit_init_def)
  show "node_pipeline_init pipelines_boot = (AIOS_OK, demo_registry)"
    by (simp add: demo_registry_def node_pipeline_init_def)
qed

lemma demo_created_status: "fst demo_created = AIOS_OK" "fst demo_staged = AIOS_OK"
  by code_simp+

lemma demo_created_slots:
  "np_state (pl_slots demo_registry ! 0) = NODE_PIPELINE_STATE_FREE"
  "np_pipeline_id (pl_slots (fst (snd demo_created)) ! 0) = 1" "np_stage_count (pl_slots (fst (snd demo_created)) ! 0) = 0"
  "np_state (pl_slots (fst (snd demo_created)) ! 0) = NODE_PIPELINE_STATE_OPEN"
  "np_stage_count (pl_slots (fst (snd demo_staged)) ! 0) = 1"
  by code_simp+

lemma demo_created_run: "pipe_run 1 (fst (snd demo_created)) (snd (snd demo_created))"
proof (rule pipe_run.call [OF demo_registry_run])
  show "pipe_step (Pipe_Create 40 (Some (\<lambda>_. 0)) True) 1 g_health demo_clk demo_registry demo_pipe_gate =
      (AIOS_OK, fst (snd demo_created), snd (snd demo_created))"
    using demo_created_status(1) unfolding demo_created_def by (metis prod.collapse)
qed auto

theorem pipelines_wellformed_witness:
  "\<exists>p nb. pipe_run 1 p nb \<and> np_state (pl_slots p ! 0) \<noteq> NODE_PIPELINE_STATE_FREE \<and> (\<forall>x \<in> set (pl_slots p). slot_ok x)
     \<and> node_pipeline_get 1 True p = (AIOS_OK, Some (pl_slots p ! 0))"
proof -
  let ?p = "fst (snd demo_created)"
  have "np_state (pl_slots ?p ! 0) \<noteq> NODE_PIPELINE_STATE_FREE" by (simp add: demo_created_slots(4))
  moreover from this have sl: "\<forall>x \<in> set (pl_slots ?p). slot_ok x" and "node_pipeline_get (np_pipeline_id (pl_slots ?p ! 0)) True ?p = (AIOS_OK, Some (pl_slots ?p ! 0))"
    using pipelines_wellformed [OF demo_created_run] by simp_all
  then have "node_pipeline_get 1 True ?p = (AIOS_OK, Some (pl_slots ?p ! 0))" unfolding demo_created_slots(2) by blast
  ultimately show ?thesis using demo_created_run sl by blast
qed

theorem pipeline_change_authorised_witness:
  "\<exists>p nb p' nb'. pipe_step (Pipe_Add_Stage 40 1 (Some zero_stage)) 1 g_health demo_clk p nb = (AIOS_OK, p', nb') \<and>
     pl_slots p' ! 0 \<noteq> pl_slots p ! 0 \<and> np_owner_node (pl_slots p ! 0) = 40 \<and>
     policy_permits (nodebit_policy nb) g_health 40 NODEBIT_CAP_PIPELINE"
proof -
  let ?p = "fst (snd demo_created)" and ?nb = "snd (snd demo_created)"
  have st: "pipe_step (Pipe_Add_Stage 40 1 (Some zero_stage)) 1 g_health demo_clk ?p ?nb = (AIOS_OK, fst (snd demo_staged), snd (snd demo_staged))"
    using demo_created_status(2) unfolding demo_staged_def by (metis prod.collapse)
  have ne: "pl_slots (fst (snd demo_staged)) ! 0 \<noteq> pl_slots ?p ! 0"
    using demo_created_slots(3,5) by (metis zero_neq_one)
  have "policy_permits (nodebit_policy ?nb) g_health 40 NODEBIT_CAP_PIPELINE" "np_owner_node (pl_slots ?p ! 0) = 40"
    using pipeline_change_authorised [OF demo_created_run _ st, of 0] ne demo_created_slots(4) by simp_all
  with st ne show ?thesis by blast
qed

end
