(* ===== verification/Autonomy.thy ===== *)
theory Autonomy
  imports Tensor_MM AI_Sched Health
begin

text \<open>
  The autonomy control plane of \<^verbatim>\<open>kernel/runtime/autonomy.c\<close>: telemetry, the queue of proposed
  actions, committing them on the scheduler and taking the last one back.  The three rings are total
  functions on indices.  The scheduler, the memory manager and the health registry are the states
  of their own theories; the number of accelerators and the clock readings \<open>clk j\<close> of a
  call are arguments.  A call whose result is \<open>None\<close> does not return, because the scheduler does not.
\<close>

section \<open>Data\<close>

abbreviation AUTONOMY_TELEMETRY_CAP :: u32 where "AUTONOMY_TELEMETRY_CAP \<equiv> 512"
abbreviation AUTONOMY_ACTION_CAP :: u32 where "AUTONOMY_ACTION_CAP \<equiv> 128"
abbreviation AUTONOMY_EVENT_CAP :: u32 where "AUTONOMY_EVENT_CAP \<equiv> 256"

abbreviation AUTONOMY_TARGET_MEM :: u32 where "AUTONOMY_TARGET_MEM \<equiv> 0"
abbreviation AUTONOMY_TARGET_SCHED :: u32 where "AUTONOMY_TARGET_SCHED \<equiv> 1"
abbreviation AUTONOMY_TARGET_ACCEL :: u32 where "AUTONOMY_TARGET_ACCEL \<equiv> 2"
abbreviation AUTONOMY_TARGET_INFER :: u32 where "AUTONOMY_TARGET_INFER \<equiv> 3"
abbreviation AUTONOMY_TARGET_UNKNOWN :: u32 where "AUTONOMY_TARGET_UNKNOWN \<equiv> 255"

datatype autonomy_target_support_kind =
  AUTONOMY_SUPPORT_NONE | AUTONOMY_SUPPORT_OBSERVE_ONLY | AUTONOMY_SUPPORT_APPLY

datatype policy_action_state =
    ACTION_STATE_PROPOSED | ACTION_STATE_APPROVED | ACTION_STATE_COMMITTED | ACTION_STATE_ROLLED_BACK
  | ACTION_STATE_REJECTED

datatype autonomy_reason =
    AUTONOMY_REASON_OK | AUTONOMY_REASON_BAD_TARGET | AUTONOMY_REASON_BAD_RISK | AUTONOMY_REASON_BAD_DELTA
  | AUTONOMY_REASON_MODE_BLOCKED | AUTONOMY_REASON_UNSUPPORTED_TARGET | AUTONOMY_REASON_QUEUE_FULL

record telemetry_frame =
  tf_ts_ns :: u64
  tf_mem :: mem_stats
  tf_sched :: sched_stats
  tf_active_models :: u32
  tf_active_accels :: u32

text \<open>The delta is a signed 64-bit integer.\<close>

record policy_action =
  pa_action_id :: u32
  pa_risk_level :: u32
  pa_target_subsys :: u32
  pa_delta_value :: "64 word"
  pa_ts_ns :: u64
  pa_state :: policy_action_state
  pa_reason :: autonomy_reason

record policy_eval =
  pe_before_score :: u64
  pe_after_score :: u64
  pe_rollback_triggered :: bool

record autonomy_event =
  av_ts_ns :: u64
  av_action_id :: u32
  av_target_subsys :: u32
  av_state :: policy_action_state
  av_reason :: autonomy_reason

record autonomy_stat =
  as_telemetry_samples :: u64
  as_actions_proposed :: u64
  as_actions_approved :: u64
  as_actions_committed :: u64
  as_actions_rejected :: u64
  as_rollbacks :: u64
  as_observation_only :: bool
  as_safe_mode :: bool
  as_action_queue_depth :: u32
  as_event_log_depth :: u32

record autonomy_action_req =
  rq_action_id :: u32
  rq_risk_level :: u32
  rq_target_subsys :: u32
  rq_delta_value :: "64 word"

record rollback_ctx =
  rc_valid :: bool
  rc_target_subsys :: u32
  rc_action_id :: u32
  rc_prev_priority :: "32 word"

record autonomy =
  au_telemetry_ring :: "nat \<Rightarrow> telemetry_frame"
  au_telemetry_head :: u32
  au_telemetry_count :: u32
  au_action_queue :: "nat \<Rightarrow> policy_action"
  au_action_head :: u32
  au_action_tail :: u32
  au_action_count :: u32
  au_event_log :: "nat \<Rightarrow> autonomy_event"
  au_event_head :: u32
  au_event_count :: u32
  au_last_committed :: policy_action
  au_has_last_committed :: bool
  au_rollback :: rollback_ctx
  au_stats :: autonomy_stat

text \<open>The static variables as the loader leaves them.\<close>

definition zero_action :: policy_action where
  "zero_action =
     \<lparr>pa_action_id = 0, pa_risk_level = 0, pa_target_subsys = 0, pa_delta_value = 0, pa_ts_ns = 0,
      pa_state = ACTION_STATE_PROPOSED, pa_reason = AUTONOMY_REASON_OK\<rparr>"

definition autonomy_boot :: autonomy where
  "autonomy_boot =
     \<lparr>au_telemetry_ring = (\<lambda>_. \<lparr>tf_ts_ns = 0, tf_mem = zero_stats, tf_sched = zero_sched_stats, tf_active_models = 0,
        tf_active_accels = 0\<rparr>), au_telemetry_head = 0, au_telemetry_count = 0,
      au_action_queue = (\<lambda>_. zero_action), au_action_head = 0, au_action_tail = 0, au_action_count = 0,
      au_event_log = (\<lambda>_. \<lparr>av_ts_ns = 0, av_action_id = 0, av_target_subsys = 0, av_state = ACTION_STATE_PROPOSED,
        av_reason = AUTONOMY_REASON_OK\<rparr>), au_event_head = 0, au_event_count = 0,
      au_last_committed = zero_action, au_has_last_committed = False,
      au_rollback = \<lparr>rc_valid = False, rc_target_subsys = 0, rc_action_id = 0, rc_prev_priority = 0\<rparr>,
      au_stats = \<lparr>as_telemetry_samples = 0, as_actions_proposed = 0, as_actions_approved = 0, as_actions_committed = 0,
        as_actions_rejected = 0, as_rollbacks = 0, as_observation_only = False, as_safe_mode = False,
        as_action_queue_depth = 0, as_event_log_depth = 0\<rparr>\<rparr>"

section \<open>Names and tables\<close>

definition autonomy_target_valid :: "u32 \<Rightarrow> bool" where
  "autonomy_target_valid target_subsys \<longleftrightarrow> target_subsys \<le> AUTONOMY_TARGET_INFER"

definition policy_action_state_valid :: "u32 \<Rightarrow> bool" where
  "policy_action_state_valid state \<longleftrightarrow> state < 5"

definition autonomy_reason_valid :: "u32 \<Rightarrow> bool" where
  "autonomy_reason_valid reason \<longleftrightarrow> reason < 7"

definition k_target_support_map :: "u32 \<Rightarrow> autonomy_target_support_kind" where
  "k_target_support_map target_subsys =
     (if target_subsys = AUTONOMY_TARGET_MEM then AUTONOMY_SUPPORT_OBSERVE_ONLY
      else if target_subsys = AUTONOMY_TARGET_SCHED then AUTONOMY_SUPPORT_APPLY
      else if target_subsys = AUTONOMY_TARGET_ACCEL then AUTONOMY_SUPPORT_OBSERVE_ONLY
      else if target_subsys = AUTONOMY_TARGET_INFER then AUTONOMY_SUPPORT_OBSERVE_ONLY
      else AUTONOMY_SUPPORT_NONE)"

definition autonomy_target_support :: "u32 \<Rightarrow> autonomy_target_support_kind" where
  "autonomy_target_support target_subsys =
     (if \<not> autonomy_target_valid target_subsys then AUTONOMY_SUPPORT_NONE else k_target_support_map target_subsys)"

definition autonomy_target_name :: "u32 \<Rightarrow> string" where
  "autonomy_target_name target_subsys =
     (if target_subsys = AUTONOMY_TARGET_MEM then ''mem''
      else if target_subsys = AUTONOMY_TARGET_SCHED then ''sched''
      else if target_subsys = AUTONOMY_TARGET_ACCEL then ''accel''
      else if target_subsys = AUTONOMY_TARGET_INFER then ''infer'' else ''unknown'')"

fun autonomy_target_support_name :: "autonomy_target_support_kind \<Rightarrow> string" where
  "autonomy_target_support_name AUTONOMY_SUPPORT_APPLY = ''apply''"
| "autonomy_target_support_name AUTONOMY_SUPPORT_OBSERVE_ONLY = ''observe-only''"
| "autonomy_target_support_name AUTONOMY_SUPPORT_NONE = ''none''"

definition autonomy_action_state_name :: "u32 \<Rightarrow> string" where
  "autonomy_action_state_name state =
     (if state = 0 then ''proposed'' else if state = 1 then ''approved'' else if state = 2 then ''committed''
      else if state = 3 then ''rolled-back'' else if state = 4 then ''rejected'' else ''unknown'')"

definition autonomy_reason_name :: "u32 \<Rightarrow> string" where
  "autonomy_reason_name reason =
     (if reason = 0 then ''ok'' else if reason = 1 then ''bad-target'' else if reason = 2 then ''bad-risk''
      else if reason = 3 then ''bad-delta'' else if reason = 4 then ''mode-blocked''
      else if reason = 5 then ''unsupported-target'' else if reason = 6 then ''queue-full'' else ''unknown'')"

section \<open>Helpers\<close>

definition live_frame :: "u64 \<Rightarrow> tmm \<Rightarrow> sched \<Rightarrow> u32 \<Rightarrow> u32 \<Rightarrow> telemetry_frame" where
  "live_frame now t s models accels =
     \<lparr>tf_ts_ns = now, tf_mem = tm_stats t, tf_sched = sc_stats s, tf_active_models = models, tf_active_accels = accels\<rparr>"

definition collect_live_telemetry :: "u64 \<Rightarrow> tmm \<Rightarrow> sched \<Rightarrow> u32 \<Rightarrow> telemetry_frame" where
  "collect_live_telemetry now t s accels = live_frame now t s 0 accels"

definition compute_eval_score :: "telemetry_frame \<Rightarrow> u64" where
  "compute_eval_score frame =
     (let score = 1000000;
          score = score - min (ms_fragmentation (tf_mem frame) * 500) 250000;
          score = score - min (ss_failed_tasks (tf_sched frame) * 10000) 250000;
          score = score - min (ss_avg_wait_ns (tf_sched frame) div 1000) 250000
      in score - min (ss_active_tasks (tf_sched frame) * 1000) 100000)"

definition log_event :: "policy_action \<Rightarrow> autonomy \<Rightarrow> autonomy" where
  "log_event action a =
     (let ev = \<lparr>av_ts_ns = pa_ts_ns action, av_action_id = pa_action_id action, av_target_subsys = pa_target_subsys action,
                av_state = pa_state action, av_reason = pa_reason action\<rparr>;
          a1 = a\<lparr>au_event_log := (au_event_log a)(unat (au_event_head a) := ev),
                 au_event_head := (au_event_head a + 1) mod AUTONOMY_EVENT_CAP\<rparr>
      in if au_event_count a1 < AUTONOMY_EVENT_CAP then a1\<lparr>au_event_count := au_event_count a1 + 1\<rparr> else a1)"

definition target_supported :: "u32 \<Rightarrow> bool" where
  "target_supported target_subsys \<longleftrightarrow> autonomy_target_support target_subsys = AUTONOMY_SUPPORT_APPLY"

definition risk_level_valid :: "u32 \<Rightarrow> bool" where
  "risk_level_valid risk_level \<longleftrightarrow> risk_level \<le> 3"

definition risk_allowed :: "u32 \<Rightarrow> health \<Rightarrow> autonomy \<Rightarrow> bool" where
  "risk_allowed risk_level h a =
     (let level = hs_level (kernel_health_summary_of h)
      in if level = KERNEL_STABILITY_UNSAFE then False
         else if level = KERNEL_STABILITY_DEGRADED \<and> risk_level > 0 then False
         else if as_safe_mode (au_stats a) \<and> risk_level > 0 then False
         else if as_observation_only (au_stats a) then False else True)"

definition delta_within_bounds :: "policy_action \<Rightarrow> bool" where
  "delta_within_bounds action =
     (if pa_target_subsys action = AUTONOMY_TARGET_SCHED
      then sint (pa_delta_value action) \<ge> - 32 \<and> sint (pa_delta_value action) \<le> 32 else False)"

definition clamp_priority :: "64 word \<Rightarrow> 32 word" where
  "clamp_priority v = (if sint v < 0 then 0 else if sint v > 255 then 255 else ucast v)"

definition apply_sched_action ::
  "u64 \<Rightarrow> policy_action \<Rightarrow> autonomy \<Rightarrow> sched \<Rightarrow> (aios_status \<times> autonomy \<times> sched) option" where
  "apply_sched_action now action a s =
     (case ai_task_get_priority (pa_action_id action) True s of
        (st, None) \<Rightarrow> Some (st, a, s)
      | (st, Some current) \<Rightarrow>
          if st \<noteq> AIOS_OK then Some (st, a, s)
          else
            let new_priority = clamp_priority (scast current + pa_delta_value action);
                a1 = a\<lparr>au_rollback := \<lparr>rc_valid = True, rc_target_subsys = pa_target_subsys action,
                        rc_action_id = pa_action_id action, rc_prev_priority = current\<rparr>\<rparr>
            in do { (st1, s1) \<leftarrow> ai_task_set_priority now (pa_action_id action) new_priority s; Some (st1, a1, s1) })"

definition apply_action ::
  "u64 \<Rightarrow> policy_action \<Rightarrow> autonomy \<Rightarrow> sched \<Rightarrow> (aios_status \<times> autonomy \<times> sched) option" where
  "apply_action now action a s =
     (if pa_target_subsys action = AUTONOMY_TARGET_SCHED then apply_sched_action now action a s
      else Some (AIOS_ERR_NOSYS, a, s))"

section \<open>Operations\<close>

definition autonomy_init :: "autonomy \<Rightarrow> aios_status \<times> autonomy" where
  "autonomy_init a =
     (AIOS_OK, a\<lparr>au_telemetry_head := 0, au_telemetry_count := 0, au_action_head := 0, au_action_tail := 0,
        au_action_count := 0, au_event_head := 0, au_event_count := 0, au_has_last_committed := False,
        au_rollback := \<lparr>rc_valid = False, rc_target_subsys = AUTONOMY_TARGET_UNKNOWN, rc_action_id = 0, rc_prev_priority = 0\<rparr>,
        au_stats := \<lparr>as_telemetry_samples = 0, as_actions_proposed = 0, as_actions_approved = 0, as_actions_committed = 0,
          as_actions_rejected = 0, as_rollbacks = 0, as_observation_only = True, as_safe_mode = False,
          as_action_queue_depth = 0, as_event_log_depth = 0\<rparr>\<rparr>)"

definition autonomy_collect_telemetry :: "u32 \<Rightarrow> u32 \<Rightarrow> u64 \<Rightarrow> tmm \<Rightarrow> sched \<Rightarrow> autonomy \<Rightarrow> autonomy" where
  "autonomy_collect_telemetry active_models active_accels now t s a =
     (let frame = live_frame now t s active_models active_accels;
          a1 = a\<lparr>au_telemetry_ring := (au_telemetry_ring a)(unat (au_telemetry_head a) := frame),
                 au_telemetry_head := (au_telemetry_head a + 1) mod AUTONOMY_TELEMETRY_CAP\<rparr>;
          a2 = (if au_telemetry_count a1 < AUTONOMY_TELEMETRY_CAP
                then a1\<lparr>au_telemetry_count := au_telemetry_count a1 + 1\<rparr> else a1)
      in a2\<lparr>au_stats := (au_stats a2)\<lparr>as_telemetry_samples := as_telemetry_samples (au_stats a2) + 1\<rparr>\<rparr>)"

definition autonomy_get_latest_telemetry :: "bool \<Rightarrow> autonomy \<Rightarrow> aios_status \<times> telemetry_frame option" where
  "autonomy_get_latest_telemetry has_out a =
     (if \<not> has_out then (AIOS_ERR_INVAL, None)
      else if au_telemetry_count a = 0 then (AIOS_ERR_INVAL, None)
      else let idx = (if au_telemetry_head a = 0 then AUTONOMY_TELEMETRY_CAP - 1 else au_telemetry_head a - 1)
           in (AIOS_OK, Some (au_telemetry_ring a (unat idx))))"

text \<open>The statistics and the log entry of a refusal.\<close>

definition reject_action :: "policy_action \<Rightarrow> autonomy_reason \<Rightarrow> autonomy \<Rightarrow> autonomy" where
  "reject_action action reason a =
     log_event (action\<lparr>pa_state := ACTION_STATE_REJECTED, pa_reason := reason\<rparr>)
       (a\<lparr>au_stats := (au_stats a)\<lparr>as_actions_rejected := as_actions_rejected (au_stats a) + 1\<rparr>\<rparr>)"

definition autonomy_action_propose ::
  "policy_action option \<Rightarrow> u64 \<Rightarrow> health \<Rightarrow> autonomy \<Rightarrow> aios_status \<times> autonomy" where
  "autonomy_action_propose action now h a0 =
     (case action of
        None \<Rightarrow> (AIOS_ERR_INVAL, a0)
      | Some act \<Rightarrow>
          let a = a0\<lparr>au_stats := (au_stats a0)\<lparr>as_actions_proposed := as_actions_proposed (au_stats a0) + 1\<rparr>\<rparr>;
              copy = act\<lparr>pa_ts_ns := now, pa_state := ACTION_STATE_PROPOSED, pa_reason := AUTONOMY_REASON_OK\<rparr>
          in if au_action_count a \<ge> AUTONOMY_ACTION_CAP
             then (AIOS_ERR_BUSY, reject_action copy AUTONOMY_REASON_QUEUE_FULL a)
             else if \<not> risk_level_valid (pa_risk_level copy)
             then (AIOS_ERR_INVAL, reject_action copy AUTONOMY_REASON_BAD_RISK a)
             else if \<not> autonomy_target_valid (pa_target_subsys copy)
             then (AIOS_ERR_INVAL, reject_action copy AUTONOMY_REASON_BAD_TARGET a)
             else if \<not> target_supported (pa_target_subsys copy)
             then (AIOS_ERR_NOSYS, reject_action copy AUTONOMY_REASON_UNSUPPORTED_TARGET a)
             else if \<not> delta_within_bounds copy
             then (AIOS_ERR_INVAL, reject_action copy AUTONOMY_REASON_BAD_DELTA a)
             else if \<not> risk_allowed (pa_risk_level copy) h a
             then (AIOS_ERR_PERM, reject_action copy AUTONOMY_REASON_MODE_BLOCKED a)
             else
               let approved = copy\<lparr>pa_state := ACTION_STATE_APPROVED, pa_reason := AUTONOMY_REASON_OK\<rparr>;
                   a1 = a\<lparr>au_action_queue := (au_action_queue a)(unat (au_action_tail a) := approved),
                          au_action_tail := (au_action_tail a + 1) mod AUTONOMY_ACTION_CAP,
                          au_action_count := au_action_count a + 1\<rparr>;
                   a2 = a1\<lparr>au_stats := (au_stats a1)\<lparr>as_actions_approved := as_actions_approved (au_stats a1) + 1,
                          as_action_queue_depth := au_action_count a1\<rparr>\<rparr>
               in (AIOS_OK, log_event approved a2))"

definition autonomy_action_propose_req ::
  "autonomy_action_req option \<Rightarrow> u64 \<Rightarrow> health \<Rightarrow> autonomy \<Rightarrow> aios_status \<times> autonomy" where
  "autonomy_action_propose_req req now h a =
     (case req of
        None \<Rightarrow> (AIOS_ERR_INVAL, a)
      | Some r \<Rightarrow>
          autonomy_action_propose (Some \<lparr>pa_action_id = rq_action_id r, pa_risk_level = rq_risk_level r,
            pa_target_subsys = rq_target_subsys r, pa_delta_value = rq_delta_value r, pa_ts_ns = 0,
            pa_state = ACTION_STATE_PROPOSED, pa_reason = AUTONOMY_REASON_OK\<rparr>) now h a)"

definition autonomy_action_rollback_last ::
  "u64 \<Rightarrow> u64 \<Rightarrow> autonomy \<Rightarrow> sched \<Rightarrow> (aios_status \<times> autonomy \<times> sched) option" where
  "autonomy_action_rollback_last now0 now1 a s =
     (if \<not> au_has_last_committed a then Some (AIOS_ERR_INVAL, a, s)
      else if \<not> rc_valid (au_rollback a) then Some (AIOS_ERR_INVAL, a, s)
      else do {
        (st, s1) \<leftarrow> (if rc_target_subsys (au_rollback a) = AUTONOMY_TARGET_SCHED
           then ai_task_set_priority now0 (rc_action_id (au_rollback a)) (rc_prev_priority (au_rollback a)) s
           else Some (AIOS_ERR_NOSYS, s));
        Some (if st \<noteq> AIOS_OK then (st, a, s1)
              else
                let last = (au_last_committed a)\<lparr>pa_state := ACTION_STATE_ROLLED_BACK, pa_reason := AUTONOMY_REASON_OK, pa_ts_ns := now1\<rparr>;
                    a1 = a\<lparr>au_last_committed := last,
                           au_stats := (au_stats a)\<lparr>as_rollbacks := as_rollbacks (au_stats a) + 1\<rparr>\<rparr>;
                    a2 = log_event last a1
                in (AIOS_OK, a2\<lparr>au_rollback := (au_rollback a2)\<lparr>rc_valid := False\<rparr>, au_has_last_committed := False\<rparr>, s1))
      })"

text \<open>Readings of the clock: before, in the scheduler, at the commit, after, and two for a rollback.\<close>

definition autonomy_action_commit_next ::
  "bool \<Rightarrow> (nat \<Rightarrow> u64) \<Rightarrow> tmm \<Rightarrow> u32 \<Rightarrow> autonomy \<Rightarrow> sched \<Rightarrow> (aios_status \<times> policy_eval option \<times> autonomy \<times> sched) option" where
  "autonomy_action_commit_next has_eval clk t accels a0 s =
     (if au_action_count a0 = 0 then Some (AIOS_ERR_INVAL, None, a0, s)
      else
        let action = au_action_queue a0 (unat (au_action_head a0));
            a1 = a0\<lparr>au_action_head := (au_action_head a0 + 1) mod AUTONOMY_ACTION_CAP, au_action_count := au_action_count a0 - 1\<rparr>;
            a = a1\<lparr>au_stats := (au_stats a1)\<lparr>as_action_queue_depth := au_action_count a1\<rparr>\<rparr>;
            before_frame = collect_live_telemetry (clk 0) t s accels
        in do {
          (apply_status, a2, s2) \<leftarrow> apply_action (clk 1) action a s;
          if apply_status \<noteq> AIOS_OK then
            let reason = (if \<not> autonomy_target_valid (pa_target_subsys action) then AUTONOMY_REASON_BAD_TARGET
                          else if autonomy_target_support (pa_target_subsys action) \<noteq> AUTONOMY_SUPPORT_APPLY
                          then AUTONOMY_REASON_UNSUPPORTED_TARGET else AUTONOMY_REASON_MODE_BLOCKED)
            in Some (apply_status, None, reject_action action reason a2, s2)
          else
            let committed = action\<lparr>pa_state := ACTION_STATE_COMMITTED, pa_reason := AUTONOMY_REASON_OK, pa_ts_ns := clk 2\<rparr>;
                a3 = a2\<lparr>au_last_committed := committed, au_has_last_committed := True,
                        au_stats := (au_stats a2)\<lparr>as_actions_committed := as_actions_committed (au_stats a2) + 1\<rparr>\<rparr>;
                after_frame = collect_live_telemetry (clk 3) t s2 accels;
                before_score = compute_eval_score before_frame;
                after_score = compute_eval_score after_frame;
                a4 = log_event committed a3
            in if \<not> has_eval then Some (AIOS_OK, None, a4, s2)
               else if after_score + 5000 < before_score then do {
                 (st, a5, s5) \<leftarrow> autonomy_action_rollback_last (clk 4) (clk 5) a4 s2;
                 Some (AIOS_OK, Some \<lparr>pe_before_score = before_score, pe_after_score = after_score,
                   pe_rollback_triggered = (st = AIOS_OK)\<rparr>, a5, s5)
               }
               else Some (AIOS_OK, Some \<lparr>pe_before_score = before_score, pe_after_score = after_score,
                   pe_rollback_triggered = False\<rparr>, a4, s2)
        })"

definition autonomy_get_last_event :: "bool \<Rightarrow> autonomy \<Rightarrow> aios_status \<times> autonomy_event option" where
  "autonomy_get_last_event has_out a =
     (if \<not> has_out then (AIOS_ERR_INVAL, None)
      else if au_event_count a = 0 then (AIOS_ERR_INVAL, None)
      else let idx = (if au_event_head a = 0 then AUTONOMY_EVENT_CAP - 1 else au_event_head a - 1)
           in (AIOS_OK, Some (au_event_log a (unat idx))))"

definition autonomy_set_observation_only :: "bool \<Rightarrow> autonomy \<Rightarrow> autonomy" where
  "autonomy_set_observation_only enabled a = a\<lparr>au_stats := (au_stats a)\<lparr>as_observation_only := enabled\<rparr>\<rparr>"

definition autonomy_set_safe_mode :: "bool \<Rightarrow> autonomy \<Rightarrow> autonomy" where
  "autonomy_set_safe_mode enabled a = a\<lparr>au_stats := (au_stats a)\<lparr>as_safe_mode := enabled\<rparr>\<rparr>"

definition autonomy_stats :: "bool \<Rightarrow> autonomy \<Rightarrow> autonomy_stat option" where
  "autonomy_stats has_out a =
     (if \<not> has_out then None
      else Some ((au_stats a)\<lparr>as_action_queue_depth := au_action_count a, as_event_log_depth := au_event_count a\<rparr>))"

end
