(* ===== verification/Autonomy_Correct.thy ===== *)
theory Autonomy_Correct
  imports Autonomy AI_Sched_Correct
begin

text \<open>
  Correctness of the control plane: the action ring is a queue of approved actions, and committing one changes the
  priority of one task by a bounded amount on a scheduler that stays in good order, and can be taken back.
\<close>

section \<open>Definitions\<close>

text \<open>The actions that wait in the ring, oldest first.\<close>

definition ring_list :: "(nat \<Rightarrow> 'a) \<Rightarrow> nat \<Rightarrow> nat \<Rightarrow> 'a list" where
  "ring_list q h c = map (\<lambda>k. q ((h + k) mod 128)) [0..<c]"

definition pending :: "autonomy \<Rightarrow> policy_action list" where
  "pending a = ring_list (au_action_queue a) (unat (au_action_head a)) (unat (au_action_count a))"

definition approved :: "policy_action \<Rightarrow> bool" where
  "approved x \<longleftrightarrow> pa_state x = ACTION_STATE_APPROVED \<and> pa_target_subsys x = AUTONOMY_TARGET_SCHED \<and>
     - 32 \<le> sint (pa_delta_value x) \<and> sint (pa_delta_value x) \<le> 32 \<and> unat (pa_risk_level x) \<le> 3"

definition autonomy_ok :: "autonomy \<Rightarrow> bool" where
  "autonomy_ok a \<longleftrightarrow>
     unat (au_action_head a) < 128 \<and> unat (au_action_count a) \<le> 128 \<and>
     unat (au_action_tail a) = (unat (au_action_head a) + unat (au_action_count a)) mod 128 \<and>
     (\<forall>x \<in> set (pending a). approved x) \<and>
     unat (au_telemetry_head a) < 512 \<and> unat (au_telemetry_count a) \<le> 512 \<and>
     unat (au_event_head a) < 256 \<and> unat (au_event_count a) \<le> 256"

text \<open>The states of the control plane, whatever the other subsystems do between its calls.\<close>

inductive autonomy_run :: "autonomy \<Rightarrow> bool" where
  init: "autonomy_init a0 = (st, a) \<Longrightarrow> autonomy_run a"
| collect: "autonomy_run a \<Longrightarrow> autonomy_run (autonomy_collect_telemetry models accels now t s a)"
| propose: "autonomy_run a \<Longrightarrow> autonomy_action_propose act now h a = (st, a') \<Longrightarrow> autonomy_run a'"
| propose_req: "autonomy_run a \<Longrightarrow> autonomy_action_propose_req req now h a = (st, a') \<Longrightarrow> autonomy_run a'"
| commit: "autonomy_run a \<Longrightarrow> autonomy_action_commit_next has_eval clk t accels a s = Some (st, ev, a', s') \<Longrightarrow> autonomy_run a'"
| rollback: "autonomy_run a \<Longrightarrow> autonomy_action_rollback_last now0 now1 a s = Some (st, a', s') \<Longrightarrow> autonomy_run a'"
| observation: "autonomy_run a \<Longrightarrow> autonomy_run (autonomy_set_observation_only b a)"
| safe_mode: "autonomy_run a \<Longrightarrow> autonomy_run (autonomy_set_safe_mode b a)"

text \<open>The priority of a task.\<close>

definition prio :: "sched \<Rightarrow> nat \<Rightarrow> 32 word" where
  "prio s i = sp_priority (at_sched (sc_tasks s i))"

definition same_but_links :: "sched \<Rightarrow> sched \<Rightarrow> bool" where
  "same_but_links s s' \<longleftrightarrow> (\<forall>x. at_sched (sc_tasks s' x) = at_sched (sc_tasks s x) \<and> at_id (sc_tasks s' x) = at_id (sc_tasks s x)) \<and>
     sc_next s' = sc_next s \<and> sc_stats s' = sc_stats s"

definition demo_reading :: "nat \<Rightarrow> u64" where
  "demo_reading j = of_nat (10 + j)"

definition demo_proposed :: autonomy where
  "demo_proposed = snd (autonomy_action_propose
     (Some (zero_action\<lparr>pa_action_id := 1, pa_target_subsys := AUTONOMY_TARGET_SCHED, pa_delta_value := - 10\<rparr>)) 5 g_health
     (autonomy_set_observation_only False (snd (autonomy_init autonomy_boot))))"

section \<open>The ring as a queue\<close>

lemma ring_index_neq:
  assumes "k < c" and "c < 128"
  shows "(h + k) mod 128 \<noteq> (h + c) mod (128 :: nat)"
proof
  assume "(h + k) mod 128 = (h + c) mod 128"
  then have "(h + c - (h + k)) mod 128 = 0" using assms by (metis mod_eq_dvd_iff_nat add_le_cancel_left dvd_imp_mod_0 less_imp_le_nat)
  then show False using assms by simp
qed

lemma ring_push:
  assumes "c < 128"
  shows "ring_list (q((h + c) mod 128 := x)) h (Suc c) = ring_list q h c @ [x]"
proof -
  have "(q((h + c) mod 128 := x)) ((h + k) mod 128) = q ((h + k) mod 128)" if "k < c" for k
    using ring_index_neq [OF that assms, of h] by simp
  then show ?thesis by (simp add: ring_list_def)
qed

lemma ring_pop:
  assumes "0 < c" and "h < 128"
  shows "ring_list q h c = q h # ring_list q ((h + 1) mod 128) (c - 1)"
proof -
  obtain c' where c: "c = Suc c'" using assms(1) gr0_implies_Suc by blast
  have "[0..<c] = 0 # map Suc [0..<c']" by (simp only: c upt_conv_Cons map_Suc_upt zero_less_Suc)
  then show ?thesis using assms(2) by (simp add: ring_list_def c mod_simps add.assoc)
qed

lemma unat_mod_inc:
  fixes w :: u32
  assumes "unat w < n" and "n < 2 ^ 31" and "unat m = n"
  shows "unat ((w + 1) mod m) = (unat w + 1) mod n"
  using assms by (simp add: unat_mod unat_add_no_wrap)

section \<open>The invariant\<close>

lemma log_event_fields [simp]:
  "au_action_queue (log_event x a) = au_action_queue a" "au_action_head (log_event x a) = au_action_head a"
  "au_action_tail (log_event x a) = au_action_tail a" "au_action_count (log_event x a) = au_action_count a"
  "au_telemetry_head (log_event x a) = au_telemetry_head a" "au_telemetry_count (log_event x a) = au_telemetry_count a"
  "au_rollback (log_event x a) = au_rollback a" "au_has_last_committed (log_event x a) = au_has_last_committed a"
  "au_last_committed (log_event x a) = au_last_committed a" "au_stats (log_event x a) = au_stats a"
  by (simp_all add: log_event_def Let_def)

lemma log_event_ok:
  assumes "autonomy_ok a"
  shows "autonomy_ok (log_event x a)"
proof -
  have e: "unat (au_event_head a) < 256" "unat (au_event_count a) \<le> 256" using assms by (simp_all add: autonomy_ok_def)
  have h: "unat ((au_event_head a + 1) mod AUTONOMY_EVENT_CAP) < 256"
    using unat_mod_inc [OF e(1), of AUTONOMY_EVENT_CAP] by simp
  have c: "unat (au_event_count a + 1) \<le> 256" if "au_event_count a < AUTONOMY_EVENT_CAP"
    using that by (simp add: word_less_nat_alt unat_add_no_wrap)
  have "unat (au_event_head (log_event x a)) < 256" "unat (au_event_count (log_event x a)) \<le> 256"
    using h c e(2) by (simp_all add: log_event_def Let_def)
  then show ?thesis using assms by (simp add: autonomy_ok_def pending_def)
qed

lemma autonomy_ok_cong:
  assumes "autonomy_ok a"
    and "au_action_queue b = au_action_queue a" "au_action_head b = au_action_head a" "au_action_tail b = au_action_tail a"
      "au_action_count b = au_action_count a" "au_telemetry_head b = au_telemetry_head a"
      "au_telemetry_count b = au_telemetry_count a" "au_event_head b = au_event_head a" "au_event_count b = au_event_count a"
  shows "autonomy_ok b"
  using assms by (simp add: autonomy_ok_def pending_def)

lemma reject_ok: "autonomy_ok a \<Longrightarrow> autonomy_ok (reject_action x r a)"
  unfolding reject_action_def by (rule log_event_ok) (erule autonomy_ok_cong; simp)

lemma collect_ok:
  assumes "autonomy_ok a"
  shows "autonomy_ok (autonomy_collect_telemetry models accels now t s a)"
proof -
  have e: "unat (au_telemetry_head a) < 512" "unat (au_telemetry_count a) \<le> 512" using assms by (simp_all add: autonomy_ok_def)
  have h: "unat ((au_telemetry_head a + 1) mod AUTONOMY_TELEMETRY_CAP) < 512"
    using unat_mod_inc [OF e(1), of AUTONOMY_TELEMETRY_CAP] by simp
  have c: "unat (au_telemetry_count a + 1) \<le> 512" if "au_telemetry_count a < AUTONOMY_TELEMETRY_CAP"
    using that by (simp add: word_less_nat_alt unat_add_no_wrap)
  show ?thesis
    using assms h c by (simp add: autonomy_collect_telemetry_def Let_def autonomy_ok_def pending_def)
qed

lemma commit_pop_ok:
  assumes "autonomy_ok a" and "au_action_count a \<noteq> 0"
  defines "b \<equiv> a\<lparr>au_action_head := (au_action_head a + 1) mod AUTONOMY_ACTION_CAP, au_action_count := au_action_count a - 1\<rparr>"
  shows "autonomy_ok b" and "pending a = au_action_queue a (unat (au_action_head a)) # pending b"
proof -
  have e: "unat (au_action_head a) < 128" "unat (au_action_count a) \<le> 128" using assms by (simp_all add: autonomy_ok_def)
  have h: "unat (au_action_head b) = (unat (au_action_head a) + 1) mod 128"
    using unat_mod_inc [OF e(1), of AUTONOMY_ACTION_CAP] by (simp add: b_def)
  have c: "unat (au_action_count b) = unat (au_action_count a) - 1" "0 < unat (au_action_count a)"
    using assms(2) by (simp_all add: b_def unat_minus_one unat_gt_0)
  show p: "pending a = au_action_queue a (unat (au_action_head a)) # pending b"
    using ring_pop [OF c(2) e(1)] h c(1) by (simp add: pending_def b_def)
  have "((unat (au_action_head a) + 1) mod 128 + (unat (au_action_count a) - 1)) mod 128 =
      (unat (au_action_head a) + 1 + (unat (au_action_count a) - 1)) mod 128" by (rule mod_add_left_eq)
  also have "\<dots> = (unat (au_action_head a) + unat (au_action_count a)) mod 128" using c(2) by simp
  finally have wrap: "((unat (au_action_head a) + 1) mod 128 + (unat (au_action_count a) - 1)) mod 128 =
      (unat (au_action_head a) + unat (au_action_count a)) mod 128" .
  then have "unat (au_action_tail b) = (unat (au_action_head b) + unat (au_action_count b)) mod 128"
    unfolding h c(1) wrap using assms(1) by (simp add: autonomy_ok_def b_def)
  then show "autonomy_ok b" using assms(1) h c e p by (simp add: autonomy_ok_def) (simp add: b_def)
qed

lemma target_supported_iff: "target_supported x \<longleftrightarrow> x = AUTONOMY_TARGET_SCHED"
  by (auto simp: target_supported_def autonomy_target_support_def autonomy_target_valid_def k_target_support_map_def)

text \<open>An accepted proposal joins the end of the queue, a refused one leaves the queue as it is.\<close>

lemma push_ok:
  assumes "autonomy_ok a" and "unat (au_action_count a) < 128" and "approved x"
    and "au_action_queue b = (au_action_queue a)(unat (au_action_tail a) := x)" and "au_action_head b = au_action_head a"
    and "au_action_tail b = (au_action_tail a + 1) mod AUTONOMY_ACTION_CAP" and "au_action_count b = au_action_count a + 1"
    and "au_telemetry_head b = au_telemetry_head a" "au_telemetry_count b = au_telemetry_count a"
      "au_event_head b = au_event_head a" "au_event_count b = au_event_count a"
  shows "autonomy_ok b" and "pending b = pending a @ [x]"
proof -
  let ?h = "unat (au_action_head a)" and ?c = "unat (au_action_count a)"
  have t: "unat (au_action_tail a) = (?h + ?c) mod 128" "?h < 128" using assms(1) by (simp_all add: autonomy_ok_def)
  have c: "unat (au_action_count b) = Suc ?c" using assms(2,7) by (simp add: unat_add_no_wrap)
  have "unat (au_action_tail a) < 128" using t(1) by simp
  then have "unat (au_action_tail b) = (unat (au_action_tail a) + 1) mod 128"
    using unat_mod_inc [of "au_action_tail a" 128 AUTONOMY_ACTION_CAP] assms(6) by simp
  also have "\<dots> = (?h + Suc ?c) mod 128" by (simp add: t(1) mod_Suc_eq)
  finally have tb: "unat (au_action_tail b) = (?h + Suc ?c) mod 128" .
  show p: "pending b = pending a @ [x]"
    using ring_push [OF assms(2), of "au_action_queue a" ?h x] assms(4,5) c t(1) by (simp add: pending_def)
  show "autonomy_ok b"
    using assms(1-3) assms(5) assms(8-11) t(2) c tb p by (simp add: autonomy_ok_def)
qed

lemma propose_cases:
  assumes "autonomy_ok a" and "autonomy_action_propose act now h a = (st, a')"
  shows "autonomy_ok a' \<and> (if st = AIOS_OK
    then \<exists>x y. act = Some x \<and> pending a' = pending a @ [y] \<and> approved y \<and> pa_action_id y = pa_action_id x \<and>
      pa_delta_value y = pa_delta_value x \<and> pa_risk_level y = pa_risk_level x \<and> risk_allowed (pa_risk_level x) h a
    else pending a' = pending a)"
proof (cases act)
  case None
  then show ?thesis using assms by (auto simp: autonomy_action_propose_def)
next
  case (Some x)
  let ?a = "a\<lparr>au_stats := (au_stats a)\<lparr>as_actions_proposed := as_actions_proposed (au_stats a) + 1\<rparr>\<rparr>"
  let ?x = "x\<lparr>pa_ts_ns := now, pa_state := ACTION_STATE_PROPOSED, pa_reason := AUTONOMY_REASON_OK\<rparr>"
  let ?y = "?x\<lparr>pa_state := ACTION_STATE_APPROVED, pa_reason := AUTONOMY_REASON_OK\<rparr>"
  have ok: "autonomy_ok ?a" and pd: "pending ?a = pending a"
    using assms(1) by (simp_all add: autonomy_ok_def pending_def)
  have allow: "risk_allowed r h ?a = risk_allowed r h a" for r by (simp add: risk_allowed_def Let_def)
  let ?good = "\<not> AUTONOMY_ACTION_CAP \<le> au_action_count ?a \<and> risk_level_valid (pa_risk_level ?x) \<and> autonomy_target_valid (pa_target_subsys ?x) \<and>
      target_supported (pa_target_subsys ?x) \<and> delta_within_bounds ?x \<and> risk_allowed (pa_risk_level ?x) h ?a"
  show ?thesis
  proof (cases ?good)
    case True
    have room: "unat (au_action_count ?a) < 128" using True by (simp add: word_le_nat_alt not_le)
    have app: "approved ?y"
    proof -
      have "target_supported (pa_target_subsys ?x)" "delta_within_bounds ?x" "risk_level_valid (pa_risk_level ?x)"
        using True by blast+
      then show ?thesis
        by (simp add: approved_def target_supported_iff delta_within_bounds_def risk_level_valid_def word_le_nat_alt)
    qed
    let ?b = "?a\<lparr>au_action_queue := (au_action_queue ?a)(unat (au_action_tail ?a) := ?y),
      au_action_tail := (au_action_tail ?a + 1) mod AUTONOMY_ACTION_CAP, au_action_count := au_action_count ?a + 1,
      au_stats := (au_stats ?a)\<lparr>as_actions_approved := as_actions_approved (au_stats ?a) + 1, as_action_queue_depth := au_action_count ?a + 1\<rparr>\<rparr>"
    have "autonomy_ok ?b" "pending ?b = pending ?a @ [?y]" using push_ok [OF ok room app, of ?b] by simp_all
    moreover have "st = AIOS_OK" "a' = log_event ?y ?b"
      using assms(2) Some True by (simp_all add: autonomy_action_propose_def Let_def)
    moreover have "pending (log_event ?y ?b) = pending ?b" by (simp add: pending_def)
    ultimately have ok': "autonomy_ok a'" and "pending a' = pending a @ [?y]" "st = AIOS_OK"
      using log_event_ok [of ?b ?y] pd by simp_all
    moreover have "risk_allowed (pa_risk_level x) h a" using True allow by simp
    ultimately have "\<exists>y. pending a' = pending a @ [y] \<and> approved y \<and> pa_action_id y = pa_action_id x \<and>
        pa_delta_value y = pa_delta_value x \<and> pa_risk_level y = pa_risk_level x \<and> risk_allowed (pa_risk_level x) h a"
      using app by (intro exI [of _ ?y]) simp
    then show ?thesis using Some ok' \<open>st = AIOS_OK\<close> by simp
  next
    case False
    then have "st \<noteq> AIOS_OK \<and> (\<exists>r. a' = reject_action ?x r ?a)"
      using assms(2) Some by (auto simp: autonomy_action_propose_def Let_def split: if_splits)
    then obtain r where "st \<noteq> AIOS_OK" "a' = reject_action ?x r ?a" by blast
    moreover have "pending (reject_action ?x r ?a) = pending ?a" by (simp add: reject_action_def pending_def)
    ultimately show ?thesis using reject_ok [OF ok] pd by simp
  qed
qed

lemma apply_action_fields:
  assumes "apply_action now x a s = Some (st, a', s')"
  shows "\<exists>rc. a' = a\<lparr>au_rollback := rc\<rparr>"
proof
  show "a' = a\<lparr>au_rollback := au_rollback a'\<rparr>"
    using assms
    by (auto simp: apply_action_def apply_sched_action_def Let_def split: option.splits if_splits prod.splits Option.bind_splits)
qed

lemma rollback_ok:
  assumes "autonomy_ok a" and "autonomy_action_rollback_last now0 now1 a s = Some (st, a', s')"
  shows "autonomy_ok a'" and "pending a' = pending a"
proof -
  let ?l = "(au_last_committed a)\<lparr>pa_state := ACTION_STATE_ROLLED_BACK, pa_reason := AUTONOMY_REASON_OK, pa_ts_ns := now1\<rparr>"
  let ?b = "a\<lparr>au_last_committed := ?l, au_stats := (au_stats a)\<lparr>as_rollbacks := as_rollbacks (au_stats a) + 1\<rparr>\<rparr>"
  have b: "autonomy_ok ?b" by (rule autonomy_ok_cong [OF assms(1)]) simp_all
  have "a' = a \<or> a' = (log_event ?l ?b)\<lparr>au_rollback := (au_rollback a)\<lparr>rc_valid := False\<rparr>, au_has_last_committed := False\<rparr>"
    using assms(2) by (auto simp: autonomy_action_rollback_last_def Let_def split: if_splits Option.bind_splits)
  then show "autonomy_ok a'" "pending a' = pending a"
    using assms(1) autonomy_ok_cong [OF log_event_ok [OF b, of ?l]] by (auto simp: pending_def)
qed

lemma commit_ok:
  assumes "autonomy_ok a" and "autonomy_action_commit_next has_eval clk t accels a s = Some (st, ev, a', s')"
  shows "autonomy_ok a'" and "pending a' = tl (pending a)"
proof -
  have "autonomy_ok a' \<and> pending a' = tl (pending a)"
  proof (cases "au_action_count a = 0")
    case True
    then show ?thesis using assms by (simp add: autonomy_action_commit_next_def pending_def ring_list_def)
  next
    case False
    let ?x = "au_action_queue a (unat (au_action_head a))"
    let ?b = "a\<lparr>au_action_head := (au_action_head a + 1) mod AUTONOMY_ACTION_CAP, au_action_count := au_action_count a - 1\<rparr>"
    let ?c = "?b\<lparr>au_stats := (au_stats ?b)\<lparr>as_action_queue_depth := au_action_count ?b\<rparr>\<rparr>"
    note pop = commit_pop_ok [OF assms(1) False]
    have c: "autonomy_ok ?c" "pending ?c = tl (pending a)"
      using autonomy_ok_cong [OF pop(1), of ?c] pop(2) by (simp_all add: pending_def)
    obtain st2 a2 s2 where ap: "apply_action (clk 1) ?x ?c s = Some (st2, a2, s2)"
      using assms(2) False by (auto simp: autonomy_action_commit_next_def Let_def split: Option.bind_splits)
    then obtain rc where a2: "a2 = ?c\<lparr>au_rollback := rc\<rparr>" using apply_action_fields by blast
    have ok2: "autonomy_ok a2" "pending a2 = tl (pending a)"
      using autonomy_ok_cong [OF c(1), of a2] c(2) by (simp_all add: a2 pending_def)
    let ?y = "?x\<lparr>pa_state := ACTION_STATE_COMMITTED, pa_reason := AUTONOMY_REASON_OK, pa_ts_ns := clk 2\<rparr>"
    let ?a3 = "a2\<lparr>au_last_committed := ?y, au_has_last_committed := True,
      au_stats := (au_stats a2)\<lparr>as_actions_committed := as_actions_committed (au_stats a2) + 1\<rparr>\<rparr>"
    have "autonomy_ok ?a3" by (rule autonomy_ok_cong [OF ok2(1)]) simp_all
    then have ok4: "autonomy_ok (log_event ?y ?a3)" "pending (log_event ?y ?a3) = tl (pending a)"
      using log_event_ok ok2(2) by (simp_all add: pending_def)
    have "(\<exists>r. a' = reject_action ?x r a2) \<or> a' = log_event ?y ?a3 \<or>
        (\<exists>st5 s5. autonomy_action_rollback_last (clk 4) (clk 5) (log_event ?y ?a3) s2 = Some (st5, a', s5))"
      using assms(2) False ap
      by (simp add: autonomy_action_commit_next_def Let_def split: if_splits Option.bind_splits prod.splits) blast+
    moreover have "pending (reject_action ?x r a2) = tl (pending a)" for r using ok2(2) by (simp add: reject_action_def pending_def)
    ultimately show ?thesis using ok4 reject_ok [OF ok2(1)] rollback_ok [OF ok4(1)] by auto
  qed
  then show "autonomy_ok a'" "pending a' = tl (pending a)" by simp_all
qed

lemma autonomy_run_ok: "autonomy_run a \<Longrightarrow> autonomy_ok a"
proof (induction rule: autonomy_run.induct)
  case (init a0 st a)
  then show ?case by (auto simp: autonomy_init_def autonomy_ok_def pending_def ring_list_def)
next
  case (collect a models accels now t s)
  then show ?case using collect_ok by blast
next
  case (propose a act now h st a')
  then show ?case using propose_cases by blast
next
  case (propose_req a req now h st a')
  then show ?case
    using propose_cases [OF propose_req.IH] by (auto simp: autonomy_action_propose_req_def split: option.splits)
next
  case (commit a has_eval clk t accels s st ev a' s')
  then show ?case using commit_ok(1) by blast
next
  case (rollback a now0 now1 s st a' s')
  then show ?case using rollback_ok(1) by blast
qed (erule autonomy_ok_cong; simp add: autonomy_set_observation_only_def autonomy_set_safe_mode_def)+

section \<open>Changing a priority\<close>

lemma upd_links [simp]:
  "at_sched (upd m r (at_next_update f) x) = at_sched (m x)" "at_sched (upd m r (at_prev_update f) x) = at_sched (m x)"
  "at_sched (upd_opt m o' (at_prev_update f) x) = at_sched (m x)"
  "at_id (upd m r (at_next_update f) x) = at_id (m x)" "at_id (upd m r (at_prev_update f) x) = at_id (m x)"
  "at_id (upd_opt m o' (at_prev_update f) x) = at_id (m x)"
  by (simp_all add: upd_def upd_opt_def split: option.split)

lemma dequeue_same: "same_but_links s (dequeue_task i s)"
  by (simp add: same_but_links_def dequeue_task_def Let_def split: option.split)

lemma link_same: "link_task i l s = Some s' \<Longrightarrow> same_but_links s s'"
  by (auto simp: same_but_links_def link_task_def Let_def split: option.splits if_splits Option.bind_splits)

lemma enqueue_same: "enqueue_task now i s = Some s' \<Longrightarrow> same_but_links s s'"
proof -
  assume "enqueue_task now i s = Some s'"
  then obtain s1 where "link_task i (task_level (sc_tasks s i)) s = Some s1"
    "s' = set_task i (\<lambda>t. t\<lparr>at_state := TASK_STATE_READY, at_last_ready_ns := now\<rparr>)
       (s1\<lparr>sc_sizes := (sc_sizes s1)(task_level (sc_tasks s i) := sc_sizes s1 (task_level (sc_tasks s i)) + 1)\<rparr>)"
    by (auto simp: enqueue_task_def Let_def split: Option.bind_splits)
  with link_same [OF this(1)] show ?thesis by (simp add: same_but_links_def set_task_def upd_def)
qed

lemma find_task_cong:
  assumes "sc_next s' = sc_next s" and "\<And>x. at_id (sc_tasks s' x) = at_id (sc_tasks s x)"
  shows "find_task tid s' = find_task tid s"
  using assms by (simp add: find_task_def)

lemma set_priority_effect:
  assumes inv: "sched_inv s fr" and i: "find_task tid s = Some i" "i \<notin> fr"
    and ok: "params_ok ((at_sched (sc_tasks s i))\<lparr>sp_priority := p\<rparr>)"
  shows "\<exists>s'. ai_task_set_priority now tid p s = Some (AIOS_OK, s') \<and> sched_inv s' fr \<and> sc_stats s' = sc_stats s \<and>
    (\<forall>tid. find_task tid s' = find_task tid s) \<and>
    (\<forall>j. at_sched (sc_tasks s' j) = (if j = i then (at_sched (sc_tasks s i))\<lparr>sp_priority := p\<rparr> else at_sched (sc_tasks s j)))"
proof -
  obtain st s' where sp: "ai_task_set_priority now tid p s = Some (st, s')" and inv': "sched_inv s' fr"
    using set_priority_inv [OF inv, of tid p now] i ok by auto
  let ?s1 = "if at_state (sc_tasks s i) = TASK_STATE_READY then dequeue_task i s else s"
  let ?s2 = "set_task i (at_sched_update (sp_priority_update (\<lambda>_. p))) ?s1"
  have s1: "same_but_links s ?s1" using dequeue_same by (simp add: same_but_links_def)
  have s2: "st = AIOS_OK" "same_but_links ?s2 s'"
    using sp i(1) enqueue_same [of now i ?s2 s']
    by (auto simp: ai_task_set_priority_def Let_def same_but_links_def split: if_splits Option.bind_splits)
  have sched2: "at_sched (sc_tasks ?s2 j) = (if j = i then (at_sched (sc_tasks s i))\<lparr>sp_priority := p\<rparr> else at_sched (sc_tasks s j))" for j
    using s1 by (simp add: set_task_def upd_def same_but_links_def)
  have id2: "at_id (sc_tasks ?s2 j) = at_id (sc_tasks s j)" "sc_next ?s2 = sc_next s" "sc_stats ?s2 = sc_stats s" for j
    using s1 by (simp_all add: set_task_def upd_def same_but_links_def)
  have at: "at_sched (sc_tasks s' j) = at_sched (sc_tasks ?s2 j)" "at_id (sc_tasks s' j) = at_id (sc_tasks s j)" for j
    using s2(2) id2(1) by (simp_all add: same_but_links_def)
  have "sc_next s' = sc_next s" "sc_stats s' = sc_stats s" using s2(2) id2(2,3) by (simp_all only: same_but_links_def)
  moreover from this(1) have "\<forall>tid. find_task tid s' = find_task tid s" using find_task_cong at(2) by blast
  ultimately show ?thesis using sp s2(1) inv' at(1) sched2 by (intro exI [of _ s']) simp
qed

section \<open>Committing and taking back\<close>

lemma sint_of_int: "- (2 ^ 31) \<le> k \<Longrightarrow> k < 2 ^ 31 \<Longrightarrow> sint (word_of_int k :: 32 word) = k"
  by (simp add: signed_of_int signed_take_bit_int_eq_self)

lemma sint_scast_up: "sint (scast (w :: 32 word) :: 64 word) = sint w"
  using sint_ge [of w] sint_lt [of w] by (simp add: signed_scast_eq signed_take_bit_int_eq_self)

lemma uint_small:
  assumes "0 \<le> sint (v :: 64 word)" and "sint v \<le> 255"
  shows "uint v = sint v"
proof -
  have k: "uint (word_of_int k :: 64 word) = k" if "0 \<le> k" "k \<le> 255" for k
    using that by (simp add: unsigned_of_int take_bit_int_eq_self)
  show ?thesis using k [OF assms] by simp
qed

lemma ucast_small:
  assumes "0 \<le> sint (v :: 64 word)" and "sint v \<le> 255"
  shows "sint (ucast v :: 32 word) = sint v"
proof -
  have "(ucast v :: 32 word) = word_of_int (uint v)" by simp
  then have "(ucast v :: 32 word) = word_of_int (sint v)" by (simp only: uint_small [OF assms])
  then have "sint (ucast v :: 32 word) = sint (word_of_int (sint v) :: 32 word)" by (rule arg_cong)
  also have "\<dots> = sint v" using assms by (intro sint_of_int) simp_all
  finally show ?thesis .
qed

lemma clamp_meaning:
  fixes cur :: "32 word" and d :: "64 word"
  assumes "- 32 \<le> sint d" and "sint d \<le> 32"
  shows "sint (clamp_priority (scast cur + d)) = max 0 (min 255 (sint cur + sint d))"
proof -
  have "- (2 ^ 31) \<le> sint cur" "sint cur < 2 ^ 31" using sint_ge [of cur] sint_lt [of cur] by simp_all
  then have s: "sint (scast cur + d) = sint cur + sint d"
    using assms by (simp add: sint_word_ariths sint_scast_up signed_take_bit_int_eq_self)
  show ?thesis
    using ucast_small [of "scast cur + d"] by (auto simp: clamp_priority_def s)
qed

text \<open>A clamped priority never makes the weight of a task zero.\<close>

lemma clamp_params_ok:
  assumes "params_ok p" and "sint q = max 0 (min 255 k)"
  shows "params_ok (p\<lparr>sp_priority := q\<rparr>)"
proof -
  let ?w = "scast q :: u64"
  have "0 \<le> sint q" "sint q \<le> 255" using assms(2) by simp_all
  then have "uint ?w = sint q" using uint_small [of ?w] unfolding sint_scast_up by blast
  then have small: "unat ?w \<le> 255" using \<open>sint q \<le> 255\<close> by (simp only: unat_eq_nat_uint)
  have nz: "b + ?w \<noteq> 0" if "0 < unat b" "unat b \<le> 128" for b :: u64
  proof
    assume "b + ?w = 0"
    then have "unat (b + ?w) = 0" by (simp only: unsigned_0)
    moreover have "unat (b + ?w) = unat b + unat ?w" using that small by (intro unat_add_no_wrap) simp
    ultimately show False using that by linarith
  qed
  have "1 + ?w \<noteq> 0" "4 + ?w \<noteq> 0" "16 + ?w \<noteq> 0" "32 + ?w \<noteq> 0" "64 + ?w \<noteq> 0" "128 + ?w \<noteq> 0"
    by (intro nz; simp)+
  moreover have "calc_weight (p\<lparr>sp_priority := q\<rparr>) \<in> {1 + ?w, 4 + ?w, 16 + ?w, 32 + ?w, 64 + ?w, 128 + ?w}"
    by (simp add: calc_weight_def Let_def)
  ultimately have "calc_weight (p\<lparr>sp_priority := q\<rparr>) \<noteq> 0" by auto
  then show ?thesis using assms(1) by (simp add: params_ok_def)
qed

text \<open>The score is at most a million, so adding the tolerance to it does not wrap.\<close>

lemma sub_min_bounds:
  fixes a b c :: u64
  assumes "lo + unat c \<le> unat a" and "unat a \<le> hi"
  shows "lo \<le> unat (a - min b c)" and "unat (a - min b c) \<le> hi"
proof -
  have m: "unat (min b c) \<le> unat c" by (simp add: min_def word_le_nat_alt)
  then have "unat (a - min b c) = unat a - unat (min b c)" using assms by (intro unat_sub) (simp add: word_le_nat_alt)
  then show "lo \<le> unat (a - min b c)" "unat (a - min b c) \<le> hi" using m assms by simp_all
qed

lemma score_bound: "unat (compute_eval_score f) \<le> 1000000"
proof -
  let ?a = "1000000 - min (ms_fragmentation (tf_mem f) * 500) 250000 :: u64"
  let ?b = "?a - min (ss_failed_tasks (tf_sched f) * 10000) 250000"
  let ?c = "?b - min (ss_avg_wait_ns (tf_sched f) div 1000) 250000"
  have a: "750000 \<le> unat ?a" "unat ?a \<le> 1000000"
    using sub_min_bounds [where lo = 750000 and c = 250000 and a = 1000000 and hi = 1000000] by simp_all
  have b: "500000 \<le> unat ?b" "unat ?b \<le> 1000000"
    using sub_min_bounds [where lo = 500000 and c = 250000 and a = ?a and hi = 1000000] a by simp_all
  have c: "250000 \<le> unat ?c" "unat ?c \<le> 1000000"
    using sub_min_bounds [where lo = 250000 and c = 250000 and a = ?b and hi = 1000000] b by simp_all
  have "unat (?c - min (ss_active_tasks (tf_sched f) * 1000) 100000) \<le> 1000000"
    by (rule sub_min_bounds(2) [where lo = 0]) (use c in simp_all)
  then show ?thesis by (simp add: compute_eval_score_def Let_def)
qed

lemma score_no_drop: "\<not> compute_eval_score f + 5000 < compute_eval_score f"
proof -
  have "unat (compute_eval_score f + 5000) = unat (compute_eval_score f) + 5000"
    using score_bound [of f] by (subst unat_add_no_wrap) simp_all
  then show ?thesis by (simp add: word_less_nat_alt)
qed

lemma score_live: "compute_eval_score (collect_live_telemetry now t s accels) = compute_eval_score (collect_live_telemetry now' t s' accels)"
  if "sc_stats s = sc_stats s'"
  using that by (simp add: compute_eval_score_def collect_live_telemetry_def live_frame_def)

lemma pending_head:
  assumes "autonomy_ok a" and "au_action_count a \<noteq> 0"
  shows "hd (pending a) = au_action_queue a (unat (au_action_head a))" and "hd (pending a) \<in> set (pending a)"
  using commit_pop_ok(2) [OF assms] by simp_all

text \<open>The commit of the oldest action on a scheduler in good order.\<close>

lemma apply_effect:
  assumes inv: "sched_inv s fr" and x: "approved x" and i: "find_task (pa_action_id x) s = Some i" "i \<notin> fr"
  shows "\<exists>s'. apply_action now x a s = Some (AIOS_OK,
      a\<lparr>au_rollback := \<lparr>rc_valid = True, rc_target_subsys = AUTONOMY_TARGET_SCHED, rc_action_id = pa_action_id x, rc_prev_priority = prio s i\<rparr>\<rparr>, s') \<and>
    ai_task_set_priority now (pa_action_id x) (clamp_priority (scast (prio s i) + pa_delta_value x)) s = Some (AIOS_OK, s') \<and>
    params_ok ((at_sched (sc_tasks s i))\<lparr>sp_priority := clamp_priority (scast (prio s i) + pa_delta_value x)\<rparr>) \<and>
    sched_inv s' fr \<and> sc_stats s' = sc_stats s \<and> (\<forall>tid. find_task tid s' = find_task tid s) \<and>
    sint (prio s' i) = max 0 (min 255 (sint (prio s i) + sint (pa_delta_value x))) \<and> (\<forall>j. j \<noteq> i \<longrightarrow> prio s' j = prio s j) \<and>
    (\<forall>j. (at_sched (sc_tasks s' j))\<lparr>sp_priority := 0\<rparr> = (at_sched (sc_tasks s j))\<lparr>sp_priority := 0\<rparr>)"
proof -
  let ?p = "clamp_priority (scast (prio s i) + pa_delta_value x)"
  have p: "sint ?p = max 0 (min 255 (sint (prio s i) + sint (pa_delta_value x)))"
    using x clamp_meaning [of "pa_delta_value x" "prio s i"] by (simp add: approved_def)
  have "i < unat (sc_next s)" using find_task_SomeD(1) [OF i(1)] .
  then have po: "params_ok ((at_sched (sc_tasks s i))\<lparr>sp_priority := ?p\<rparr>)"
    using clamp_params_ok [OF inv_params [OF inv] p] by simp
  obtain s' where s': "ai_task_set_priority now (pa_action_id x) ?p s = Some (AIOS_OK, s')" "sched_inv s' fr" "sc_stats s' = sc_stats s"
    "\<forall>tid. find_task tid s' = find_task tid s"
    "\<forall>j. at_sched (sc_tasks s' j) = (if j = i then (at_sched (sc_tasks s i))\<lparr>sp_priority := ?p\<rparr> else at_sched (sc_tasks s j))"
    using set_priority_effect [OF inv i po, of now] by blast
  have "apply_action now x a s = Some (AIOS_OK, a\<lparr>au_rollback := \<lparr>rc_valid = True, rc_target_subsys = AUTONOMY_TARGET_SCHED,
      rc_action_id = pa_action_id x, rc_prev_priority = prio s i\<rparr>\<rparr>, s')"
    using x i(1) s'(1)
    by (simp add: apply_action_def approved_def apply_sched_action_def ai_task_get_priority_def prio_def Let_def)
  then show ?thesis using s' po p by (intro exI [of _ s']) (simp add: prio_def)
qed

lemma commit_effect:
  assumes ok: "autonomy_ok a" and inv: "sched_inv s fr" and c: "au_action_count a \<noteq> 0"
    and i: "find_task (pa_action_id (hd (pending a))) s = Some i" "i \<notin> fr"
  shows "\<exists>ev a' s'. autonomy_action_commit_next has_eval clk t accels a s = Some (AIOS_OK, ev, a', s') \<and>
    (\<forall>e. ev = Some e \<longrightarrow> pe_before_score e = pe_after_score e \<and> \<not> pe_rollback_triggered e) \<and>
    au_has_last_committed a' \<and> au_rollback a' = \<lparr>rc_valid = True, rc_target_subsys = AUTONOMY_TARGET_SCHED,
      rc_action_id = pa_action_id (hd (pending a)), rc_prev_priority = prio s i\<rparr> \<and>
    (\<exists>now a1 a2. apply_action now (hd (pending a)) a1 s = Some (AIOS_OK, a2, s'))"
proof -
  let ?x = "hd (pending a)"
  let ?b = "a\<lparr>au_action_head := (au_action_head a + 1) mod AUTONOMY_ACTION_CAP, au_action_count := au_action_count a - 1,
    au_stats := (au_stats a)\<lparr>as_action_queue_depth := au_action_count a - 1\<rparr>\<rparr>"
  note hd = pending_head [OF ok c]
  have app: "approved ?x" using ok hd(2) by (simp add: autonomy_ok_def)
  obtain s' where ap: "apply_action (clk 1) ?x ?b s = Some (AIOS_OK, ?b\<lparr>au_rollback := \<lparr>rc_valid = True,
      rc_target_subsys = AUTONOMY_TARGET_SCHED, rc_action_id = pa_action_id ?x, rc_prev_priority = prio s i\<rparr>\<rparr>, s')"
    and st: "sc_stats s' = sc_stats s"
    using apply_effect [OF inv app i, of "clk 1" ?b] by blast
  have score: "compute_eval_score (collect_live_telemetry (clk 3) t s' accels) = compute_eval_score (collect_live_telemetry (clk 0) t s accels)"
    using score_live [OF st] .
  let ?y = "?x\<lparr>pa_state := ACTION_STATE_COMMITTED, pa_reason := AUTONOMY_REASON_OK, pa_ts_ns := clk 2\<rparr>"
  let ?rc = "\<lparr>rc_valid = True, rc_target_subsys = AUTONOMY_TARGET_SCHED, rc_action_id = pa_action_id ?x, rc_prev_priority = prio s i\<rparr>"
  let ?a' = "log_event ?y (?b\<lparr>au_rollback := ?rc, au_last_committed := ?y, au_has_last_committed := True,
    au_stats := (au_stats ?b)\<lparr>as_actions_committed := as_actions_committed (au_stats ?b) + 1\<rparr>\<rparr>)"
  let ?sc = "compute_eval_score (collect_live_telemetry (clk 0) t s accels)"
  let ?ev = "if has_eval then Some \<lparr>pe_before_score = ?sc, pe_after_score = ?sc, pe_rollback_triggered = False\<rparr> else None"
  have "autonomy_action_commit_next has_eval clk t accels a s = Some (AIOS_OK, ?ev, ?a', s')"
    using c ap score score_no_drop [of "collect_live_telemetry (clk 0) t s accels"] hd(1)
    by (simp add: autonomy_action_commit_next_def Let_def)
  then show ?thesis using ap by (intro exI [of _ ?ev] exI [of _ ?a'] exI [of _ s']) auto
qed

lemma params_restore:
  assumes "p\<lparr>sp_priority := 0\<rparr> = q\<lparr>sp_priority := 0\<rparr>"
  shows "p\<lparr>sp_priority := sp_priority q\<rparr> = (q :: sched_params)"
  using arg_cong [OF assms, of "sp_priority_update (\<lambda>_. sp_priority q)"] by simp

lemma rollback_effect:
  assumes run: "sched_run s fr"
    and ctx: "au_has_last_committed a" "au_rollback a = \<lparr>rc_valid = True, rc_target_subsys = AUTONOMY_TARGET_SCHED, rc_action_id = tid, rc_prev_priority = p\<rparr>"
    and i: "find_task tid s = Some i" "i \<notin> fr" and po: "params_ok ((at_sched (sc_tasks s i))\<lparr>sp_priority := p\<rparr>)"
  shows "\<exists>a' s'. autonomy_action_rollback_last now0 now1 a s = Some (AIOS_OK, a', s') \<and> sched_run s' fr \<and> \<not> au_has_last_committed a' \<and>
    (\<forall>j. at_sched (sc_tasks s' j) = (if j = i then (at_sched (sc_tasks s i))\<lparr>sp_priority := p\<rparr> else at_sched (sc_tasks s j)))"
proof -
  obtain s' where s': "ai_task_set_priority now0 tid p s = Some (AIOS_OK, s')"
    "\<forall>j. at_sched (sc_tasks s' j) = (if j = i then (at_sched (sc_tasks s i))\<lparr>sp_priority := p\<rparr> else at_sched (sc_tasks s j))"
    using set_priority_effect [OF sched_run_inv [OF run] i po, of now0] by blast
  moreover have "sched_run s' fr" by (rule sched_run.set_priority [OF run _ s'(1)]) (use i po in simp)
  moreover have "\<exists>a'. autonomy_action_rollback_last now0 now1 a s = Some (AIOS_OK, a', s') \<and> \<not> au_has_last_committed a'"
    using ctx s'(1) by (simp add: autonomy_action_rollback_last_def Let_def)
  ultimately show ?thesis by blast
qed

text \<open>
  C40: Autonomy is bounded and reversible.  In every state of the control plane, on a scheduler
  in good order, committing the oldest approved action on a submitted task succeeds.  It
  adds the delta of the action, of size at most 32, to the priority of that task, clamped to 0..255, and changes
  nothing else of any task's scheduling parameters, leaves the scheduler in good order and removes exactly that action from the queue.
  Taking the commit back then succeeds, gives every task its old scheduling parameters (not its place in the queue), and cannot be done twice.  The
  evaluation around the commit compares a state of the statistics with itself: the two scores are equal and
  the automatic rollback is never triggered.
\<close>

theorem autonomy_commit_bounded:
  assumes "autonomy_run a" and "sched_run s fr" and "au_action_count a \<noteq> 0"
    and "find_task (pa_action_id (hd (pending a))) s = Some i" and "i \<notin> fr"
  defines "d \<equiv> sint (pa_delta_value (hd (pending a)))"
  shows "\<exists>ev a' s'. autonomy_action_commit_next has_eval clk t accels a s = Some (AIOS_OK, ev, a', s') \<and>
    sched_run s' fr \<and> pending a' = tl (pending a) \<and> - 32 \<le> d \<and> d \<le> 32 \<and>
    sint (prio s' i) = max 0 (min 255 (sint (prio s i) + d)) \<and> (\<forall>j. j \<noteq> i \<longrightarrow> prio s' j = prio s j) \<and>
    (\<forall>j. (at_sched (sc_tasks s' j))\<lparr>sp_priority := 0\<rparr> = (at_sched (sc_tasks s j))\<lparr>sp_priority := 0\<rparr>) \<and>
    (\<forall>e. ev = Some e \<longrightarrow> pe_before_score e = pe_after_score e \<and> \<not> pe_rollback_triggered e) \<and>
    (\<exists>a'' s''. autonomy_action_rollback_last now0 now1 a' s' = Some (AIOS_OK, a'', s'') \<and> sched_run s'' fr \<and>
       (\<forall>j. at_sched (sc_tasks s'' j) = at_sched (sc_tasks s j)) \<and>
       autonomy_action_rollback_last now0 now1 a'' s'' = Some (AIOS_ERR_INVAL, a'', s''))"
proof -
  let ?x = "hd (pending a)"
  have ok: "autonomy_ok a" by (rule autonomy_run_ok [OF assms(1)])
  have inv: "sched_inv s fr" by (rule sched_run_inv [OF assms(2)])
  have app: "approved ?x" using ok pending_head(2) [OF ok assms(3)] by (simp add: autonomy_ok_def)
  from commit_effect [OF ok inv assms(3-5), of has_eval clk t accels] obtain ev a' s' now a1 a2 where
    com: "autonomy_action_commit_next has_eval clk t accels a s = Some (AIOS_OK, ev, a', s')"
    and ev: "\<forall>e. ev = Some e \<longrightarrow> pe_before_score e = pe_after_score e \<and> \<not> pe_rollback_triggered e"
    and ctx: "au_has_last_committed a'" "au_rollback a' = \<lparr>rc_valid = True, rc_target_subsys = AUTONOMY_TARGET_SCHED,
      rc_action_id = pa_action_id ?x, rc_prev_priority = prio s i\<rparr>"
    and apx: "apply_action now ?x a1 s = Some (AIOS_OK, a2, s')" by blast
  let ?p = "clamp_priority (scast (prio s i) + pa_delta_value ?x)"
  from apply_effect [OF inv app assms(4,5), of now a1] apx have
    sp: "ai_task_set_priority now (pa_action_id ?x) ?p s = Some (AIOS_OK, s')"
    and po: "params_ok ((at_sched (sc_tasks s i))\<lparr>sp_priority := ?p\<rparr>)"
    and inv': "sched_inv s' fr" and ft: "\<forall>tid. find_task tid s' = find_task tid s"
    and pr: "sint (prio s' i) = max 0 (min 255 (sint (prio s i) + d))" "\<forall>j. j \<noteq> i \<longrightarrow> prio s' j = prio s j"
    and rest: "\<forall>j. (at_sched (sc_tasks s' j))\<lparr>sp_priority := 0\<rparr> = (at_sched (sc_tasks s j))\<lparr>sp_priority := 0\<rparr>"
    by (auto simp: d_def)
  have run': "sched_run s' fr" by (rule sched_run.set_priority [OF assms(2) _ sp]) (use assms(4,5) po in simp)
  have old: "(at_sched (sc_tasks s' j))\<lparr>sp_priority := prio s j\<rparr> = at_sched (sc_tasks s j)" for j
    using rest by (simp add: prio_def params_restore)
  have i': "find_task (pa_action_id ?x) s' = Some i" using ft assms(4) by simp
  have "params_ok (at_sched (sc_tasks s i))" using inv_params [OF inv find_task_SomeD(1) [OF assms(4)]] .
  then have po': "params_ok ((at_sched (sc_tasks s' i))\<lparr>sp_priority := prio s i\<rparr>)" by (simp only: old)
  obtain a'' s'' where rb: "autonomy_action_rollback_last now0 now1 a' s' = Some (AIOS_OK, a'', s'')" "sched_run s'' fr"
      "\<not> au_has_last_committed a''"
    "\<forall>j. at_sched (sc_tasks s'' j) = (if j = i then (at_sched (sc_tasks s' i))\<lparr>sp_priority := prio s i\<rparr> else at_sched (sc_tasks s' j))"
    using rollback_effect [OF run' ctx i' assms(5) po', of now0 now1] by blast
  have all: "at_sched (sc_tasks s'' j) = at_sched (sc_tasks s j)" for j
  proof (cases "j = i")
    case False
    then have "prio s' j = prio s j" using pr(2) by blast
    then have "(at_sched (sc_tasks s' j))\<lparr>sp_priority := prio s j\<rparr> = at_sched (sc_tasks s' j)" by (simp add: prio_def)
    then show ?thesis using rb(4) old [of j] False by simp
  qed (use rb(4) old in simp)
  have again: "autonomy_action_rollback_last now0 now1 a'' s'' = Some (AIOS_ERR_INVAL, a'', s'')"
    using rb(3) by (simp add: autonomy_action_rollback_last_def)
  have "- 32 \<le> d" "d \<le> 32" using app by (simp_all add: d_def approved_def)
  with com ev run' pr rest commit_ok(2) [OF ok com] rb(1,2) all again show ?thesis by blast
qed

section \<open>An action on a waiting task\<close>

lemma demo_proposed_run: "autonomy_run demo_proposed"
proof -
  have "autonomy_run (snd (autonomy_init autonomy_boot))"
    by (rule autonomy_run.init [OF surjective_pairing])
  then have "autonomy_run (autonomy_set_observation_only False (snd (autonomy_init autonomy_boot)))"
    by (rule autonomy_run.observation)
  then show ?thesis unfolding demo_proposed_def by (rule autonomy_run.propose [OF _ surjective_pairing])
qed

lemma demo_proposed_values:
  "au_action_count demo_proposed \<noteq> 0" "find_task (pa_action_id (hd (pending demo_proposed))) one_task = Some 0"
  "sint (pa_delta_value (hd (pending demo_proposed))) = - 10" "sint (prio one_task 0) = 32"
  by code_simp+

theorem autonomy_commit_bounded_witness:
  "\<exists>a s ev a' s'. autonomy_action_commit_next True demo_reading tmm_boot 1 a s = Some (AIOS_OK, ev, a', s') \<and>
     sint (prio s 0) = 32 \<and> sint (prio s' 0) = 22 \<and>
     (\<exists>a'' s''. autonomy_action_rollback_last 8 9 a' s' = Some (AIOS_OK, a'', s'') \<and> prio s'' 0 = prio s 0)"
proof -
  from autonomy_commit_bounded [OF demo_proposed_run two_tasks_run(1) demo_proposed_values(1,2), of True demo_reading tmm_boot 1 8 9]
  obtain ev a' s' where
    "autonomy_action_commit_next True demo_reading tmm_boot 1 demo_proposed one_task = Some (AIOS_OK, ev, a', s')"
    "sint (prio s' 0) = max 0 (min 255 (sint (prio one_task 0) + sint (pa_delta_value (hd (pending demo_proposed)))))"
    "\<exists>a'' s''. autonomy_action_rollback_last 8 9 a' s' = Some (AIOS_OK, a'', s'') \<and>
       (\<forall>j. at_sched (sc_tasks s'' j) = at_sched (sc_tasks one_task j))" by auto
  then show ?thesis
    using demo_proposed_values(3,4) by (intro exI [of _ demo_proposed] exI [of _ one_task] exI [of _ ev] exI [of _ a'] exI [of _ s']) (auto simp: prio_def)
qed

end
