(* ===== verification/Spec2Isabelle.thy ===== *)
theory Spec2Isabelle
  imports Heap_Correct Tensor_MM_Correct Memory_Fabric_Correct AI_Sched_Misuse User_Access Elf_Correct Pipeline_Correct Autonomy_Correct
begin

text \<open>
  \<^bold>\<open>A verification library for the AIOS kernel.\<close>  The kernel under \<^verbatim>\<open>src/kernel\<close> is a freestanding
  x86-64 program in C.  It boots into one address space, lays out its memory, starts a
  scheduler for AI workloads and a set of runtime services, and loads a small ELF program into a fixed
  user window.  This development models the components whose correctness is a matter of data structures,
  arithmetic and policy, as functions on explicit states, and proves what they promise.

  \<^bold>\<open>The parts and how they interact.\<close>
  \<^item> The kernel heap serves all small allocations.  The tensor memory manager owns the large pools and
    must stay clear of the user window.
  \<^item> The memory fabric shares tensors between domains; it holds one reference on a
    tensor for every active window on it.
  \<^item> The scheduler orders tasks by policy and virtual runtime.  The autonomy control plane proposes and
    commits bounded changes of task priorities, and reads the statistics of the tensor manager and the scheduler.
  \<^item> The health registry summarises the state of the subsystems.  The NodeBit gate decides whether a
    node may use a capability and consults the registry; the pipelines ask the gate before every change.
  \<^item> The ELF loader and the user-access boundary move bytes between the kernel and the user window
    through the memory and string routines.

  \<^bold>\<open>Theories and the code they model.\<close>
  \<^item> \<open>Prelude\<close>: integer types, status codes and helpers of \<^verbatim>\<open>include/kernel/types.h\<close>, and the generic
    lemmas on words, lists and options that the components share.
  \<^item> \<open>Linked_List\<close>: doubly linked lists over a store of nodes, with the locale \<open>linked_nodes\<close>.  The heap, the
    free lists of the tensor manager and the run queues of the scheduler interpret it on their own records.
  \<^item> \<open>Heap\<close>, \<open>Heap_Correct\<close>: \<^verbatim>\<open>mm/heap.c\<close> and the test-and-set lock of \<^verbatim>\<open>include/kernel/spinlock.h\<close>.  The
    state \<open>heap\<close> holds the pool, the block chain and the statistics; \<open>kmalloc\<close>, \<open>kfree\<close> and
    the self test are the functions of the same names.
  \<^item> \<open>Tensor_MM\<close>: \<^verbatim>\<open>mm/tensor_mm.c\<close>, with the state \<open>tmm\<close>.  \<open>Tensor_MM_Spec\<close> states the invariant and the
    reachable states; \<open>Tensor_MM_Lists\<close>, \<open>Tensor_MM_Ops\<close> and \<open>Tensor_MM_Init\<close> prove that lists, operations and
    initialisation keep it; \<open>Tensor_MM_Correct\<close> holds the properties.  \<open>Tensor_Refs\<close> is the
    reference-count interface \<open>tensor_refs\<close> its clients rely on.
  \<^item> \<open>Memory_Fabric\<close>, \<open>Memory_Fabric_Inv\<close>, \<open>Memory_Fabric_Correct\<close>: \<^verbatim>\<open>mm/memory_fabric.c\<close>, a client of
    \<open>tensor_refs\<close>.
  \<^item> \<open>AI_Sched\<close>, \<open>AI_Sched_Inv\<close>, \<open>AI_Sched_Correct\<close>: \<^verbatim>\<open>sched/ai_sched.c\<close>, with the state \<open>sched\<close>.
    \<open>AI_Sched_Misuse\<close> shows what two calls outside the discipline do to the queues.
  \<^item> \<open>Kernel_String\<close>: \<^verbatim>\<open>lib/string.c\<close> on a memory of 64-bit addresses and bytes.
  \<^item> \<open>User_Access\<close>: \<^verbatim>\<open>core/user_access.c\<close>.  \<open>Elf_Loader\<close>, \<open>Elf_Correct\<close>: \<^verbatim>\<open>core/elf_loader.c\<close>.
  \<^item> \<open>Health\<close>: \<^verbatim>\<open>core/health.c\<close>.  \<open>Nodebit\<close>, \<open>Nodebit_Correct\<close>: \<^verbatim>\<open>runtime/nodebit.c\<close>, which provides the interface
    \<open>policy_gate\<close>.  \<open>Node_Pipeline\<close>, \<open>Pipeline_Correct\<close>: \<^verbatim>\<open>runtime/node_pipeline.c\<close>, its client.
  \<^item> \<open>Autonomy\<close>, \<open>Autonomy_Correct\<close>: \<^verbatim>\<open>runtime/autonomy.c\<close> over the scheduler, the tensor manager and the registry.

  \<^bold>\<open>What the lemmas show.\<close>
  \<^item> Heap: \<open>kmalloc\<close> and \<open>kfree\<close> refine first-fit allocation and merging release on a list of blocks;
    from this follow memory safety, the round trip, the double-free panic and that neither call hangs.
  \<^item> Tensor manager: every reachable state has sorted, coalesced free lists that complement the live tensors and never
    touch the user window; allocation is best fit; release restores while a block descriptor is left; the
    statistics are sums over the live tensors.  Two defects are proved: model release can hang when block descriptors run out, and
    sizes above 4 GiB are truncated.
  \<^item> Fabric: tensor references are balanced with the active windows, attachment follows the masks, and the domain
    counts and the pressure snapshot mean what they say under a stated condition.
  \<^item> Scheduler: under a disciplined caller the queues stay ordered and hold exactly the waiting tasks, a pick takes
    the first candidate and a tick preempts as the policy says.  From any such state, suspending a task that was
    never submitted loses the tasks waiting in its queue, and submitting a lone waiting task again makes its queue cyclic.
  \<^item> Loader and user access: for an image apart from the region, a load succeeds exactly on valid images and produces the
    program's memory; neither component writes outside the window or the kernel buffer.
  \<^item> Gate, pipelines, control plane: the table is a policy map; every change of a pipeline is authorised; the registry of
    pipelines is well-formed along every run; a committed action is bounded and can be taken back.

  \<^bold>\<open>Conventions.\<close>  Integers keep their width (\<open>u8\<close> to \<open>u64\<close>); arithmetic wraps as in C.  A pointer is
  an option or an address; a table is a function on indices, a list, or a map.  An operation that may loop
  for ever or dereference a bad pointer returns \<open>option\<close>, and that it returns is proved where it is claimed.  Loops over
  pointer chains are partial functions without fuel; loops over tables recurse on the index.
  Bounds are those of the code: 2048 tensors, 4096 block descriptors, 64 windows, 256 tasks, 128 queued actions.
  Clock readings, addresses the linker fixes, the image size and the number of accelerators are arguments.

  \<^bold>\<open>Atomicity.\<close>  Each call is one atomic step.  This is an assumption of the model, on a single processor, and
  not everywhere what the code enforces.  The heap, the fabric, the gate and the pipelines hold a lock while they
  change their own state.  \<^verbatim>\<open>sched/ai_sched.c\<close>, \<^verbatim>\<open>mm/tensor_mm.c\<close>, \<^verbatim>\<open>core/health.c\<close> and \<^verbatim>\<open>runtime/autonomy.c\<close>
  take none, so their theorems speak of calls that do not overlap.  \<^verbatim>\<open>node_pipeline_execute\<close> drops its lock around the walk over the
  stages and checks the pipeline again afterwards, and the pipelines take their lock only after the gate has
  answered; the model makes the answer, the walk and the update one step.

  \<^bold>\<open>Not modelled.\<close>
  \<^item> Console output, log lines and dump functions of every component: they do not change its state.
  \<^item> Assembly entry points, interrupt and descriptor-table set-up, timers, processor feature bits: their meaning is that
    of the instruction set.
  \<^item> Device drivers, PCI and ACPI discovery, the accelerator layer: they act on device registers and firmware tables.
  \<^item> Processes, kernel threads and user execution, which switch stacks and page tables in assembly.
  \<^item> The SLM orchestrator, system-call dispatch, the resource and pressure ledgers and the kernel rooms, which assemble
    snapshots from hardware probes and from the components above.
  \<^item> Interleavings inside a call (see above), and the Python tools outside the kernel.
\<close>

end
